(* ===== verification/Prelude.thy ===== *)
theory Prelude
  imports Complex_Main "HOL-Library.Multiset" "HOL-Library.Word"
begin

text \<open>
  Shared vocabulary of the development: the types every component uses, the error values and
  panics of the Go code, the theorem collections of the proofs, and the generic lemmas on lists
  and sums that the components share.

  A \<open>decimal.Decimal\<close> is represented by the rational number it denotes: its \<open>Add\<close>, \<open>Sub\<close>, \<open>Mul\<close>,
  \<open>Neg\<close> and comparisons are exact. Its \<open>String\<close> and \<open>Div\<close> are parameters of the definitions that
  call them. A \<open>uuid.UUID\<close> is a 128-bit word, \<open>uuid.Nil\<close> is zero, and \<open>uuid.New\<close> and \<open>time.Now\<close>
  are arguments of the definitions that call them.
\<close>

section \<open>Types\<close>

type_synonym decimal = rat
type_synonym uuid = "128 word"
type_synonym timestamp = int

definition uuid_nil :: uuid where
  "uuid_nil = 0"

text \<open>
  Go errors: \<open>fmt.Errorf\<close> with a fixed text, with decimals or a string formatted into it, or
  wrapping another error; the errors the database driver returns; and, without their texts, those of
  the standard library's parsers and of the JWT library.
\<close>

datatype go_error =
    Errorf string
  | ErrorfDec string "decimal list"
  | ErrorfStr string string
  | ErrorfWrap string go_error
  | ErrNoRows
  | DriverError
  | ForeignKeyViolation
  | UniqueViolation
  | InvalidEnum
  | CheckViolation
  | NumericOverflow
  | InvalidLimit
  | ScanArity
  | ParseError
  | JwtError

datatype panic = SliceBounds | NilDereference | ClosedChannel | BadArgument

section \<open>Theorem collections\<close>

named_theorems go_defs \<open>definitions of the model that proofs unfold together\<close>
named_theorems inv_intros \<open>preservation of the components' invariants\<close>

section \<open>Lists\<close>

lemma nth_append_new [simp]: "(xs @ [y]) ! length xs = y"
  by simp

lemma map_update_same: "f y = f (xs ! k) \<Longrightarrow> map f (xs[k := y]) = map f xs"
  by (metis list_update_id map_update)

lemma sum_list_update_rat:
  fixes f :: "'a \<Rightarrow> rat"
  assumes "k < length xs"
  shows "sum_list (map f (xs[k := y])) = sum_list (map f xs) - f (xs ! k) + f y"
  using assms
  by (induction xs arbitrary: k) (auto split: nat.splits)

lemma sum_list_map_upd_eq:
  "k < length xs \<Longrightarrow> f y = f (xs ! k) \<Longrightarrow> sum_list (map f (xs[k := y])) = sum_list (map f xs)"
  by (simp add: map_update_same)

lemma mset_concat_update:
  assumes "k < length xs"
  shows "mset (concat (map f (xs[k := y]))) + mset (f (xs ! k)) = mset (concat (map f xs)) + mset (f y)"
  using assms by (induction xs arbitrary: k) (auto split: nat.splits)

lemma map_of_filter_neq:
  "map_of (filter (\<lambda>p. fst p \<noteq> k) xs) = (map_of xs)(k := None)"
  by (induction xs) auto

lemma upt_split_at: "i \<le> n \<Longrightarrow> [0..<n] = [0..<i] @ [i..<n]"
  by (metis le_Suc_ex upt_add_eq_append zero_le)

lemma find_SomeD: "find P xs = Some x \<Longrightarrow> P x \<and> x \<in> set xs"
  by (induction xs) (auto split: if_splits)

lemma find_unique_Some:
  assumes "x \<in> set xs" "P x" and unique: "\<And>y. y \<in> set xs \<Longrightarrow> P y \<Longrightarrow> y = x"
  shows "find P xs = Some x"
proof (cases "find P xs")
  case None
  then show ?thesis using assms(1,2) by (simp add: find_None_iff)
next
  case (Some y)
  then show ?thesis using find_SomeD [OF Some] unique by blast
qed

section \<open>Sequencing operations that may fail\<close>

text \<open>A \<open>for\<close> loop over a list whose body may panic or return an error, ending the loop.\<close>

fun fold_result :: "('a \<Rightarrow> 's \<Rightarrow> 'e + 's) \<Rightarrow> 'a list \<Rightarrow> 's \<Rightarrow> 'e + 's" where
  "fold_result f [] s = Inr s"
| "fold_result f (x # xs) s =
     (case f x s of Inl e \<Rightarrow> Inl e | Inr s' \<Rightarrow> fold_result f xs s')"

lemma fold_result_append:
  "fold_result f (xs @ ys) s = (case fold_result f xs s of Inl e \<Rightarrow> Inl e | Inr s' \<Rightarrow> fold_result f ys s')"
  by (induction xs arbitrary: s) (auto split: sum.splits)

lemma fold_result_inv:
  assumes "\<And>x s s'. x \<in> set xs \<Longrightarrow> P s \<Longrightarrow> f x s = Inr s' \<Longrightarrow> P s'"
    and "P s" and "fold_result f xs s = Inr s'"
  shows "P s'"
  using assms by (induction xs arbitrary: s) (auto split: sum.splits)

section \<open>A price string for the examples\<close>

text \<open>
  An injective rendering of decimals, as \<open>Decimal.String\<close> is one: sign, numerator and denominator in
  unary. The examples that instantiate the parameter \<open>str\<close> use it.
\<close>

definition sample_str :: "decimal \<Rightarrow> string" where
  "sample_str x = (case quotient_of x of (n, d) \<Rightarrow>
     (if n < 0 then CHR ''-'' else CHR ''+'') #
     replicate (nat \<bar>n\<bar>) CHR ''1'' @ CHR ''/'' # replicate (nat d) CHR ''1'')"

lemma unary_split:
  assumes "x \<noteq> y" and eq: "replicate a x @ y # replicate b x = replicate c x @ y # replicate d x"
  shows "a = c \<and> b = d"
proof -
  have tw: "length (takeWhile (\<lambda>z. z = x) (replicate k x @ y # zs)) = k" for k zs
    using assms(1) by (induction k) auto
  have "a = c" using tw [of a "replicate b x"] tw [of c "replicate d x"] eq by metis
  moreover have "length (replicate a x @ y # replicate b x) = length (replicate c x @ y # replicate d x)"
    using eq by (rule arg_cong)
  ultimately show ?thesis by simp
qed

lemma inj_sample_str: "inj sample_str"
proof (rule injI)
  fix x y assume eq: "sample_str x = sample_str y"
  obtain n d n' d' where q: "quotient_of x = (n, d)" "quotient_of y = (n', d')"
    by (metis prod.exhaust)
  have pos: "0 < d" "0 < d'" using q quotient_of_denom_pos by auto
  have hd: "hd (sample_str x) = (if n < 0 then CHR ''-'' else CHR ''+'')"
      "hd (sample_str y) = (if n' < 0 then CHR ''-'' else CHR ''+'')"
    by (simp_all add: sample_str_def q)
  then have sg: "(n < 0) = (n' < 0)" using eq by (simp split: if_splits)
  have "tl (sample_str x) = tl (sample_str y)" using eq by simp
  then have "replicate (nat \<bar>n\<bar>) CHR ''1'' @ CHR ''/'' # replicate (nat d) CHR ''1'' =
      replicate (nat \<bar>n'\<bar>) CHR ''1'' @ CHR ''/'' # replicate (nat d') CHR ''1''"
    by (simp add: sample_str_def q)
  from unary_split [OF _ this] have "nat \<bar>n\<bar> = nat \<bar>n'\<bar>" "nat d = nat d'" by simp_all
  then have "n = n'" "d = d'" using pos sg by linarith+
  then show "x = y" using q by (metis quotient_of_inject)
qed

end
