(* ===== verification/Auth.thy ===== *)
theory Auth
  imports Prelude
begin

text \<open>
  \<open>internal/auth/auth.go\<close>: password hashes and their textual encoding, and the tokens.

  Go strings and byte slices are byte sequences, HOL strings. The standard library the code uses is
  modelled: \<open>encoding/base64\<close> (\<open>RawStdEncoding\<close>), \<open>strings.Split\<close>, and \<open>fmt\<close> with the verb \<open>%d\<close>
  (\<open>Sscanf\<close> skips blanks before a number; the blanks outside ASCII are left out). \<open>argon2.IDKey\<close>,
  \<open>argon2.Version\<close> and the JWT library are parameters. \<open>argon2.IDKey\<close> panics on a zero iteration
  count or parallelism: \<open>None\<close>.
\<close>

section \<open>Base 64 without padding\<close>

definition b64_char :: "nat \<Rightarrow> char" where
  "b64_char n =
     (if n < 26 then char_of (n + 65) else if n < 52 then char_of (n + 71)
      else if n < 62 then char_of (n - 4) else if n = 62 then CHR ''+'' else CHR ''/'')"

definition b64_value :: "char \<Rightarrow> nat option" where
  "b64_value c =
     (let n = of_char c :: nat in
      if 65 \<le> n \<and> n < 91 then Some (n - 65) else if 97 \<le> n \<and> n < 123 then Some (n - 71)
      else if 48 \<le> n \<and> n < 58 then Some (n + 4)
      else if c = CHR ''+'' then Some 62 else if c = CHR ''/'' then Some 63 else None)"

fun b64_digits :: "nat list \<Rightarrow> nat list" where
  "b64_digits [] = []"
| "b64_digits [a] = [a div 4, a mod 4 * 16]"
| "b64_digits [a, b] = [a div 4, a mod 4 * 16 + b div 16, b mod 16 * 4]"
| "b64_digits (a # b # c # xs) =
     [a div 4, a mod 4 * 16 + b div 16, b mod 16 * 4 + c div 64, c mod 64] @ b64_digits xs"

fun b64_bytes :: "nat list \<Rightarrow> nat list option" where
  "b64_bytes [] = Some []"
| "b64_bytes [p] = None"
| "b64_bytes [p, q] = Some [p * 4 + q div 16]"
| "b64_bytes [p, q, r] = Some [p * 4 + q div 16, q mod 16 * 16 + r div 4]"
| "b64_bytes (p # q # r # s # xs) =
     (case b64_bytes xs of None \<Rightarrow> None
      | Some ys \<Rightarrow> Some ((p * 4 + q div 16) # (q mod 16 * 16 + r div 4) # (r mod 4 * 64 + s) # ys))"

definition EncodeToString :: "string \<Rightarrow> string" where
  "EncodeToString bs = map b64_char (b64_digits (map of_char bs))"

text \<open>Decoding skips line ends and does not look at the unused bits of the last digit.\<close>

definition DecodeString :: "string \<Rightarrow> go_error + string" where
  "DecodeString s =
     (case those (map b64_value (filter (\<lambda>c. c \<noteq> CHR 0x0A \<and> c \<noteq> CHR 0x0D) s)) of
        None \<Rightarrow> Inl ParseError
      | Some ds \<Rightarrow> (case b64_bytes ds of None \<Rightarrow> Inl ParseError | Some ys \<Rightarrow> Inr (map char_of ys)))"

lemma b64_digits_range: "list_all (\<lambda>a. a < 256) xs \<Longrightarrow> d \<in> set (b64_digits xs) \<Longrightarrow> d < 64"
  by (induction xs rule: b64_digits.induct) auto

lemma b64_bytes_digits: "list_all (\<lambda>a. a < 256) xs \<Longrightarrow> b64_bytes (b64_digits xs) = Some xs"
proof (induction xs rule: b64_digits.induct)
  case (3 a b)
  then have "b div 16 < 16" by auto
  with 3 show ?case by simp
next
  case (4 a b c xs)
  then have "b div 16 < 16" "c div 64 < 4" by auto
  with 4 show ?case by simp
qed simp_all

lemma b64_value_char: "n < 64 \<Longrightarrow> b64_value (b64_char n) = Some n"
  by (auto simp: b64_value_def b64_char_def Let_def)

lemma b64_char_cases:
  assumes "n < 64"
  shows "b64_value (b64_char n) = Some n \<and> b64_char n \<notin> {CHR 0x0A, CHR 0x0D, CHR ''$''}"
proof -
  have "b64_value CHR 0x0A = None" "b64_value CHR 0x0D = None" "b64_value CHR ''$'' = None"
    by (simp_all add: b64_value_def)
  then show ?thesis using b64_value_char [OF assms] by auto
qed

lemma those_map_Some: "(\<And>x. x \<in> set xs \<Longrightarrow> f x = Some (g x)) \<Longrightarrow> those (map f xs) = Some (map g xs)"
  by (induction xs) auto

lemma char_bytes: "list_all (\<lambda>a. a < 256) (map of_char bs :: nat list)"
  by (simp add: list_all_iff)

text \<open>Encoding is undone by decoding, and its digits contain no dollar sign.\<close>

lemma Decode_Encode: "DecodeString (EncodeToString bs) = Inr bs"
proof -
  let ?ds = "b64_digits (map of_char bs)"
  have d: "d < 64" if "d \<in> set ?ds" for d using b64_digits_range [OF char_bytes that] .
  have f: "filter (\<lambda>c. c \<noteq> CHR 0x0A \<and> c \<noteq> CHR 0x0D) (map b64_char ?ds) = map b64_char ?ds"
    using b64_char_cases d by (intro filter_True) fastforce
  have "those (map b64_value (map b64_char ?ds)) = Some ?ds"
    using those_map_Some [of ?ds "b64_value \<circ> b64_char" id] b64_char_cases d by simp
  then show ?thesis
    unfolding DecodeString_def EncodeToString_def f by (simp add: b64_bytes_digits [OF char_bytes] comp_def)
qed

lemma Encode_no_dollar: "CHR ''$'' \<notin> set (EncodeToString bs)"
  using b64_char_cases b64_digits_range [OF char_bytes, of _ bs] by (fastforce simp: EncodeToString_def)

section \<open>strings.Split\<close>

fun split_on :: "char \<Rightarrow> string \<Rightarrow> string list" where
  "split_on sep [] = [[]]"
| "split_on sep (c # s) =
     (if c = sep then [] # split_on sep s
      else (case split_on sep s of [] \<Rightarrow> [[c]] | p # ps \<Rightarrow> (c # p) # ps))"

lemma split_on_none: "sep \<notin> set s \<Longrightarrow> split_on sep s = [s]"
  by (induction s) auto

lemma split_on_append: "sep \<notin> set s \<Longrightarrow> split_on sep (s @ sep # t) = s # split_on sep t"
  by (induction s) auto

section \<open>Numbers in text\<close>

fun dec :: "nat \<Rightarrow> string" where
  "dec n = (if n < 10 then [char_of (n + 48)] else dec (n div 10) @ [char_of (n mod 10 + 48)])"

text \<open>\<open>%d\<close> of an integer.\<close>

definition show_int :: "int \<Rightarrow> string" where
  "show_int i = (if i < 0 then CHR ''-'' # dec (nat (- i)) else dec (nat i))"

declare dec.simps [simp del]

definition is_digit :: "char \<Rightarrow> bool" where
  "is_digit c \<longleftrightarrow> 48 \<le> (of_char c :: nat) \<and> (of_char c :: nat) < 58"

definition digits_value :: "string \<Rightarrow> int" where
  "digits_value ds = foldl (\<lambda>v c. 10 * v + (int (of_char c) - 48)) 0 ds"

definition is_blank :: "char \<Rightarrow> bool" where
  "is_blank c \<longleftrightarrow> c \<in> {CHR '' '', CHR 0x09, CHR 0x0B, CHR 0x0C, CHR 0x0D}"

text \<open>A literal of the format of \<open>fmt.Sscanf\<close>, and its verb \<open>%d\<close> for an \<open>int\<close>: the rest of the input.\<close>

fun scan_literal :: "string \<Rightarrow> string \<Rightarrow> string option" where
  "scan_literal [] s = Some s"
| "scan_literal (f # fs) [] = None"
| "scan_literal (f # fs) (c # s) = (if f = c then scan_literal fs s else None)"

definition scan_int :: "string \<Rightarrow> (int \<times> string) option" where
  "scan_int s =
     (let s1 = dropWhile is_blank s;
          s2 = (case s1 of c # t \<Rightarrow> if c \<in> {CHR ''+'', CHR ''-''} then t else s1 | [] \<Rightarrow> []);
          ds = takeWhile is_digit s2;
          n = (if s1 \<noteq> [] \<and> hd s1 = CHR ''-'' then - digits_value ds else digits_value ds)
      in if ds = [] \<or> n < - (2 ^ 63) \<or> 2 ^ 63 \<le> n then None else Some (n, dropWhile is_digit s2))"

definition scan_field :: "string \<Rightarrow> string \<Rightarrow> (int \<times> string) option" where
  "scan_field lit s = (case scan_literal lit s of None \<Rightarrow> None | Some s \<Rightarrow> scan_int s)"

definition Sscanf_version :: "string \<Rightarrow> int option" where
  "Sscanf_version s = map_option fst (scan_field ''v='' s)"

definition Sscanf_params :: "string \<Rightarrow> (int \<times> int \<times> int) option" where
  "Sscanf_params s =
     (case scan_field ''m='' s of None \<Rightarrow> None | Some (m, s) \<Rightarrow>
      (case scan_field '',t='' s of None \<Rightarrow> None | Some (t, s) \<Rightarrow>
       (case scan_field '',p='' s of None \<Rightarrow> None | Some (p, s) \<Rightarrow> Some (m, t, p))))"

lemma scan_literal_append [simp]: "scan_literal l (l @ s) = Some s"
  by (induction l) auto

lemma digit_char: "k < 10 \<Longrightarrow> is_digit (char_of (k + 48)) \<and> of_char (char_of (k + 48)) = k + (48 :: nat)"
  by (simp add: is_digit_def)

lemma dec_digits: "list_all is_digit (dec n) \<and> dec n \<noteq> []"
proof (induction n rule: dec.induct)
  case (1 n)
  show ?case by (subst (1 2) dec.simps) (use 1 in \<open>simp add: digit_char\<close>)
qed

lemma dec_value: "digits_value (dec n) = int n"
proof (induction n rule: dec.induct)
  case (1 n)
  have "int n = 10 * (int n div 10) + int (n mod 10)" by (simp add: zmod_int)
  then show ?case
    by (subst dec.simps) (use 1 in \<open>simp add: digits_value_def digit_char zdiv_int\<close>)
qed

lemma digit_first: "is_digit c \<Longrightarrow> \<not> is_blank c \<and> c \<noteq> CHR ''+'' \<and> c \<noteq> CHR ''-'' \<and> c \<noteq> CHR ''$''"
  by (auto simp: is_digit_def is_blank_def)

lemma scan_int_dec:
  assumes "n < 2 ^ 63" and "s = [] \<or> \<not> is_digit (hd s)"
  shows "scan_int (dec n @ s) = Some (int n, s)"
proof -
  obtain c t where d: "dec n = c # t" using dec_digits [of n] by (cases "dec n") auto
  then have c: "is_digit c" using dec_digits [of n] by simp
  have "takeWhile is_digit (dec n @ s) = dec n" "dropWhile is_digit (dec n @ s) = s"
    using assms(2) dec_digits [of n]
    by (cases s; simp add: list_all_iff)+
  moreover have "int n < 2 ^ 63" using assms(1) by simp
  moreover have "digits_value (c # t) = int n" using dec_value [of n] d by simp
  ultimately show ?thesis
    using digit_first [OF c] d by (simp add: scan_int_def Let_def)
qed

section \<open>Password hashes\<close>

definition Memory :: nat where "Memory = 64 * 1024"
definition Iterations :: nat where "Iterations = 3"
definition Parallelism :: nat where "Parallelism = 2"
definition SaltLength :: nat where "SaltLength = 16"
definition KeyLength :: nat where "KeyLength = 32"

record argon2id_params =
  ap_memory :: "32 word"
  ap_iterations :: "32 word"
  ap_parallelism :: "8 word"
  ap_salt_length :: "32 word"
  ap_key_length :: "32 word"

text \<open>\<open>argon2.IDKey(password, salt, time, memory, threads, keyLen)\<close>\<close>

type_synonym idkey = "string \<Rightarrow> string \<Rightarrow> 32 word \<Rightarrow> 32 word \<Rightarrow> 8 word \<Rightarrow> 32 word \<Rightarrow> string option"

definition generateRandomBytes :: "(nat \<Rightarrow> string option) \<Rightarrow> nat \<Rightarrow> go_error + string" where
  "generateRandomBytes rand n = (case rand n of None \<Rightarrow> Inl DriverError | Some b \<Rightarrow> Inr b)"

definition format_hash :: "nat \<Rightarrow> string \<Rightarrow> string \<Rightarrow> string" where
  "format_hash version salt hash =
     ''$argon2id$v='' @ dec version @ ''$m='' @ dec Memory @ '',t='' @ dec Iterations @
     '',p='' @ dec Parallelism @ ''$'' @ EncodeToString salt @ ''$'' @ EncodeToString hash"

definition HashPassword ::
  "idkey \<Rightarrow> nat \<Rightarrow> (nat \<Rightarrow> string option) \<Rightarrow> string \<Rightarrow> panic + (go_error + string)" where
  "HashPassword IDKey version rand password =
     (case generateRandomBytes rand SaltLength of
        Inl e \<Rightarrow> Inr (Inl e)
      | Inr salt \<Rightarrow>
          (case IDKey password salt (of_nat Iterations) (of_nat Memory) (of_nat Parallelism) (of_nat KeyLength) of
             None \<Rightarrow> Inl BadArgument
           | Some hash \<Rightarrow> Inr (Inr (format_hash version salt hash))))"

definition decodeHash :: "nat \<Rightarrow> string \<Rightarrow> go_error + argon2id_params \<times> string \<times> string" where
  "decodeHash version encodedHash =
     (let parts = split_on CHR ''$'' encodedHash in
      if length parts \<noteq> 6 \<or> parts ! 0 \<noteq> '''' \<or> parts ! 1 \<noteq> ''argon2id''
      then Inl (Errorf ''invalid hash format'')
      else (case Sscanf_version (parts ! 2) of
        None \<Rightarrow> Inl ParseError
      | Some v \<Rightarrow>
          if v \<noteq> int version then Inl (Errorf ''incompatible version'')
          else (case Sscanf_params (parts ! 3) of
            None \<Rightarrow> Inl ParseError
          | Some (memory, iterations, parallelism) \<Rightarrow>
              (case DecodeString (parts ! 4) of
                 Inl e \<Rightarrow> Inl e
               | Inr salt \<Rightarrow>
                   (case DecodeString (parts ! 5) of
                      Inl e \<Rightarrow> Inl e
                    | Inr hash \<Rightarrow>
                        Inr (\<lparr>ap_memory = of_int memory, ap_iterations = of_int iterations,
                               ap_parallelism = of_int parallelism,
                               ap_salt_length = of_nat (length salt), ap_key_length = of_nat (length hash)\<rparr>,
                             salt, hash))))))"

text \<open>\<open>subtle.ConstantTimeCompare\<close> is one exactly for equal slices.\<close>

definition VerifyPassword :: "idkey \<Rightarrow> nat \<Rightarrow> string \<Rightarrow> string \<Rightarrow> panic + (go_error + bool)" where
  "VerifyPassword IDKey version password encodedHash =
     (case decodeHash version encodedHash of
        Inl e \<Rightarrow> Inr (Inl e)
      | Inr (params, salt, hash) \<Rightarrow>
          (case IDKey password salt (ap_iterations params) (ap_memory params) (ap_parallelism params)
                  (ap_key_length params) of
             None \<Rightarrow> Inl BadArgument
           | Some otherHash \<Rightarrow> Inr (Inr (hash = otherHash))))"

lemma dec_no_dollar: "CHR ''$'' \<notin> set (dec n)"
  using dec_digits [of n] by (auto simp: list_all_iff is_digit_def)

lemma format_hash_parts:
  "split_on CHR ''$'' (format_hash version salt hash) =
     ['''', ''argon2id'', ''v='' @ dec version,
      ''m='' @ dec Memory @ '',t='' @ dec Iterations @ '',p='' @ dec Parallelism,
      EncodeToString salt, EncodeToString hash]"
proof -
  let ?mtp = "''m='' @ dec Memory @ '',t='' @ dec Iterations @ '',p='' @ dec Parallelism"
  have "format_hash version salt hash = [] @ CHR ''$'' # ''argon2id'' @ CHR ''$'' # (''v='' @ dec version) @
      CHR ''$'' # ?mtp @ CHR ''$'' # EncodeToString salt @ CHR ''$'' # EncodeToString hash"
    by (simp add: format_hash_def)
  then show ?thesis
    apply (simp only:)
    apply (subst split_on_append split_on_none, simp add: dec_no_dollar Encode_no_dollar)+
    apply (rule refl)
    done
qed

lemma decodeHash_parts:
  assumes "split_on CHR ''$'' s = [[], ''argon2id'', v, ps, s64, h64]"
    and "Sscanf_version v = Some (int version)" and "Sscanf_params ps = Some (m, t, p)"
    and "DecodeString s64 = Inr salt" and "DecodeString h64 = Inr hash"
  shows "decodeHash version s = Inr (\<lparr>ap_memory = of_int m, ap_iterations = of_int t, ap_parallelism = of_int p,
      ap_salt_length = of_nat (length salt), ap_key_length = of_nat (length hash)\<rparr>, salt, hash)"
  using assms by (simp add: decodeHash_def)

lemma decode_format_hash:
  assumes "version < 2 ^ 63"
  shows "decodeHash version (format_hash version salt hash) =
    Inr (\<lparr>ap_memory = of_nat Memory, ap_iterations = of_nat Iterations, ap_parallelism = of_nat Parallelism,
      ap_salt_length = of_nat (length salt), ap_key_length = of_nat (length hash)\<rparr>, salt, hash)"
proof -
  have v: "Sscanf_version (''v='' @ dec version) = Some (int version)"
    using scan_int_dec [of version "[]"] assms by (simp add: Sscanf_version_def scan_field_def)
  have p: "Sscanf_params (''m='' @ dec Memory @ '',t='' @ dec Iterations @ '',p='' @ dec Parallelism) =
      Some (int Memory, int Iterations, int Parallelism)"
    using scan_int_dec [of Memory "'',t='' @ dec Iterations @ '',p='' @ dec Parallelism"]
      scan_int_dec [of Iterations "'',p='' @ dec Parallelism"] scan_int_dec [of Parallelism "[]"]
    by (simp add: Sscanf_params_def scan_field_def is_digit_def Memory_def Iterations_def Parallelism_def)
  show ?thesis using decodeHash_parts [OF format_hash_parts v p Decode_Encode Decode_Encode] by simp
qed

text \<open>
  A hash that \<open>HashPassword\<close> returned, when the key derivation yields keys of the asked length: it
  verifies the passwords that derive the same key from its salt.
\<close>

lemma hash_verifies:
  assumes "version < 2 ^ 63" and "HashPassword IDKey version rand p = Inr (Inr enc)"
    and key: "\<And>q salt. \<exists>h. IDKey q salt 3 65536 2 32 = Some h \<and> length h = KeyLength"
  shows "\<exists>salt. rand SaltLength = Some salt \<and> VerifyPassword IDKey version q enc =
    Inr (Inr (IDKey q salt 3 65536 2 32 = IDKey p salt 3 65536 2 32))"
proof -
  obtain salt h where h: "rand SaltLength = Some salt" "IDKey p salt 3 65536 2 32 = Some h"
    "enc = format_hash version salt h"
    using assms(2) by (auto simp: HashPassword_def generateRandomBytes_def Iterations_def Memory_def
        Parallelism_def KeyLength_def split: option.splits)
  obtain h' where h': "IDKey q salt 3 65536 2 32 = Some h'" using key by blast
  have "length h = KeyLength" using key [of p salt] h(2) by auto
  then have "VerifyPassword IDKey version q enc = Inr (Inr (h = h'))"
    using h' decode_format_hash [OF assms(1), of salt h]
    by (simp add: VerifyPassword_def h(3) Iterations_def Memory_def Parallelism_def KeyLength_def)
  then show ?thesis using h h' by auto
qed

section \<open>Tokens\<close>

text \<open>
  Times are nanoseconds; a \<open>jwt.NumericDate\<close> holds whole seconds. \<open>sign c key\<close> is
  \<open>NewWithClaims(HS256, c).SignedString(key)\<close> and \<open>parse now s keyfunc\<close> is \<open>jwt.ParseWithClaims\<close> with
  its result's claims and \<open>Valid\<close>.
\<close>

definition AccessTokenDuration :: int where "AccessTokenDuration = 15 * 60 * 10 ^ 9"
definition RefreshTokenDuration :: int where "RefreshTokenDuration = 7 * 24 * 60 * 60 * 10 ^ 9"

definition JWTSecret :: string where
  "JWTSecret = ''microcoin-secret-key-change-in-production''"

record claims =
  cl_user :: uuid
  cl_email :: string
  cl_expires :: int
  cl_issued :: int
  cl_not_before :: int

definition NewNumericDate :: "int \<Rightarrow> int" where
  "NewNumericDate t = t div 10 ^ 9"

datatype signing_method = HMAC | OtherMethod

type_synonym jwt_sign = "claims \<Rightarrow> string \<Rightarrow> go_error + string"
type_synonym jwt_parse =
  "int \<Rightarrow> string \<Rightarrow> (signing_method \<Rightarrow> go_error + string) \<Rightarrow> go_error + claims \<times> bool"

text \<open>Each call of \<open>time.Now\<close> reads the clock: \<open>clock i\<close> is the reading of the call number \<open>i\<close>.\<close>

definition access_claims :: "(nat \<Rightarrow> int) \<Rightarrow> uuid \<Rightarrow> string \<Rightarrow> claims" where
  "access_claims clock userID email =
     \<lparr>cl_user = userID, cl_email = email, cl_expires = NewNumericDate (clock 0 + AccessTokenDuration),
      cl_issued = NewNumericDate (clock 1), cl_not_before = NewNumericDate (clock 2)\<rparr>"

definition refresh_claims :: "(nat \<Rightarrow> int) \<Rightarrow> uuid \<Rightarrow> string \<Rightarrow> claims" where
  "refresh_claims clock userID email =
     \<lparr>cl_user = userID, cl_email = email, cl_expires = NewNumericDate (clock 3 + RefreshTokenDuration),
      cl_issued = NewNumericDate (clock 4), cl_not_before = NewNumericDate (clock 5)\<rparr>"

definition GenerateTokens ::
  "jwt_sign \<Rightarrow> (nat \<Rightarrow> int) \<Rightarrow> uuid \<Rightarrow> string \<Rightarrow> go_error + string \<times> string" where
  "GenerateTokens sign clock userID email =
     (case sign (access_claims clock userID email) JWTSecret of
        Inl e \<Rightarrow> Inl e
      | Inr accessToken \<Rightarrow>
          (case sign (refresh_claims clock userID email) JWTSecret of
             Inl e \<Rightarrow> Inl e
           | Inr refreshToken \<Rightarrow> Inr (accessToken, refreshToken)))"

definition token_key :: "signing_method \<Rightarrow> go_error + string" where
  "token_key m = (if m = HMAC then Inr JWTSecret else Inl (Errorf ''unexpected signing method''))"

definition ValidateToken :: "jwt_parse \<Rightarrow> int \<Rightarrow> string \<Rightarrow> go_error + claims" where
  "ValidateToken parse now tokenString =
     (case parse now tokenString token_key of
        Inl e \<Rightarrow> Inl e
      | Inr (claims, valid) \<Rightarrow> if valid then Inr claims else Inl (Errorf ''invalid token''))"

text \<open>
  The documented behaviour of the library on its own tokens: the signature verifies under the key it
  was made with, and the token is valid from its \<open>nbf\<close> until before its \<open>exp\<close>.
\<close>

definition jwt_documented :: "jwt_sign \<Rightarrow> jwt_parse \<Rightarrow> bool" where
  "jwt_documented sign parse \<longleftrightarrow>
     (\<forall>c key s now keyfunc. sign c key = Inr s \<longrightarrow> keyfunc HMAC = Inr key \<longrightarrow>
        parse now s keyfunc =
          (if cl_not_before c * 10 ^ 9 \<le> now \<and> now < cl_expires c * 10 ^ 9 then Inr (c, True) else Inl JwtError))"

lemma validate_signed:
  assumes "jwt_documented sign parse" and "sign c JWTSecret = Inr s"
  shows "ValidateToken parse now s =
    (if cl_not_before c * 10 ^ 9 \<le> now \<and> now < cl_expires c * 10 ^ 9 then Inr c else Inl JwtError)"
proof -
  have "parse now s token_key =
      (if cl_not_before c * 10 ^ 9 \<le> now \<and> now < cl_expires c * 10 ^ 9 then Inr (c, True) else Inl JwtError)"
    using assms(1) [unfolded jwt_documented_def, rule_format, of c JWTSecret s token_key now] assms(2)
    by (simp add: token_key_def)
  then show ?thesis by (simp add: ValidateToken_def)
qed

section \<open>Properties\<close>

text \<open>
  When random bytes and the key derivation are available, \<open>HashPassword\<close> returns a hash,
  and \<open>VerifyPassword\<close> on it accepts a password exactly if the password derives the same key from the
  stored salt; the hashed password in particular.
\<close>

theorem password_roundtrip:
  assumes "version < 2 ^ 63"
    and "rand SaltLength = Some salt"
    and "\<And>q salt. \<exists>h. IDKey q salt 3 65536 2 32 = Some h \<and> length h = KeyLength"
  shows "\<exists>enc. HashPassword IDKey version rand p = Inr (Inr enc) \<and>
    VerifyPassword IDKey version q enc = Inr (Inr (IDKey q salt 3 65536 2 32 = IDKey p salt 3 65536 2 32))"
proof -
  obtain h where "IDKey p salt 3 65536 2 32 = Some h" using assms(3) by blast
  then have enc: "HashPassword IDKey version rand p = Inr (Inr (format_hash version salt h))"
    using assms(2)
    by (simp add: HashPassword_def generateRandomBytes_def Iterations_def Memory_def Parallelism_def KeyLength_def)
  then show ?thesis using hash_verifies [OF assms(1) enc assms(3), of q] assms(2) by auto
qed

text \<open>A toy key derivation for the example.\<close>

definition sample_idkey :: idkey where
  "sample_idkey p s t m n k = Some (take 32 (p @ s @ replicate 32 CHR ''0''))"

theorem password_roundtrip_witness:
  "\<exists>enc. HashPassword sample_idkey 19 (\<lambda>n. Some (replicate n CHR ''s'')) ''hunter2'' = Inr (Inr enc) \<and>
    VerifyPassword sample_idkey 19 ''hunter2'' enc = Inr (Inr True)"
proof -
  have len: "\<exists>h. sample_idkey q salt 3 65536 2 32 = Some h \<and> length h = KeyLength" for q salt
    by (simp add: sample_idkey_def KeyLength_def)
  show ?thesis
    using password_roundtrip [of 19 "\<lambda>n. Some (replicate n CHR ''s'')" "replicate 16 CHR ''s''" sample_idkey
        "''hunter2''" "''hunter2''"] len
    by (simp add: SaltLength_def)
qed

lemma token_windows:
  assumes "jwt_documented sign parse"
    and "GenerateTokens sign clock userID email = Inr (access, refresh)"
  shows "ValidateToken parse now access =
      (if clock 2 div 10 ^ 9 * 10 ^ 9 \<le> now \<and> now < (clock 0 div 10 ^ 9 + 15 * 60) * 10 ^ 9
       then Inr (access_claims clock userID email) else Inl JwtError)"
    and "ValidateToken parse now refresh =
      (if clock 5 div 10 ^ 9 * 10 ^ 9 \<le> now \<and> now < (clock 3 div 10 ^ 9 + 7 * 24 * 60 * 60) * 10 ^ 9
       then Inr (refresh_claims clock userID email) else Inl JwtError)"
proof -
  have s: "sign (access_claims clock userID email) JWTSecret = Inr access"
    "sign (refresh_claims clock userID email) JWTSecret = Inr refresh"
    using assms(2) by (auto simp: GenerateTokens_def split: sum.splits)
  have d: "(t + k * 10 ^ 9) div 10 ^ 9 = t div 10 ^ 9 + k" for t k :: int by simp
  show "ValidateToken parse now access =
      (if clock 2 div 10 ^ 9 * 10 ^ 9 \<le> now \<and> now < (clock 0 div 10 ^ 9 + 15 * 60) * 10 ^ 9
       then Inr (access_claims clock userID email) else Inl JwtError)"
    using validate_signed [OF assms(1) s(1), of now] d [of "clock 0" "15 * 60"]
    by (simp add: access_claims_def NewNumericDate_def AccessTokenDuration_def)
  show "ValidateToken parse now refresh =
      (if clock 5 div 10 ^ 9 * 10 ^ 9 \<le> now \<and> now < (clock 3 div 10 ^ 9 + 7 * 24 * 60 * 60) * 10 ^ 9
       then Inr (refresh_claims clock userID email) else Inl JwtError)"
    using validate_signed [OF assms(1) s(2), of now] d [of "clock 3" "7 * 24 * 60 * 60"]
    by (simp add: refresh_claims_def NewNumericDate_def RefreshTokenDuration_def)
qed

text \<open>
  With the JWT library as documented, the access token of \<open>GenerateTokens\<close> is accepted, as a
  token of its user, exactly from its not-before time for fifteen minutes, counted in whole seconds;
  and the refresh token passes the same validation for seven days.
\<close>

theorem token_lifetimes:
  assumes "jwt_documented sign parse"
    and "GenerateTokens sign clock userID email = Inr (access, refresh)"
  shows "ValidateToken parse now access =
      (if clock 2 div 10 ^ 9 * 10 ^ 9 \<le> now \<and> now < (clock 0 div 10 ^ 9 + 15 * 60) * 10 ^ 9
       then Inr (access_claims clock userID email) else Inl JwtError) \<and>
    ValidateToken parse now refresh =
      (if clock 5 div 10 ^ 9 * 10 ^ 9 \<le> now \<and> now < (clock 3 div 10 ^ 9 + 7 * 24 * 60 * 60) * 10 ^ 9
       then Inr (refresh_claims clock userID email) else Inl JwtError)"
  using token_windows [OF assms, of now] by simp

text \<open>A library that signs just the two claims of one sign-in.\<close>

definition sample_claims :: "claims list" where
  "sample_claims = [access_claims (\<lambda>_. 0) 7 ''a@b'', refresh_claims (\<lambda>_. 0) 7 ''a@b'']"

definition sample_sign :: jwt_sign where
  "sample_sign c key =
     (if key \<noteq> JWTSecret then Inl JwtError
      else if c = sample_claims ! 0 then Inr ''access''
      else if c = sample_claims ! 1 then Inr ''refresh'' else Inl JwtError)"

definition sample_parse :: jwt_parse where
  "sample_parse now s keyfunc =
     (let c = (if s = ''access'' then sample_claims ! 0 else sample_claims ! 1) in
      if keyfunc HMAC = Inr JWTSecret \<and> cl_not_before c * 10 ^ 9 \<le> now \<and> now < cl_expires c * 10 ^ 9
      then Inr (c, True) else Inl JwtError)"

lemma sample_jwt_documented: "jwt_documented sample_sign sample_parse"
  unfolding jwt_documented_def sample_sign_def sample_parse_def Let_def
  by (auto split: if_splits)

lemma sample_tokens: "GenerateTokens sample_sign (\<lambda>_. 0) 7 ''a@b'' = Inr (''access'', ''refresh'')"
proof -
  have "cl_expires (sample_claims ! 0) \<noteq> cl_expires (sample_claims ! 1)"
    by (simp add: sample_claims_def access_claims_def refresh_claims_def NewNumericDate_def
        AccessTokenDuration_def RefreshTokenDuration_def)
  then have "sample_claims ! 0 \<noteq> sample_claims ! 1" by auto
  then show ?thesis by (auto simp: GenerateTokens_def sample_sign_def sample_claims_def)
qed

theorem token_lifetimes_witness:
  "ValidateToken sample_parse (14 * 60 * 10 ^ 9) ''access'' = Inr (access_claims (\<lambda>_. 0) 7 ''a@b'') \<and>
   ValidateToken sample_parse (20 * 60 * 10 ^ 9) ''access'' = Inl JwtError \<and>
   ValidateToken sample_parse (20 * 60 * 10 ^ 9) ''refresh'' = Inr (refresh_claims (\<lambda>_. 0) 7 ''a@b'')"
  using token_lifetimes [OF sample_jwt_documented sample_tokens, of "14 * 60 * 10 ^ 9"]
    token_lifetimes [OF sample_jwt_documented sample_tokens, of "20 * 60 * 10 ^ 9"] by simp

end
