(* ===== verification/Doubles.thy ===== *)
theory Doubles
  imports Prelude
begin

text \<open>
  IEEE double precision: the \<open>float64\<close> of Go and the number type of the Lua scripts that Redis runs.

  A double is the rational number it denotes and \<open>float64\<close> rounds an exact result to the nearest
  double, ties to even: 53 bits of precision, no bound on the exponent (the quantities of the code
  are far from overflow and underflow). The locale \<open>rounding\<close> collects the laws the rate limiter
  relies on; they are proved here of \<open>float64\<close>.
\<close>

section \<open>Rounding to the nearest integer\<close>

definition round_even :: "rat \<Rightarrow> int" where
  "round_even x =
     (let f = \<lfloor>x\<rfloor>; r = x - of_int f
      in if r < 1 / 2 then f else if 1 / 2 < r then f + 1 else if even f then f else f + 1)"

lemma round_even_bounds: "\<lfloor>x\<rfloor> \<le> round_even x" "round_even x \<le> \<lfloor>x\<rfloor> + 1"
  by (simp_all add: round_even_def Let_def)

lemma round_even_int [simp]: "round_even (of_int k) = k"
  by (simp add: round_even_def)

lemma round_even_mono:
  assumes "x \<le> y"
  shows "round_even x \<le> round_even y"
proof (cases "\<lfloor>x\<rfloor> = \<lfloor>y\<rfloor>")
  case True
  then show ?thesis using assms by (auto simp: round_even_def Let_def)
next
  case False
  then have "\<lfloor>x\<rfloor> + 1 \<le> \<lfloor>y\<rfloor>" using floor_mono [OF assms] by simp
  then show ?thesis using round_even_bounds(2) [of x] round_even_bounds(1) [of y] by linarith
qed

lemma round_even_error: "of_int (round_even x) \<le> x + 1 / 2"
  using of_int_floor_le [of x] unfolding round_even_def Let_def by (simp split: if_splits) linarith

section \<open>The binary exponent\<close>

definition two_powi :: "int \<Rightarrow> rat" where
  "two_powi k = (if 0 \<le> k then 2 ^ nat k else 1 / 2 ^ nat (- k))"

lemma two_powi_eq: "two_powi k = 2 powi k"
  by (simp add: two_powi_def power_int_def field_simps)

lemma two_powi_pos [simp]: "0 < two_powi k"
  by (simp add: two_powi_def)

lemma two_powi_add: "two_powi (j + k) = two_powi j * two_powi k"
  by (simp add: two_powi_eq power_int_add)

lemma two_powi_mono: "j \<le> k \<Longrightarrow> two_powi j \<le> two_powi k"
  by (simp add: two_powi_eq power_int_increasing)

lemma two_powi_less_imp: "two_powi j < two_powi k \<Longrightarrow> j < k"
  using two_powi_mono [of k j] by linarith

fun bit_length :: "nat \<Rightarrow> nat" where
  "bit_length n = (if n = 0 then 0 else Suc (bit_length (n div 2)))"

declare bit_length.simps [simp del]

lemma bit_length_bounds: "0 < n \<Longrightarrow> 2 ^ (bit_length n - 1) \<le> n \<and> n < 2 ^ bit_length n"
proof (induction n rule: bit_length.induct)
  case (1 n)
  show ?case
  proof (cases "n = 1")
    case True
    then show ?thesis by (simp add: bit_length.simps)
  next
    case False
    then have pos: "0 < n div 2" using "1.prems" by (cases n) auto
    then have ih: "2 ^ (bit_length (n div 2) - 1) \<le> n div 2" "n div 2 < 2 ^ bit_length (n div 2)"
      using 1 by auto
    have len: "bit_length n = Suc (bit_length (n div 2))" using "1.prems" bit_length.simps [of n] by simp
    obtain m where m: "bit_length (n div 2) = Suc m"
      using bit_length.simps [of "n div 2"] pos by auto
    show ?thesis using ih len m by auto
  qed
qed

text \<open>The \<open>k\<close> with \<open>2 ^ k \<le> x < 2 ^ (k + 1)\<close>, for a positive \<open>x\<close>.\<close>

definition expo :: "rat \<Rightarrow> int" where
  "expo x = (case quotient_of x of (n, d) \<Rightarrow>
     let k = int (bit_length (nat n)) - int (bit_length (nat d)) in if two_powi k \<le> x then k else k - 1)"

lemma expo_bounds:
  assumes "0 < x"
  shows "two_powi (expo x) \<le> x \<and> x < two_powi (expo x + 1)"
proof -
  obtain n d where q: "quotient_of x = (n, d)" by (metis prod.exhaust)
  have d: "0 < d" using quotient_of_denom_pos [OF q] .
  have x: "x = of_int n / of_int d" using quotient_of_div [OF q] .
  then have n: "0 < n" using assms d by (simp add: zero_less_divide_iff)
  let ?a = "bit_length (nat n)" and ?b = "bit_length (nat d)"
  have up: "of_int m < two_powi (int (bit_length (nat m)))"
    and lo: "two_powi (int (bit_length (nat m)) - 1) \<le> of_int m" if "0 < m" for m
  proof -
    have b: "2 ^ (bit_length (nat m) - 1) \<le> nat m" "nat m < 2 ^ bit_length (nat m)"
      using bit_length_bounds [of "nat m"] that by auto
    have "0 < bit_length (nat m)" using b(2) that by (cases "bit_length (nat m)") auto
    then show "two_powi (int (bit_length (nat m)) - 1) \<le> of_int m"
      using b(1) that by (simp add: two_powi_def nat_diff_distrib)
    show "of_int m < two_powi (int (bit_length (nat m)))"
      using b(2) that by (simp add: two_powi_def)
  qed
  have hi: "x < two_powi (int ?a - int ?b + 1)"
  proof -
    have "of_int n < two_powi (int ?a - int ?b + 1) * two_powi (int ?b - 1)"
      using up [OF n] by (simp add: two_powi_add [symmetric])
    also have "\<dots> \<le> two_powi (int ?a - int ?b + 1) * of_int d"
      using lo [OF d] by (intro mult_left_mono) (simp_all add: less_imp_le)
    finally show ?thesis using d by (simp add: x divide_less_eq)
  qed
  have low: "two_powi (int ?a - int ?b - 1) \<le> x"
  proof -
    have "two_powi (int ?a - int ?b - 1) * of_int d \<le> two_powi (int ?a - int ?b - 1) * two_powi (int ?b)"
      using up [OF d] by (intro mult_left_mono) (simp_all add: less_imp_le)
    also have "\<dots> \<le> of_int n" using lo [OF n] by (simp add: two_powi_add [symmetric])
    finally show ?thesis using d by (simp add: x le_divide_eq)
  qed
  show ?thesis using hi low by (auto simp: expo_def q Let_def)
qed

lemma expo_mono:
  assumes "0 < x" "x \<le> y"
  shows "expo x \<le> expo y"
proof -
  have "two_powi (expo x) < two_powi (expo y + 1)"
    using expo_bounds [of x] expo_bounds [of y] assms by linarith
  then show ?thesis using two_powi_less_imp by fastforce
qed

section \<open>Rounding to the nearest double\<close>

definition round_pos :: "rat \<Rightarrow> rat" where
  "round_pos x = (let u = two_powi (expo x - 52) in of_int (round_even (x / u)) * u)"

definition float64 :: "rat \<Rightarrow> rat" where
  "float64 x = (if x = 0 then 0 else if 0 < x then round_pos x else - round_pos (- x))"

lemma round_pos_range:
  assumes "0 < x"
  shows "two_powi (expo x) \<le> round_pos x \<and> round_pos x \<le> two_powi (expo x + 1)"
proof -
  let ?u = "two_powi (expo x - 52)"
  have p: "two_powi (expo x) = of_int (2 ^ 52) * ?u" "two_powi (expo x + 1) = of_int (2 ^ 53) * ?u"
    using two_powi_add [of 52 "expo x - 52"] two_powi_add [of 53 "expo x - 52"]
    by (simp_all add: two_powi_def [of 52] two_powi_def [of 53] add.commute)
  have "of_int (2 ^ 52) \<le> x / ?u" "x / ?u \<le> of_int (2 ^ 53)"
    using expo_bounds [OF assms] p by (simp_all add: le_divide_eq divide_le_eq)
  then have "2 ^ 52 \<le> round_even (x / ?u)" "round_even (x / ?u) \<le> 2 ^ 53"
    using round_even_mono round_even_int by metis+
  then have "of_int (2 ^ 52) \<le> rat_of_int (round_even (x / ?u))" "rat_of_int (round_even (x / ?u)) \<le> of_int (2 ^ 53)"
    unfolding of_int_le_iff by auto
  then show ?thesis unfolding p round_pos_def Let_def by (auto intro: mult_right_mono simp: less_imp_le)
qed

lemma round_pos_mono:
  assumes "0 < x" "x \<le> y"
  shows "round_pos x \<le> round_pos y"
proof (cases "expo x = expo y")
  case True
  have "x / two_powi (expo y - 52) \<le> y / two_powi (expo y - 52)"
    using assms by (intro divide_right_mono) (simp_all add: less_imp_le)
  from round_even_mono [OF this] show ?thesis
    unfolding round_pos_def Let_def True by (intro mult_right_mono) (simp_all add: less_imp_le)
next
  case False
  then have "two_powi (expo x + 1) \<le> two_powi (expo y)"
    using expo_mono [OF assms] by (intro two_powi_mono) simp
  then show ?thesis using round_pos_range [of x] round_pos_range [of y] assms by fastforce
qed

lemma round_pos_int:
  assumes "0 < k" "k \<le> 2 ^ 53"
  shows "round_pos (of_int k) = of_int k"
proof -
  let ?e = "expo (of_int k)"
  have b: "two_powi ?e \<le> of_int k" "rat_of_int k < two_powi (?e + 1)"
    using expo_bounds [of "of_int k"] assms(1) by auto
  have "1 \<le> rat_of_int k" using assms(1) by simp
  then have "two_powi 0 < two_powi (?e + 1)" using b(2) by (simp add: two_powi_def)
  then have e0: "0 \<le> ?e" using two_powi_less_imp by fastforce
  have kle: "rat_of_int k \<le> 2 ^ 53" using assms(2) by (metis of_int_le_iff of_int_numeral of_int_power)
  have "\<exists>j. of_int k / two_powi (?e - 52) = rat_of_int j"
  proof (cases "?e \<le> 52")
    case True
    then have "of_int k / two_powi (?e - 52) = of_int (k * 2 ^ nat (52 - ?e))"
      by (cases "?e = 52") (simp_all add: two_powi_def)
    then show ?thesis by blast
  next
    case False
    then have "two_powi 53 \<le> two_powi ?e" by (intro two_powi_mono) simp
    then have "2 ^ 53 \<le> rat_of_int k" using b(1) by (simp add: two_powi_def)
    then have k: "rat_of_int k = 2 ^ 53" using kle by simp
    then have "two_powi ?e < two_powi 54" using b(1) by (simp add: two_powi_def)
    then have "?e = 53" using False two_powi_less_imp by fastforce
    then show ?thesis using k by (intro exI [of _ "2 ^ 52"]) (simp add: two_powi_def)
  qed
  then obtain j where j: "of_int k / two_powi (?e - 52) = rat_of_int j" by blast
  have "rat_of_int j * two_powi (?e - 52) = of_int k" using j [symmetric] two_powi_pos [of "?e - 52"] by (simp del: two_powi_pos)
  then show ?thesis by (simp add: round_pos_def Let_def j)
qed

lemma round_pos_error:
  assumes "0 < x"
  shows "round_pos x \<le> (1 + 1 / 2 ^ 53) * x"
proof -
  let ?u = "two_powi (expo x - 52)"
  have "of_int (round_even (x / ?u)) * ?u \<le> (x / ?u + 1 / 2) * ?u"
    by (intro mult_right_mono round_even_error) (simp add: less_imp_le)
  also have "\<dots> = x + ?u / 2" using two_powi_pos [of "expo x - 52"] by (simp add: field_simps del: two_powi_pos)
  also have "\<dots> \<le> (1 + 1 / 2 ^ 53) * x"
    using expo_bounds [OF assms] two_powi_add [of "expo x - 52" 52] by (simp add: two_powi_def [of 52] field_simps)
  finally show ?thesis by (simp add: round_pos_def Let_def)
qed

section \<open>The laws\<close>

text \<open>A rounding: monotone, exact on the integers of 53 bits, with a relative error of at most \<open>e\<close>.\<close>

locale rounding =
  fixes fl :: "rat \<Rightarrow> rat" and e :: rat
  assumes fl_mono: "x \<le> y \<Longrightarrow> fl x \<le> fl y"
    and fl_int: "\<bar>k\<bar> \<le> 2 ^ 53 \<Longrightarrow> fl (of_int k) = of_int k"
    and fl_error: "0 \<le> x \<Longrightarrow> fl x \<le> (1 + e) * x"
    and e_nonneg: "0 \<le> e"
begin

lemma fl_zero [simp]: "fl 0 = 0"
  using fl_int [of 0] by simp

lemma fl_nonneg: "0 \<le> x \<Longrightarrow> 0 \<le> fl x"
  using fl_mono [of 0 x] by simp

lemma fl_le_int: "x \<le> of_int k \<Longrightarrow> \<bar>k\<bar> \<le> 2 ^ 53 \<Longrightarrow> fl x \<le> of_int k"
  using fl_mono [of x "of_int k"] fl_int [of k] by simp

end

interpretation double: rounding float64 "1 / 2 ^ 53"
proof
  have pos: "0 < round_pos x" if "0 < x" for x
    using round_pos_range [OF that] two_powi_pos [of "expo x"] by linarith
  show "float64 x \<le> float64 y" if "x \<le> y" for x y
    using that round_pos_mono [of x y] round_pos_mono [of "- y" "- x"] pos [of y] pos [of "- x"]
    by (cases x "0 :: rat" rule: linorder_cases; cases y "0 :: rat" rule: linorder_cases)
      (auto simp: float64_def)
  show "float64 (of_int k) = of_int k" if "\<bar>k\<bar> \<le> 2 ^ 53" for k
    using that round_pos_int [of k] round_pos_int [of "- k"]
    by (cases k "0 :: int" rule: linorder_cases) (auto simp: float64_def)
  show "float64 x \<le> (1 + 1 / 2 ^ 53) * x" if "0 \<le> x" for x
    using that round_pos_error [of x] by (auto simp: float64_def)
qed simp

end
