(* ===== verification/RateLimiter.thy ===== *)
theory RateLimiter
  imports Doubles
begin

text \<open>
  \<open>internal/rate/limiter.go\<close>: the token bucket kept in Redis.

  The Lua scripts run atomically. A bucket is the hash of a key with its time of expiry; Redis hides
  it from then on. Times are milliseconds: \<open>now\<close> is the caller's clock, \<open>rt\<close> the clock of Redis.
  Lua numbers are doubles, which Redis stores with the digits that read back the same double; each
  operation of the scripts rounds its exact result by \<open>float64\<close>. A driver error is the argument
  \<open>fault\<close>.
\<close>

section \<open>State\<close>

record bucket =
  bk_tokens :: rat
  bk_last :: int
  bk_expires :: int

type_synonym redis = "uuid \<rightharpoonup> bucket"

record limiter =
  lim_capacity :: int
  lim_refill :: int

definition NewLimiter :: "int \<Rightarrow> int \<Rightarrow> limiter" where
  "NewLimiter capacity refill = \<lparr>lim_capacity = capacity, lim_refill = refill\<rparr>"

text \<open>\<open>time.Duration.Seconds\<close> of nanoseconds: whole seconds plus the rest, division truncating.\<close>

definition Seconds :: "int \<Rightarrow> rat" where
  "Seconds d =
     (let sec = sgn d * (\<bar>d\<bar> div 10 ^ 9); nsec = d - sec * 10 ^ 9
      in float64 (of_int sec + float64 (of_int nsec / 10 ^ 9)))"

text \<open>\<open>float64(l.capacity) / l.refill.Seconds()\<close>\<close>

definition refill_per_sec :: "limiter \<Rightarrow> rat" where
  "refill_per_sec l = float64 (float64 (of_int (lim_capacity l)) / Seconds (lim_refill l))"

definition expire_ms :: int where
  "expire_ms = 60 * 1000"

section \<open>The scripts\<close>

text \<open>\<open>HMGET\<close>: an absent or expired key reads as nil, which the scripts default.\<close>

definition bucket_at :: "redis \<Rightarrow> uuid \<Rightarrow> int \<Rightarrow> bucket option" where
  "bucket_at rd k rt =
     (case rd k of None \<Rightarrow> None | Some b \<Rightarrow> if bk_expires b \<le> rt then None else Some b)"

definition refilled :: "int \<Rightarrow> rat \<Rightarrow> int \<Rightarrow> bucket option \<Rightarrow> rat" where
  "refilled capacity rate now b =
     (let tokens = (case b of None \<Rightarrow> of_int capacity | Some b \<Rightarrow> bk_tokens b);
          last_refill = (case b of None \<Rightarrow> now | Some b \<Rightarrow> bk_last b);
          elapsed = float64 (of_int (now - last_refill) / 1000)
      in min (of_int capacity) (float64 (tokens + float64 (elapsed * rate))))"

definition put_bucket :: "uuid \<Rightarrow> rat \<Rightarrow> int \<Rightarrow> int \<Rightarrow> redis \<Rightarrow> redis" where
  "put_bucket k tokens now rt rd =
     rd(k \<mapsto> \<lparr>bk_tokens = tokens, bk_last = now, bk_expires = rt + expire_ms\<rparr>)"

definition allow_script ::
  "int \<Rightarrow> rat \<Rightarrow> int \<Rightarrow> int \<Rightarrow> uuid \<Rightarrow> redis \<Rightarrow> int \<times> redis" where
  "allow_script capacity rate now rt k rd =
     (let new_tokens = refilled capacity rate now (bucket_at rd k rt) in
      if new_tokens < 1 then (0, put_bucket k new_tokens now rt rd)
      else (1, put_bucket k (float64 (new_tokens - 1)) now rt rd))"

definition remaining_script ::
  "int \<Rightarrow> rat \<Rightarrow> int \<Rightarrow> int \<Rightarrow> uuid \<Rightarrow> redis \<Rightarrow> int" where
  "remaining_script capacity rate now rt k rd = \<lfloor>refilled capacity rate now (bucket_at rd k rt)\<rfloor>"

section \<open>The limiter\<close>

definition Allow ::
  "limiter \<Rightarrow> bool \<Rightarrow> int \<Rightarrow> int \<Rightarrow> uuid \<Rightarrow> redis \<Rightarrow> (go_error + bool) \<times> redis" where
  "Allow l fault now rt u rd =
     (if fault then (Inl (ErrorfWrap ''failed to execute rate limit script'' DriverError), rd)
      else (case allow_script (lim_capacity l) (refill_per_sec l) now rt u rd of
              (result, rd') \<Rightarrow> (Inr (result = 1), rd')))"

definition GetRemainingTokens ::
  "limiter \<Rightarrow> bool \<Rightarrow> int \<Rightarrow> int \<Rightarrow> uuid \<Rightarrow> redis \<Rightarrow> go_error + int" where
  "GetRemainingTokens l fault now rt u rd =
     (if fault then Inl (ErrorfWrap ''failed to get remaining tokens'' DriverError)
      else Inr (remaining_script (lim_capacity l) (refill_per_sec l) now rt u rd))"

definition Reset :: "bool \<Rightarrow> uuid \<Rightarrow> redis \<Rightarrow> go_error option \<times> redis" where
  "Reset fault u rd = (if fault then (Some DriverError, rd) else (None, rd(u := None)))"

section \<open>Runs\<close>

text \<open>The calls of \<open>Allow\<close> for one user at the given times, one clock for both: how many pass.\<close>

fun allow_run :: "limiter \<Rightarrow> uuid \<Rightarrow> int list \<Rightarrow> redis \<Rightarrow> nat \<times> redis" where
  "allow_run l u [] rd = (0, rd)"
| "allow_run l u (t # ts) rd =
     (case Allow l False t t u rd of
        (r, rd') \<Rightarrow> (case allow_run l u ts rd' of
                       (n, rd'') \<Rightarrow> ((if r = Inr True then Suc n else n), rd'')))"

section \<open>Bounds\<close>

text \<open>The relative error of one rounding.\<close>

definition eps :: rat where
  "eps = 1 / 2 ^ 53"

lemma eps_nonneg: "0 \<le> eps"
  by (simp add: eps_def)

lemma err: "0 \<le> x \<Longrightarrow> float64 x \<le> (1 + eps) * x"
  unfolding eps_def by (rule double.fl_error)

definition bucket_ok :: "int \<Rightarrow> int \<Rightarrow> bucket option \<Rightarrow> bool" where
  "bucket_ok capacity now b \<longleftrightarrow>
     (case b of None \<Rightarrow> True
      | Some b \<Rightarrow> 0 \<le> bk_tokens b \<and> bk_tokens b \<le> of_int capacity \<and> bk_last b \<le> now)"

lemma refilled_range:
  assumes "bucket_ok capacity now b" "0 \<le> capacity" "0 \<le> rate"
  shows "0 \<le> refilled capacity rate now b" "refilled capacity rate now b \<le> of_int capacity"
proof -
  show "refilled capacity rate now b \<le> of_int capacity" by (simp add: refilled_def Let_def)
  have el: "0 \<le> float64 (float64 (of_int (now - last) / 1000) * rate)" if "last \<le> now" for last :: int
    using that assms(3) by (intro double.fl_nonneg mult_nonneg_nonneg) simp_all
  have "0 \<le> (case b of None \<Rightarrow> of_int capacity | Some b \<Rightarrow> bk_tokens b)"
    "(case b of None \<Rightarrow> now | Some b \<Rightarrow> bk_last b) \<le> now"
    using assms by (auto simp: bucket_ok_def split: option.splits)
  then show "0 \<le> refilled capacity rate now b"
    using el assms(2) by (simp add: refilled_def Let_def double.fl_nonneg)
qed

text \<open>A call keeps the bucket between empty and full, and stamps it with its time.\<close>

lemma allow_script_ok:
  assumes "bucket_ok capacity now (bucket_at rd k rt)" "0 \<le> capacity" "capacity \<le> 2 ^ 53" "0 \<le> rate"
    and "allow_script capacity rate now rt k rd = (r, rd')"
  shows "\<exists>b. rd' k = Some b \<and> bucket_ok capacity now (Some b) \<and> bk_last b = now \<and>
    bk_expires b = rt + expire_ms"
proof -
  let ?n = "refilled capacity rate now (bucket_at rd k rt)"
  have n: "0 \<le> ?n" "?n \<le> of_int capacity" using refilled_range [OF assms(1,2,4)] by auto
  have "float64 (?n - 1) \<le> of_int capacity" using double.fl_le_int [of "?n - 1" capacity] n assms(2,3) by simp
  moreover have "1 \<le> ?n \<Longrightarrow> 0 \<le> float64 (?n - 1)" by (rule double.fl_nonneg) simp
  ultimately show ?thesis
    using assms(5) n by (auto simp: allow_script_def Let_def put_bucket_def bucket_ok_def split: if_splits)
qed

text \<open>
  With a relative rounding error of at most \<open>eps\<close>: a refill adds at most the rate over the elapsed time,
  the expiry of a bucket included when the rate fills a bucket within its lifetime.
\<close>

lemma refilled_bound:
  assumes b: "rd k = Some b" "bk_expires b = bk_last b + expire_ms" "bucket_ok capacity t (Some b)"
    and cap: "0 \<le> capacity" "of_int capacity \<le> rate * 60" and  rate0: "0 \<le> rate"
  shows "refilled capacity rate t (bucket_at rd k t) \<le>
    bk_tokens b + (1 + eps) ^ 3 * rate * of_int (t - bk_last b) / 1000 + eps * of_int capacity"
proof -
  let ?dt = "of_int (t - bk_last b) / 1000 :: rat"
  have tok: "0 \<le> bk_tokens b" "bk_tokens b \<le> of_int capacity" "0 \<le> ?dt"
    using b(3) by (simp_all add: bucket_ok_def)
  have e3: "1 \<le> (1 + eps) ^ 3" using eps_nonneg by simp
  show ?thesis
  proof (cases "bk_expires b \<le> t")
    case True
    then have "60 \<le> ?dt" using b(2) by (simp add: expire_ms_def le_divide_eq)
    then have "rate * 60 \<le> rate * ?dt" using rate0 by (intro mult_left_mono)
    also have "\<dots> \<le> (1 + eps) ^ 3 * (rate * ?dt)"
      using mult_right_mono [OF e3, of "rate * ?dt"] rate0 tok(3) by simp
    finally have "of_int capacity \<le> (1 + eps) ^ 3 * (rate * ?dt)" using cap(2) by simp
    moreover have "refilled capacity rate t (bucket_at rd k t) \<le> of_int capacity"
      by (simp add: refilled_def Let_def)
    moreover have "0 \<le> eps * of_int capacity" using eps_nonneg cap(1) by simp
    ultimately show ?thesis using tok(1) by (simp add: mult.assoc)
  next
    case False
    have d1: "0 \<le> float64 ?dt" "float64 ?dt \<le> (1 + eps) * ?dt" using double.fl_nonneg [OF tok(3)] err [OF tok(3)] by auto
    have d2: "float64 (float64 ?dt * rate) \<le> (1 + eps) * ((1 + eps) * ?dt * rate)"
    proof -
      have "float64 (float64 ?dt * rate) \<le> (1 + eps) * (float64 ?dt * rate)" using err d1(1) rate0 by simp
      also have "\<dots> \<le> (1 + eps) * ((1 + eps) * ?dt * rate)"
        using d1(2) eps_nonneg rate0 by (intro mult_left_mono mult_right_mono) simp_all
      finally show ?thesis .
    qed
    have d3: "0 \<le> float64 (float64 ?dt * rate)" using d1(1) rate0 by (intro double.fl_nonneg) simp
    have alg: "(1 + eps) * (T + (1 + eps) * ((1 + eps) * D * rate)) = T + eps * T + (1 + eps) ^ 3 * rate * D" for T D
      by (simp add: algebra_simps power3_eq_cube)
    have "float64 (bk_tokens b + float64 (float64 ?dt * rate)) \<le> (1 + eps) * (bk_tokens b + float64 (float64 ?dt * rate))"
      using err d3 tok(1) by simp
    also have "\<dots> \<le> (1 + eps) * (bk_tokens b + (1 + eps) * ((1 + eps) * ?dt * rate))"
      using d2 eps_nonneg by (intro mult_left_mono) simp_all
    also have "\<dots> = bk_tokens b + eps * bk_tokens b + (1 + eps) ^ 3 * rate * ?dt"
      by (rule alg)
    also have "\<dots> \<le> bk_tokens b + eps * of_int capacity + (1 + eps) ^ 3 * rate * ?dt"
      using tok(2) eps_nonneg by (simp add: mult_left_mono)
    finally have "float64 (bk_tokens b + float64 (float64 ?dt * rate)) \<le>
        bk_tokens b + (1 + eps) ^ 3 * rate * of_int (t - bk_last b) / 1000 + eps * of_int capacity" by simp
    then show ?thesis using False b(1) by (simp add: refilled_def bucket_at_def Let_def min_le_iff_disj)
  qed
qed

text \<open>The bucket a run starts from.\<close>

definition bucket_of_run :: "int \<Rightarrow> redis \<Rightarrow> uuid \<Rightarrow> bucket \<Rightarrow> bool" where
  "bucket_of_run capacity rd u b \<longleftrightarrow>
     rd u = Some b \<and> bk_expires b = bk_last b + expire_ms \<and> bucket_ok capacity (bk_last b) (Some b)"

lemma Allow_step:
  assumes b: "bucket_of_run (lim_capacity l) rd u b" and t: "bk_last b \<le> t"
    and cap: "0 \<le> lim_capacity l" "lim_capacity l \<le> 2 ^ 53"
      "of_int (lim_capacity l) \<le> refill_per_sec l * 60"
    and  rate0: "0 \<le> refill_per_sec l"
    and run: "Allow l False t t u rd = (r, rd')"
  shows "\<exists>b'. bucket_of_run (lim_capacity l) rd' u b' \<and> bk_last b' = t \<and>
    bk_tokens b' + (if r = Inr True then 1 else 0) \<le> bk_tokens b +
      (1 + eps) ^ 3 * refill_per_sec l * of_int (t - bk_last b) / 1000 + 2 * eps * of_int (lim_capacity l)"
proof -
  let ?cap = "lim_capacity l" and ?rate = "refill_per_sec l"
  let ?n = "refilled ?cap ?rate t (bucket_at rd u t)"
  have at: "bucket_ok ?cap t (bucket_at rd u t)" "rd u = Some b" "bk_expires b = bk_last b + expire_ms"
      "bucket_ok ?cap t (Some b)"
    using b t by (auto simp: bucket_of_run_def bucket_ok_def bucket_at_def split: option.splits)
  obtain v rd1 where s: "allow_script ?cap ?rate t t u rd = (v, rd1)" by (metis prod.exhaust)
  have rd': "rd' = rd1" "r = Inr (v = 1)" using run s by (auto simp: Allow_def)
  obtain b' where b': "rd' u = Some b'" "bucket_ok ?cap t (Some b')" "bk_last b' = t" "bk_expires b' = t + expire_ms"
    using allow_script_ok [OF at(1) cap(1,2) rate0 s] rd'(1) by blast
  have n: "0 \<le> ?n" "?n \<le> of_int ?cap" using refilled_range [OF at(1) cap(1) rate0] by auto
  have bound: "?n \<le> bk_tokens b + (1 + eps) ^ 3 * ?rate * of_int (t - bk_last b) / 1000 + eps * of_int ?cap"
    by (intro refilled_bound at(2-4) cap(1,3) rate0)
  have "bk_tokens b' + (if r = Inr True then 1 else 0) \<le> ?n + eps * of_int ?cap"
  proof (cases "?n < 1")
    case True
    then show ?thesis using s b'(1) rd' eps_nonneg cap(1) by (auto simp: allow_script_def Let_def put_bucket_def)
  next
    case False
    then have "float64 (?n - 1) \<le> (1 + eps) * (?n - 1)" by (intro err) simp
    also have "\<dots> \<le> ?n - 1 + eps * of_int ?cap"
      using mult_left_mono [of "?n - 1" "of_int ?cap" eps] n(2) eps_nonneg by (simp add: algebra_simps)
    finally show ?thesis using False s b'(1) rd' by (auto simp: allow_script_def Let_def put_bucket_def)
  qed
  then show ?thesis using bound b' by (intro exI [of _ b']) (auto simp: bucket_of_run_def)
qed

lemma allow_run_bound:
  assumes "bucket_of_run (lim_capacity l) rd u b" and "sorted (bk_last b # ts)"
    and cap: "0 \<le> lim_capacity l" "lim_capacity l \<le> 2 ^ 53"
      "of_int (lim_capacity l) \<le> refill_per_sec l * 60"
    and  rate0: "0 \<le> refill_per_sec l"
  shows "of_nat (fst (allow_run l u ts rd)) \<le> bk_tokens b +
    (1 + eps) ^ 3 * refill_per_sec l * of_int (last (bk_last b # ts) - bk_last b) / 1000 +
    2 * eps * of_int (lim_capacity l) * of_nat (length ts)"
  using assms(1,2)
proof (induction ts arbitrary: rd b)
  case Nil
  then show ?case by (simp add: bucket_of_run_def bucket_ok_def)
next
  case (Cons t ts)
  obtain r rd' where a: "Allow l False t t u rd = (r, rd')" by (metis prod.exhaust)
  obtain b' where b': "bucket_of_run (lim_capacity l) rd' u b'" "bk_last b' = t"
    and step: "bk_tokens b' + (if r = Inr True then 1 else 0) \<le> bk_tokens b +
      (1 + eps) ^ 3 * refill_per_sec l * of_int (t - bk_last b) / 1000 + 2 * eps * of_int (lim_capacity l)"
    using Allow_step [OF Cons.prems(1) _ cap rate0 a] Cons.prems(2) by auto
  have ih: "of_nat (fst (allow_run l u ts rd')) \<le> bk_tokens b' +
    (1 + eps) ^ 3 * refill_per_sec l * of_int (last (t # ts) - t) / 1000 +
    2 * eps * of_int (lim_capacity l) * of_nat (length ts)"
    using Cons.IH [OF b'(1)] Cons.prems(2) b'(2) by simp
  let ?C = "(1 + eps) ^ 3 * refill_per_sec l / 1000"
  have split: "?C * of_int (last (t # ts) - bk_last b) = ?C * of_int (t - bk_last b) + ?C * of_int (last (t # ts) - t)"
    by (simp only: distrib_left [symmetric] of_int_add [symmetric]) simp
  have "of_nat (fst (allow_run l u (t # ts) rd)) =
      (if r = Inr True then 1 else 0) + of_nat (fst (allow_run l u ts rd'))"
    by (simp add: a split: prod.split)
  also have "\<dots> \<le> bk_tokens b + ?C * of_int (t - bk_last b) + 2 * eps * of_int (lim_capacity l) +
      ?C * of_int (last (t # ts) - t) + 2 * eps * of_int (lim_capacity l) * of_nat (length ts)"
    using step ih by simp
  also have "\<dots> = bk_tokens b + ?C * of_int (last (t # ts) - bk_last b) +
      2 * eps * of_int (lim_capacity l) * of_nat (length (t # ts))"
    unfolding split by (simp add: algebra_simps)
  finally show ?case by simp
qed

text \<open>The first call of a user whose key is absent finds a full bucket.\<close>

lemma first_call:
  assumes "rd u = None" and "0 < lim_capacity l" "lim_capacity l \<le> 2 ^ 53"
  shows "\<exists>rd' b. Allow l False t t u rd = (Inr True, rd') \<and> rd' u = Some b \<and>
    bk_tokens b = of_int (lim_capacity l - 1) \<and> bk_last b = t \<and> bk_expires b = t + expire_ms"
proof -
  have "refilled (lim_capacity l) (refill_per_sec l) t (bucket_at rd u t) = of_int (lim_capacity l)"
    using assms double.fl_int [of "lim_capacity l"] by (simp add: refilled_def bucket_at_def Let_def)
  moreover have "float64 (of_int (lim_capacity l) - 1) = of_int (lim_capacity l - 1)"
    using double.fl_int [of "lim_capacity l - 1"] assms(2,3) by simp
  ultimately show ?thesis using assms(2) by (simp add: Allow_def allow_script_def Let_def put_bucket_def)
qed

text \<open>With no time passing, each call takes one token until none is left.\<close>

lemma instant_run:
  assumes "rd u = Some b" "bk_tokens b = of_int k" "bk_last b = t" "bk_expires b = t + expire_ms"
    and "0 \<le> k" "k \<le> lim_capacity l" "lim_capacity l \<le> 2 ^ 53"
  shows "fst (allow_run l u (replicate n t) rd) = min n (nat k)"
  using assms(1-6)
proof (induction n arbitrary: rd b k)
  case (Suc n)
  have fk: "float64 (of_int k) = of_int k" "float64 (of_int k - 1) = of_int (k - 1)"
    using double.fl_int [of k] double.fl_int [of "k - 1"] Suc.prems(5,6) assms(7) by simp_all
  have r: "refilled (lim_capacity l) (refill_per_sec l) t (bucket_at rd u t) = of_int k"
    using Suc.prems fk by (simp add: refilled_def bucket_at_def Let_def expire_ms_def)
  show ?case
  proof (cases "k = 0")
    case True
    then have "Allow l False t t u rd = (Inr False, put_bucket u 0 t t rd)"
      using r by (simp add: Allow_def allow_script_def Let_def)
    moreover have "fst (allow_run l u (replicate n t) (put_bucket u 0 t t rd)) = min n (nat 0)"
      using True Suc.prems
      by (intro Suc.IH [of _ "\<lparr>bk_tokens = 0, bk_last = t, bk_expires = t + expire_ms\<rparr>" 0])
        (simp_all add: put_bucket_def)
    ultimately show ?thesis using True by (simp split: prod.split)
  next
    case False
    then have "Allow l False t t u rd = (Inr True, put_bucket u (of_int (k - 1)) t t rd)"
      using r fk Suc.prems(5) by (simp add: Allow_def allow_script_def Let_def)
    moreover have "fst (allow_run l u (replicate n t) (put_bucket u (of_int (k - 1)) t t rd)) = min n (nat (k - 1))"
      using False Suc.prems
      by (intro Suc.IH [of _ "\<lparr>bk_tokens = of_int (k - 1), bk_last = t, bk_expires = t + expire_ms\<rparr>" "k - 1"])
        (simp_all add: put_bucket_def)
    ultimately show ?thesis using False Suc.prems(5) by (auto split: prod.split)
  qed
qed simp

lemma fresh_run_bound:
  assumes "rd u = None" and "sorted (t # ts)"
    and cap: "0 < lim_capacity l" "lim_capacity l \<le> 2 ^ 53"
      "of_int (lim_capacity l) \<le> refill_per_sec l * 60"
    and  rate0: "0 \<le> refill_per_sec l"
  shows "of_nat (fst (allow_run l u (t # ts) rd)) \<le> of_int (lim_capacity l) +
    (1 + eps) ^ 3 * refill_per_sec l * of_int (last (t # ts) - t) / 1000 +
    2 * eps * of_int (lim_capacity l) * of_nat (length ts)"
proof -
  obtain rd' b where a: "Allow l False t t u rd = (Inr True, rd')" "rd' u = Some b"
    "bk_tokens b = of_int (lim_capacity l - 1)" "bk_last b = t" "bk_expires b = t + expire_ms"
    using first_call [of rd u l t] assms(1) cap(1,2) by blast
  then have "bucket_of_run (lim_capacity l) rd' u b"
    using cap(1) by (auto simp: bucket_of_run_def bucket_ok_def)
  then have "of_nat (fst (allow_run l u ts rd')) \<le> bk_tokens b +
    (1 + eps) ^ 3 * refill_per_sec l * of_int (last (bk_last b # ts) - bk_last b) / 1000 +
    2 * eps * of_int (lim_capacity l) * of_nat (length ts)"
    using assms(2) a(4) cap(1) by (intro allow_run_bound cap(2,3) rate0) simp_all
  moreover have "fst (allow_run l u (t # ts) rd) = Suc (fst (allow_run l u ts rd'))"
    using a(1) by (simp split: prod.split)
  ultimately show ?thesis unfolding a(4) using a(3) by simp
qed

lemma fresh_burst:
  assumes "rd u = None" and "0 < lim_capacity l" "lim_capacity l \<le> 2 ^ 53"
  shows "fst (allow_run l u (replicate n t) rd) = min n (nat (lim_capacity l))"
proof (cases n)
  case (Suc m)
  obtain rd' b where a: "Allow l False t t u rd = (Inr True, rd')" "rd' u = Some b"
    "bk_tokens b = of_int (lim_capacity l - 1)" "bk_last b = t" "bk_expires b = t + expire_ms"
    using first_call [of rd u l t] assms by blast
  have "fst (allow_run l u (replicate m t) rd') = min m (nat (lim_capacity l - 1))"
    using a assms by (intro instant_run [of rd' u b]) simp_all
  then show ?thesis using Suc a(1) assms(2) by (auto split: prod.split)
qed simp

section \<open>Properties\<close>

text \<open>The limiter \<open>main\<close> creates: sixty tokens, refilled within a minute.\<close>

definition configured_limiter :: limiter where
  "configured_limiter = NewLimiter 60 (60 * 10 ^ 9)"

lemma configured [simp]: "lim_capacity configured_limiter = 60"
  by (simp add: configured_limiter_def NewLimiter_def)

lemma configured_rate [simp]: "refill_per_sec configured_limiter = 1"
  using double.fl_int [of 60] double.fl_int [of 1]
  by (simp add: refill_per_sec_def configured_limiter_def NewLimiter_def Seconds_def)

text \<open>
  C30: from a fresh key, however its calls are spread and although Redis forgets the bucket after a
  minute of silence, a user gets at most sixty requests through plus one for every second that has
  passed, up to the rounding errors of the script (\<open>eps\<close> is one part in \<open>2 ^ 53\<close>).
\<close>

theorem rate_limit_bounds_requests:
  assumes "rd u = None" and "sorted (t # ts)"
  shows "of_nat (fst (allow_run configured_limiter u (t # ts) rd)) \<le>
    60 + (1 + eps) ^ 3 * of_int (last (t # ts) - t) / 1000 + 120 * eps * of_nat (length ts)"
  using fresh_run_bound [of rd u t ts configured_limiter] assms by simp

theorem rate_limit_bounds_requests_witness:
  "rat_of_nat (fst (allow_run configured_limiter 7 [0, 0, 1500, 90000] (\<lambda>_. None))) \<le>
     60 + (1 + eps) ^ 3 * of_int (last [0, 0, 1500, 90000] - 0) / 1000 + 120 * eps * of_nat (length [0::int, 1500, 90000])"
  by (rule rate_limit_bounds_requests) simp_all

text \<open>
  Of any number of requests at one instant from a fresh key exactly the first sixty pass.
\<close>

theorem rate_limit_burst:
  assumes "rd u = None"
  shows "fst (allow_run configured_limiter u (replicate n t) rd) = min n 60"
  using fresh_burst [of rd u configured_limiter n t] assms by simp

theorem rate_limit_burst_witness:
  "fst (allow_run configured_limiter 7 (replicate 100 5) (\<lambda>_. None)) = 60"
  using rate_limit_burst [of "\<lambda>_. None" 7 100 5] by simp

end
