(* ===== verification/Models.thy ===== *)
theory Models
  imports Prelude
begin

text \<open>
  The data types of \<open>internal/models/types.go\<close> and \<open>internal/models/requests.go\<close>.

  \<open>Symbol\<close>, \<open>OrderSide\<close> and \<open>OrderType\<close> are Go strings that JSON decoding fills with whatever the
  client sent, so they stay strings here, with the declared constants as definitions. \<open>Currency\<close>
  and \<open>OrderStatus\<close> values only ever come from the declared constants or from database enums and
  are datatypes.
\<close>

section \<open>Enumerations\<close>

datatype currency = CurrencyUSD | CurrencyBTC | CurrencyETH

datatype order_status =
    OrderStatusNew
  | OrderStatusPartiallyFilled
  | OrderStatusFilled
  | OrderStatusCanceled
  | OrderStatusRejected

type_synonym order_side = string
type_synonym order_type = string
type_synonym symbol = string

definition OrderSideBuy :: order_side where
  [simp]: "OrderSideBuy = ''BUY''"

definition OrderSideSell :: order_side where
  [simp]: "OrderSideSell = ''SELL''"

definition OrderTypeMarket :: order_type where
  [simp]: "OrderTypeMarket = ''MARKET''"

definition OrderTypeLimit :: order_type where
  [simp]: "OrderTypeLimit = ''LIMIT''"

definition SymbolBTCUSD :: symbol where
  [simp]: "SymbolBTCUSD = ''BTC-USD''"

definition SymbolETHUSD :: symbol where
  [simp]: "SymbolETHUSD = ''ETH-USD''"

section \<open>Structs\<close>

record user =
  usr_id :: uuid
  usr_email :: string
  usr_password_hash :: string
  usr_created_at :: timestamp

record account =
  acc_id :: uuid
  acc_user :: uuid
  acc_currency :: currency
  acc_available :: decimal
  acc_hold :: decimal

record ledger_entry =
  le_journal :: uuid
  le_account :: uuid
  le_amount :: decimal
  le_currency :: currency
  le_ref_type :: string
  le_ref_id :: uuid
  le_created_at :: timestamp

record order =
  ord_id :: uuid
  ord_user :: uuid
  ord_symbol :: symbol
  ord_side :: order_side
  ord_type :: order_type
  ord_price :: "decimal option"
  ord_qty :: decimal
  ord_filled :: decimal
  ord_status :: order_status
  ord_created_at :: timestamp

record idem_key =
  ik_user :: uuid
  ik_key :: string
  ik_fingerprint :: string
  ik_code :: int
  ik_body :: string
  ik_created_at :: timestamp

record quote =
  q_symbol :: symbol
  q_bid :: decimal
  q_ask :: decimal
  q_ts :: timestamp

record trade =
  tr_id :: uuid
  tr_symbol :: symbol
  tr_side :: order_side
  tr_price :: decimal
  tr_qty :: decimal
  tr_taker :: uuid
  tr_maker :: uuid
  tr_created_at :: timestamp

record create_order_request =
  req_symbol :: symbol
  req_side :: order_side
  req_type :: order_type
  req_price :: "decimal option"
  req_qty :: decimal

record create_order_response =
  resp_order_id :: uuid
  resp_status :: order_status
  resp_filled :: decimal
  resp_avg_price :: "decimal option"

record auth_request =
  areq_email :: string
  areq_password :: string

record auth_response =
  ares_token :: string
  ares_refresh_token :: string
  ares_user :: user

record topup_request =
  treq_amount :: decimal

record topup_response =
  tres_balance :: decimal

record account_balance =
  bal_currency :: currency
  bal_available :: decimal
  bal_hold :: decimal
  bal_total :: decimal

record position =
  pos_symbol :: symbol
  pos_qty :: decimal
  pos_avg_price :: decimal
  pos_unrealized_pnl :: decimal

record pnl =
  pnl_realized :: decimal
  pnl_unrealized :: decimal
  pnl_total :: decimal

record portfolio =
  pf_balances :: "account_balance list"
  pf_positions :: "position list"
  pf_pnl :: pnl

text \<open>The row of the \<open>outbox\<close> table; no code writes or reads it.\<close>

record outbox_event =
  ob_event_id :: int
  ob_topic :: string
  ob_payload :: string
  ob_event_created_at :: timestamp
  ob_published_at :: "timestamp option"

section \<open>Error replies\<close>

datatype error_code =
    ErrorCodeRateLimit
  | ErrorCodeBadRequest
  | ErrorCodeUnauthorized
  | ErrorCodeForbidden
  | ErrorCodeNotFound
  | ErrorCodeInsufficientFunds
  | ErrorCodeIdemMismatch
  | ErrorCodeInternalError
  | ErrorCodeInvalidSymbol
  | ErrorCodeInvalidOrderType
  | ErrorCodeOrderNotFound

primrec error_code_text :: "error_code \<Rightarrow> string" where
  "error_code_text ErrorCodeRateLimit = ''RATE_LIMIT''"
| "error_code_text ErrorCodeBadRequest = ''BAD_REQUEST''"
| "error_code_text ErrorCodeUnauthorized = ''UNAUTHORIZED''"
| "error_code_text ErrorCodeForbidden = ''FORBIDDEN''"
| "error_code_text ErrorCodeNotFound = ''NOT_FOUND''"
| "error_code_text ErrorCodeInsufficientFunds = ''INSUFFICIENT_FUNDS''"
| "error_code_text ErrorCodeIdemMismatch = ''IDEM_MISMATCH''"
| "error_code_text ErrorCodeInternalError = ''INTERNAL_ERROR''"
| "error_code_text ErrorCodeInvalidSymbol = ''INVALID_SYMBOL''"
| "error_code_text ErrorCodeInvalidOrderType = ''INVALID_ORDER_TYPE''"
| "error_code_text ErrorCodeOrderNotFound = ''ORDER_NOT_FOUND''"

record error_detail =
  ed_code :: string
  ed_message :: string
  ed_request_id :: string

record error_response =
  er_error :: error_detail

text \<open>
  \<open>json.Encoder.Encode\<close> of an \<open>ErrorResponse\<close> whose texts need no escapes, with its line feed.
\<close>

definition encode_error :: "error_response \<Rightarrow> string" where
  "encode_error e =
     ''{\"error\":{\"code\":\"'' @ ed_code (er_error e) @ ''\",\"message\":\"'' @ ed_message (er_error e) @
     ''\",\"request_id\":\"'' @ ed_request_id (er_error e) @ ''\"}}'' @ [CHR 0x0A]"

end
