(* ===== verification/PriceHeap.thy ===== *)
theory PriceHeap
  imports Models
begin

text \<open>
  \<open>internal/limitbook/heap.go\<close>: the binary heap of price levels, over the algorithms of Go's
  \<open>container/heap\<close> (\<open>Init\<close>, \<open>Push\<close>, \<open>up\<close>, \<open>down\<close>). The heap holds pointers to price levels; \<open>pr\<close>
  reads the price of a level through its pointer.
\<close>

section \<open>The sort.Interface methods of PriceHeap\<close>

definition ph_Len :: "'l list \<Rightarrow> nat" where
  "ph_Len h = length h"

definition ph_Less :: "('l \<Rightarrow> decimal) \<Rightarrow> 'l list \<Rightarrow> nat \<Rightarrow> nat \<Rightarrow> bool" where
  "ph_Less pr h i j \<longleftrightarrow> pr (h ! i) < pr (h ! j)"

definition ph_Swap :: "'l list \<Rightarrow> nat \<Rightarrow> nat \<Rightarrow> 'l list" where
  "ph_Swap h i j = h[i := h ! j, j := h ! i]"

definition ph_Push :: "'l list \<Rightarrow> 'l \<Rightarrow> 'l list" where
  "ph_Push h x = h @ [x]"

definition ph_Pop :: "'l list \<Rightarrow> 'l \<times> 'l list" where
  "ph_Pop h = (h ! (length h - 1), take (length h - 1) h)"

section \<open>container/heap over those methods\<close>

text \<open>
  \<open>up\<close> is the loop \<open>i := (j - 1) / 2; if i == j || !h.Less(j, i) break; h.Swap(i, j); j = i\<close>. For
  \<open>j = 0\<close> Go computes \<open>i = -1 / 2 = 0\<close>, as the truncating subtraction on \<open>nat\<close> does.
\<close>

function ph_up :: "('l \<Rightarrow> decimal) \<Rightarrow> 'l list \<Rightarrow> nat \<Rightarrow> 'l list" where
  "ph_up pr h j =
     (let i = (j - 1) div 2
      in if i = j \<or> \<not> ph_Less pr h j i then h else ph_up pr (ph_Swap h i j) i)"
  by pat_completeness auto
termination
  by (relation "measure (\<lambda>(pr, h, j). j)") auto

declare ph_up.simps [simp del]

function ph_down :: "('l \<Rightarrow> decimal) \<Rightarrow> 'l list \<Rightarrow> nat \<Rightarrow> nat \<Rightarrow> 'l list" where
  "ph_down pr h i n =
     (let j1 = 2 * i + 1; j2 = j1 + 1
      in if n \<le> j1 then h
         else let j = (if j2 < n \<and> ph_Less pr h j2 j1 then j2 else j1)
              in if \<not> ph_Less pr h j i then h else ph_down pr (ph_Swap h i j) j n)"
  by pat_completeness auto
termination
  by (relation "measure (\<lambda>(pr, h, i, n). n - i)") (auto split: if_splits)

declare ph_down.simps [simp del]

definition heap_Init :: "('l \<Rightarrow> decimal) \<Rightarrow> 'l list \<Rightarrow> 'l list" where
  "heap_Init pr h = fold (\<lambda>i h. ph_down pr h i (ph_Len h)) (rev [0..<ph_Len h div 2]) h"

definition heap_Push :: "('l \<Rightarrow> decimal) \<Rightarrow> 'l \<Rightarrow> 'l list \<Rightarrow> 'l list" where
  "heap_Push pr x h = (let h' = ph_Push h x in ph_up pr h' (ph_Len h' - 1))"

text \<open>\<open>NewPriceHeap\<close> ignores its argument: bids and asks get the same ordering.\<close>

definition NewPriceHeap :: "bool \<Rightarrow> 'l list" where
  "NewPriceHeap isBid = heap_Init (\<lambda>_. 0) []"

text \<open>The guarded read \<open>(*bs.heap)[0]\<close> of \<open>GetBestPrice\<close> and \<open>GetBestLevel\<close>.\<close>

definition ph_top :: "'l list \<Rightarrow> 'l option" where
  "ph_top h = (if ph_Len h = 0 then None else Some (h ! 0))"

section \<open>The heap property\<close>

definition is_heap :: "('l \<Rightarrow> decimal) \<Rightarrow> 'l list \<Rightarrow> bool" where
  "is_heap pr h \<longleftrightarrow> (\<forall>j < length h. 0 < j \<longrightarrow> pr (h ! ((j - 1) div 2)) \<le> pr (h ! j))"

text \<open>
  What \<open>up\<close> starts from: the property may fail between \<open>k\<close> and its parent only, and the children
  of \<open>k\<close> are no smaller than the parent of \<open>k\<close>.
\<close>

definition heap_except :: "('l \<Rightarrow> decimal) \<Rightarrow> 'l list \<Rightarrow> nat \<Rightarrow> bool" where
  "heap_except pr h k \<longleftrightarrow>
     (\<forall>j < length h. 0 < j \<longrightarrow> j \<noteq> k \<longrightarrow> pr (h ! ((j - 1) div 2)) \<le> pr (h ! j)) \<and>
     (0 < k \<longrightarrow> (\<forall>j < length h. 0 < j \<longrightarrow> (j - 1) div 2 = k \<longrightarrow>
        pr (h ! ((k - 1) div 2)) \<le> pr (h ! j)))"

lemma heap_exceptD:
  assumes "heap_except pr h k"
  shows "\<And>j. j < length h \<Longrightarrow> 0 < j \<Longrightarrow> j \<noteq> k \<Longrightarrow> pr (h ! ((j - 1) div 2)) \<le> pr (h ! j)"
    and "\<And>j. 0 < k \<Longrightarrow> j < length h \<Longrightarrow> 0 < j \<Longrightarrow> (j - 1) div 2 = k \<Longrightarrow>
           pr (h ! ((k - 1) div 2)) \<le> pr (h ! j)"
  using assms by (auto simp: heap_except_def)

lemma length_ph_Swap [simp]: "length (ph_Swap h i j) = length h"
  by (simp add: ph_Swap_def)

lemma nth_ph_Swap:
  "i < length h \<Longrightarrow> j < length h \<Longrightarrow> k < length h \<Longrightarrow>
   ph_Swap h i j ! k = (if k = j then h ! i else if k = i then h ! j else h ! k)"
  by (auto simp: ph_Swap_def nth_list_update)

lemma mset_ph_Swap [simp]:
  "i < length h \<Longrightarrow> j < length h \<Longrightarrow> mset (ph_Swap h i j) = mset h"
  by (simp add: ph_Swap_def mset_swap)

lemma ph_up_mset: "j < length h \<Longrightarrow> mset (ph_up pr h j) = mset h"
proof (induction pr h j rule: ph_up.induct)
  case (1 pr h j)
  let ?i = "(j - 1) div 2"
  have i: "?i < length h" using "1.prems" by auto
  show ?case
  proof (cases "?i = j \<or> \<not> ph_Less pr h j ?i")
    case True
    then show ?thesis by (subst ph_up.simps) (simp add: Let_def)
  next
    case False
    then have "mset (ph_up pr (ph_Swap h ?i j) ?i) = mset (ph_Swap h ?i j)"
      using "1.IH" [OF refl] i by simp
    also have "\<dots> = mset h" using i "1.prems" by simp
    finally show ?thesis using False by (subst ph_up.simps) (simp add: Let_def)
  qed
qed

lemma heap_except_swap:
  assumes exc: "heap_except pr h j" and j: "j < length h" and i: "i = (j - 1) div 2"
    and less: "pr (h ! j) < pr (h ! i)"
  shows "heap_except pr (ph_Swap h i j) i"
proof -
  from less i have ij: "i < j" by (cases "j = 0") auto
  note at = nth_ph_Swap [of i h j]
  note up = heap_exceptD(1) [OF exc] and skip = heap_exceptD(2) [OF exc]
  have children: "pr (h ! i) \<le> pr (h ! k)"
    if "k < length h" "0 < k" "(k - 1) div 2 = i" "k \<noteq> j" for k
    using up [of k] that by simp
  show ?thesis
    unfolding heap_except_def length_ph_Swap
  proof (intro conjI allI impI)
    fix k assume k: "k < length h" "0 < k" "k \<noteq> i"
    then have p: "(k - 1) div 2 < k" by auto
    show "pr (ph_Swap h i j ! ((k - 1) div 2)) \<le> pr (ph_Swap h i j ! k)"
    proof (cases "k = j")
      case True
      then show ?thesis using at ij j i less by simp
    next
      case False
      consider "(k - 1) div 2 = j" | "(k - 1) div 2 = i"
        | "(k - 1) div 2 \<noteq> j" "(k - 1) div 2 \<noteq> i" by blast
      then show ?thesis
      proof cases
        case 1
        then show ?thesis using skip [of k] at ij j i k False p by auto
      next
        case 2
        then show ?thesis using children [of k] at ij j k False less by auto
      next
        case 3
        then show ?thesis using up [of k] at ij j k False p by auto
      qed
    qed
  next
    fix k assume i0: "0 < i" and k: "k < length h" "0 < k" "(k - 1) div 2 = i"
    have pi: "(i - 1) div 2 < i" using i0 by auto
    have gp: "pr (h ! ((i - 1) div 2)) \<le> pr (h ! i)" using up [of i] i0 ij j by auto
    have "pr (h ! i) \<le> pr (ph_Swap h i j ! k)"
      using at children [of k] k ij j by auto
    then show "pr (ph_Swap h i j ! ((i - 1) div 2)) \<le> pr (ph_Swap h i j ! k)"
      using gp at pi ij j by auto
  qed
qed

lemma ph_up_heap: "j < length h \<Longrightarrow> heap_except pr h j \<Longrightarrow> is_heap pr (ph_up pr h j)"
proof (induction pr h j rule: ph_up.induct)
  case (1 pr h j)
  let ?i = "(j - 1) div 2"
  show ?case
  proof (cases "?i = j \<or> \<not> ph_Less pr h j ?i")
    case True
    then have "is_heap pr h"
      using "1.prems" unfolding is_heap_def heap_except_def ph_Less_def
      by (metis linorder_not_less nle_le)
    with True show ?thesis by (subst ph_up.simps) (simp add: Let_def)
  next
    case False
    then have "heap_except pr (ph_Swap h ?i j) ?i"
      using "1.prems" by (intro heap_except_swap) (auto simp: ph_Less_def)
    with "1.IH" [OF refl False] "1.prems" have "is_heap pr (ph_up pr (ph_Swap h ?i j) ?i)"
      by auto
    with False show ?thesis by (subst ph_up.simps) (simp add: Let_def)
  qed
qed

lemma parent_less: "0 < (j :: nat) \<Longrightarrow> (j - 1) div 2 < j"
  by auto

lemma heap_except_append:
  assumes "is_heap pr h"
  shows "heap_except pr (h @ [x]) (length h)"
  unfolding heap_except_def
proof (intro conjI allI impI)
  fix j assume j: "j < length (h @ [x])" "0 < j" "j \<noteq> length h"
  then have "j < length h" and "(j - 1) div 2 < length h" using parent_less [of j] by auto
  then show "pr ((h @ [x]) ! ((j - 1) div 2)) \<le> pr ((h @ [x]) ! j)"
    using assms j by (simp add: is_heap_def nth_append)
next
  fix j assume "j < length (h @ [x])" "0 < j" "(j - 1) div 2 = length h"
  then have False using parent_less [of j] by simp
  then show "pr ((h @ [x]) ! ((length h - 1) div 2)) \<le> pr ((h @ [x]) ! j)" ..
qed

lemma heap_Push_heap [inv_intros]: "is_heap pr h \<Longrightarrow> is_heap pr (heap_Push pr x h)"
  by (simp add: heap_Push_def ph_Push_def ph_Len_def ph_up_heap heap_except_append)

lemma heap_Push_mset [simp]: "mset (heap_Push pr x h) = add_mset x (mset h)"
  by (simp add: heap_Push_def ph_Push_def ph_Len_def ph_up_mset)

lemma heap_Push_length [simp]: "length (heap_Push pr x h) = Suc (length h)"
  by (metis heap_Push_mset size_add_mset size_mset)

lemma heap_Push_set [simp]: "set (heap_Push pr x h) = insert x (set h)"
  by (metis heap_Push_mset set_mset_add_mset_insert set_mset_mset)

lemma is_heap_head_min: "is_heap pr h \<Longrightarrow> j < length h \<Longrightarrow> pr (h ! 0) \<le> pr (h ! j)"
proof (induction j rule: less_induct)
  case (less j)
  show ?case
  proof (cases "j = 0")
    case False
    then have p: "(j - 1) div 2 < j" by auto
    with less have "pr (h ! 0) \<le> pr (h ! ((j - 1) div 2))" by simp
    also have "\<dots> \<le> pr (h ! j)" using less False by (simp add: is_heap_def)
    finally show ?thesis .
  qed simp
qed

lemma is_heap_cong:
  assumes "\<And>l. l \<in> set h \<Longrightarrow> pr l = pr' l"
  shows "is_heap pr h = is_heap pr' h"
proof -
  have "pr (h ! ((j - 1) div 2)) = pr' (h ! ((j - 1) div 2))" "pr (h ! j) = pr' (h ! j)"
    if "j < length h" "0 < j" for j
    using that parent_less [of j] assms by auto
  then show ?thesis by (simp add: is_heap_def)
qed

lemma NewPriceHeap_empty [simp]: "NewPriceHeap isBid = []"
  by (simp add: NewPriceHeap_def heap_Init_def ph_Len_def)

lemma is_heap_Nil [simp, intro]: "is_heap pr []"
  by (simp add: is_heap_def)

section \<open>The interface the book side relies on\<close>

text \<open>
  A queue that can be pushed to and whose front is an element of least key. Nothing is ever
  removed from it: the code never calls \<open>heap.Pop\<close> or \<open>heap.Remove\<close>.
\<close>

locale min_queue =
  fixes push :: "'a \<Rightarrow> 'q \<Rightarrow> 'q"
    and top :: "'q \<Rightarrow> 'a option"
    and elems :: "'q \<Rightarrow> 'a multiset"
    and key :: "'a \<Rightarrow> decimal"
    and inv :: "'q \<Rightarrow> bool"
  assumes inv_push: "inv q \<Longrightarrow> inv (push x q)"
    and elems_push: "inv q \<Longrightarrow> elems (push x q) = add_mset x (elems q)"
    and top_None: "inv q \<Longrightarrow> top q = None \<longleftrightarrow> elems q = {#}"
    and top_min: "inv q \<Longrightarrow> top q = Some x \<Longrightarrow> x \<in># elems q \<and> (\<forall>y \<in># elems q. key x \<le> key y)"
begin

lemma push_all:
  "inv q \<Longrightarrow> inv (fold push xs q) \<and> elems (fold push xs q) = elems q + mset xs"
  by (induction xs arbitrary: q) (auto simp: inv_push elems_push)

lemma top_push_key:
  assumes "inv q" and "top (push x q) = Some z"
  shows "key z = (case top q of None \<Rightarrow> key x | Some y \<Rightarrow> min (key x) (key y))"
proof (cases "top q")
  case None
  then have "elems q = {#}" using assms(1) top_None by simp
  with assms show ?thesis
    using top_min [OF inv_push [OF assms(1)] assms(2)] None by (simp add: elems_push)
next
  case (Some y)
  from top_min [OF assms(1) Some] have y: "y \<in># elems q" "\<forall>w \<in># elems q. key y \<le> key w" by auto
  from top_min [OF inv_push [OF assms(1)] assms(2)] assms(1)
  have z: "z = x \<or> z \<in># elems q" "key z \<le> key x" "\<forall>w \<in># elems q. key z \<le> key w"
    by (auto simp: elems_push)
  from y z have "key z = min (key x) (key y)"
    by (metis min.absorb1 min.absorb2 order_antisym)
  with Some show ?thesis by simp
qed

lemma top_push_Some: "inv q \<Longrightarrow> \<exists>z. top (push x q) = Some z"
  using inv_push [of q x] elems_push [of q x] top_None [of "push x q"]
  by (cases "top (push x q)") auto

end

interpretation ph: min_queue "heap_Push pr" ph_top mset pr "is_heap pr" for pr :: "'l \<Rightarrow> decimal"
proof unfold_locales
  fix q :: "'l list" and x
  show "is_heap pr q \<Longrightarrow> is_heap pr (heap_Push pr x q)" by (rule heap_Push_heap)
  show "mset (heap_Push pr x q) = add_mset x (mset q)" by simp
  show "ph_top q = None \<longleftrightarrow> mset q = {#}" by (simp add: ph_top_def ph_Len_def)
  show "x \<in># mset q \<and> (\<forall>y \<in># mset q. pr x \<le> pr y)" if "is_heap pr q" "ph_top q = Some x"
    using that is_heap_head_min [OF that(1)]
    by (auto simp: ph_top_def ph_Len_def in_set_conv_nth split: if_splits)
qed

end
