(* ===== verification/OrderBook.thy ===== *)
theory OrderBook
  imports PriceHeap
begin

text \<open>
  \<open>internal/limitbook/orderbook.go\<close>, all but \<open>MatchOrder\<close>: orders, price levels, the two sides
  of a book and their operations.

  Pointers are addresses. An \<open>*Order\<close> is an index into the list of orders allocated so far (the
  memory \<open>mem\<close>), a \<open>*PriceLevel\<close> an index into the list of levels its side has allocated. A level
  that \<open>RemoveOrder\<close> deletes from the map is still on the heap, so both must see one object. The
  map \<open>levels\<close> is an association list: its order stands for the order in which Go's \<open>range\<close>
  happens to enumerate the keys. \<open>str\<close> is \<open>decimal.Decimal.String\<close>.
\<close>

section \<open>Orders, levels and sides\<close>

type_synonym oref = nat
type_synonym lref = nat

record book_order =
  bo_id :: uuid
  bo_user :: uuid
  bo_symbol :: symbol
  bo_side :: order_side
  bo_type :: order_type
  bo_price :: "decimal option"
  bo_qty :: decimal
  bo_filled :: decimal
  bo_status :: order_status
  bo_created_at :: timestamp

type_synonym omem = "book_order list"

record price_level =
  pl_price :: decimal
  pl_orders :: "oref list"

record book_side =
  bs_levels :: "(string \<times> lref) list"
  bs_heap :: "lref list"
  bs_store :: "price_level list"

definition NewBookSide :: "bool \<Rightarrow> book_side" where
  "NewBookSide isBid = \<lparr>bs_levels = [], bs_heap = NewPriceHeap isBid, bs_store = []\<rparr>"

definition price_at :: "price_level list \<Rightarrow> lref \<Rightarrow> decimal" where
  "price_at st l = pl_price (st ! l)"

text \<open>
  \<open>BookSide.AddOrder\<close>: \<open>order.Price.String()\<close> dereferences the price pointer, which is nil for a
  market order without a price.
\<close>

definition bs_AddOrder :: "(decimal \<Rightarrow> string) \<Rightarrow> omem \<Rightarrow> oref \<Rightarrow> book_side \<Rightarrow> panic + book_side" where
  "bs_AddOrder str mem r bs =
     (case bo_price (mem ! r) of
        None \<Rightarrow> Inl NilDereference
      | Some p \<Rightarrow>
          (case map_of (bs_levels bs) (str p) of
             None \<Rightarrow>
               (let l = length (bs_store bs);
                    st = bs_store bs @ [\<lparr>pl_price = p, pl_orders = [r]\<rparr>]
                in Inr (bs\<lparr>bs_levels := bs_levels bs @ [(str p, l)],
                           bs_heap := heap_Push (price_at st) l (bs_heap bs),
                           bs_store := st\<rparr>))
           | Some l \<Rightarrow>
               Inr (bs\<lparr>bs_store := (bs_store bs)[l := (bs_store bs ! l)
                         \<lparr>pl_orders := pl_orders (bs_store bs ! l) @ [r]\<rparr>]\<rparr>)))"

text \<open>The inner search of \<open>RemoveOrder\<close>: the first index whose order has the given ID.\<close>

fun order_index :: "omem \<Rightarrow> uuid \<Rightarrow> oref list \<Rightarrow> nat option" where
  "order_index mem oid [] = None"
| "order_index mem oid (r # rs) =
     (if bo_id (mem ! r) = oid then Some 0 else map_option Suc (order_index mem oid rs))"

fun find_level :: "omem \<Rightarrow> uuid \<Rightarrow> price_level list \<Rightarrow> (string \<times> lref) list \<Rightarrow> (string \<times> lref \<times> nat) option" where
  "find_level mem oid st [] = None"
| "find_level mem oid st ((k, l) # ls) =
     (case order_index mem oid (pl_orders (st ! l)) of
        Some i \<Rightarrow> Some (k, l, i)
      | None \<Rightarrow> find_level mem oid st ls)"

text \<open>\<open>append(s[:i], s[i+1:]...)\<close> for an index in range.\<close>

definition remove_at :: "nat \<Rightarrow> 'a list \<Rightarrow> 'a list" where
  "remove_at i xs = take i xs @ drop (Suc i) xs"

definition bs_RemoveOrder :: "omem \<Rightarrow> uuid \<Rightarrow> book_side \<Rightarrow> bool \<times> book_side" where
  "bs_RemoveOrder mem oid bs =
     (case find_level mem oid (bs_store bs) (bs_levels bs) of
        None \<Rightarrow> (False, bs)
      | Some (k, l, i) \<Rightarrow>
          (let os = remove_at i (pl_orders (bs_store bs ! l));
               bs1 = bs\<lparr>bs_store := (bs_store bs)[l := (bs_store bs ! l)\<lparr>pl_orders := os\<rparr>]\<rparr>
           in (True, if os = [] then bs1\<lparr>bs_levels := filter (\<lambda>p. fst p \<noteq> k) (bs_levels bs)\<rparr>
                     else bs1)))"

definition bs_GetBestLevel :: "book_side \<Rightarrow> lref option" where
  "bs_GetBestLevel bs = ph_top (bs_heap bs)"

definition bs_GetBestPrice :: "book_side \<Rightarrow> decimal option" where
  "bs_GetBestPrice bs = map_option (price_at (bs_store bs)) (ph_top (bs_heap bs))"

section \<open>The book\<close>

record order_book =
  ob_symbol :: symbol
  ob_bids :: book_side
  ob_asks :: book_side

definition NewOrderBook :: "symbol \<Rightarrow> order_book" where
  "NewOrderBook sy = \<lparr>ob_symbol = sy, ob_bids = NewBookSide True, ob_asks = NewBookSide False\<rparr>"

definition ob_AddOrder :: "(decimal \<Rightarrow> string) \<Rightarrow> omem \<Rightarrow> oref \<Rightarrow> order_book \<Rightarrow> panic + order_book" where
  "ob_AddOrder str mem r ob =
     (if bo_side (mem ! r) = OrderSideBuy
      then map_sum id (\<lambda>b. ob\<lparr>ob_bids := b\<rparr>) (bs_AddOrder str mem r (ob_bids ob))
      else map_sum id (\<lambda>a. ob\<lparr>ob_asks := a\<rparr>) (bs_AddOrder str mem r (ob_asks ob)))"

definition ob_RemoveOrder :: "omem \<Rightarrow> uuid \<Rightarrow> order_book \<Rightarrow> bool \<times> order_book" where
  "ob_RemoveOrder mem oid ob =
     (case bs_RemoveOrder mem oid (ob_bids ob) of
        (True, b) \<Rightarrow> (True, ob\<lparr>ob_bids := b\<rparr>)
      | (False, b) \<Rightarrow>
          (case bs_RemoveOrder mem oid (ob_asks ob) of
             (found, a) \<Rightarrow> (found, ob\<lparr>ob_bids := b, ob_asks := a\<rparr>)))"

definition ob_GetBestBid :: "order_book \<Rightarrow> decimal option" where
  "ob_GetBestBid ob = bs_GetBestPrice (ob_bids ob)"

definition ob_GetBestAsk :: "order_book \<Rightarrow> decimal option" where
  "ob_GetBestAsk ob = bs_GetBestPrice (ob_asks ob)"

definition ob_GetSpread :: "order_book \<Rightarrow> decimal option" where
  "ob_GetSpread ob =
     (case (ob_GetBestBid ob, ob_GetBestAsk ob) of
        (Some b, Some a) \<Rightarrow> Some (a - b)
      | _ \<Rightarrow> None)"

section \<open>Well-formed sides\<close>

text \<open>The resting orders under a price string, in time priority.\<close>

definition bs_view :: "book_side \<Rightarrow> string \<Rightarrow> oref list" where
  "bs_view bs k =
     (case map_of (bs_levels bs) k of None \<Rightarrow> [] | Some l \<Rightarrow> pl_orders (bs_store bs ! l))"

definition price_key :: "(decimal \<Rightarrow> string) \<Rightarrow> omem \<Rightarrow> oref \<Rightarrow> string option" where
  "price_key str mem r = map_option str (bo_price (mem ! r))"

text \<open>
  The shape every operation keeps: keys and level addresses of the map are distinct; a key is the
  price string of its level; the heap holds every level ever allocated and is a heap; every order
  of a level has the level's price; a level no longer in the map is empty.
\<close>

definition bs_wf :: "(decimal \<Rightarrow> string) \<Rightarrow> omem \<Rightarrow> book_side \<Rightarrow> bool" where
  "bs_wf str mem bs \<longleftrightarrow>
     distinct (map fst (bs_levels bs)) \<and> distinct (map snd (bs_levels bs)) \<and>
     (\<forall>(k, l) \<in> set (bs_levels bs). l < length (bs_store bs) \<and> k = str (price_at (bs_store bs) l)) \<and>
     mset (bs_heap bs) = mset [0..<length (bs_store bs)] \<and>
     is_heap (price_at (bs_store bs)) (bs_heap bs) \<and>
     (\<forall>l < length (bs_store bs). \<forall>r \<in> set (pl_orders (bs_store bs ! l)).
        r < length mem \<and> price_key str mem r = Some (str (price_at (bs_store bs) l))) \<and>
     (\<forall>l < length (bs_store bs). l \<notin> snd ` set (bs_levels bs) \<longrightarrow> pl_orders (bs_store bs ! l) = [])"

lemma bs_wfD:
  assumes "bs_wf str mem bs"
  shows "distinct (map fst (bs_levels bs))" and "distinct (map snd (bs_levels bs))"
    and "\<And>k l. (k, l) \<in> set (bs_levels bs) \<Longrightarrow> l < length (bs_store bs)"
    and "\<And>k l. (k, l) \<in> set (bs_levels bs) \<Longrightarrow> k = str (price_at (bs_store bs) l)"
    and "mset (bs_heap bs) = mset [0..<length (bs_store bs)]"
    and "is_heap (price_at (bs_store bs)) (bs_heap bs)"
    and "\<And>l r. l < length (bs_store bs) \<Longrightarrow> r \<in> set (pl_orders (bs_store bs ! l)) \<Longrightarrow>
           r < length mem \<and> price_key str mem r = Some (str (price_at (bs_store bs) l))"
    and "\<And>l. l < length (bs_store bs) \<Longrightarrow> l \<notin> snd ` set (bs_levels bs) \<Longrightarrow>
           pl_orders (bs_store bs ! l) = []"
  using assms by (auto simp: bs_wf_def)

lemma price_at_append [simp]: "l < length st \<Longrightarrow> price_at (st @ [x]) l = price_at st l"
  by (simp add: price_at_def nth_append)

lemma price_at_new [simp]: "price_at (st @ [x]) (length st) = pl_price x"
  by (simp add: price_at_def)

lemma price_at_update [simp]:
  "price_at (st[l := (st ! l)\<lparr>pl_orders := os\<rparr>]) = price_at st"
  by (rule ext) (metis list_update_beyond nth_list_update_eq nth_list_update_neq price_at_def
      price_level.select_convs(1) price_level.surjective price_level.update_convs(2) not_le)

lemma bs_wf_heap_set: "bs_wf str mem bs \<Longrightarrow> set (bs_heap bs) = {..<length (bs_store bs)}"
  by (metis atLeast_upt bs_wfD(5) set_mset_mset)

lemma bs_wf_New [simp]: "bs_wf str mem (NewBookSide isBid)"
  by (simp add: bs_wf_def NewBookSide_def)

lemma bs_wf_map_of:
  assumes "bs_wf str mem bs" "map_of (bs_levels bs) k = Some l"
  shows "l < length (bs_store bs)" "k = str (price_at (bs_store bs) l)" "(k, l) \<in> set (bs_levels bs)"
  using bs_wfD(3,4) [OF assms(1)] map_of_SomeD [OF assms(2)] by blast+

lemma bs_wf_map_of_eqI:
  "bs_wf str mem bs \<Longrightarrow> (k, l) \<in> set (bs_levels bs) \<Longrightarrow> map_of (bs_levels bs) k = Some l"
  by (simp add: bs_wfD(1))

lemma bs_wf_level_unique:
  assumes "bs_wf str mem bs" "(k, l) \<in> set (bs_levels bs)" "(k', l) \<in> set (bs_levels bs)"
  shows "k = k'"
  using bs_wfD(4) [OF assms(1)] assms(2,3) by metis

text \<open>Replacing the orders of one level: what \<open>AddOrder\<close>, \<open>RemoveOrder\<close> and matching do to a side.\<close>

definition set_orders :: "lref \<Rightarrow> oref list \<Rightarrow> book_side \<Rightarrow> book_side" where
  "set_orders l os bs = bs\<lparr>bs_store := (bs_store bs)[l := (bs_store bs ! l)\<lparr>pl_orders := os\<rparr>]\<rparr>"

lemma set_orders_simps [simp]:
  "bs_levels (set_orders l os bs) = bs_levels bs"
  "bs_heap (set_orders l os bs) = bs_heap bs"
  "length (bs_store (set_orders l os bs)) = length (bs_store bs)"
  "price_at (bs_store (set_orders l os bs)) = price_at (bs_store bs)"
  by (simp_all add: set_orders_def)

lemma set_orders_nth:
  "l' < length (bs_store bs) \<Longrightarrow>
   pl_orders (bs_store (set_orders l os bs) ! l') = (if l' = l then os else pl_orders (bs_store bs ! l'))"
  by (simp add: set_orders_def nth_list_update)

lemma bs_wf_set_orders:
  assumes "bs_wf str mem bs"
    and "\<And>r. r \<in> set os \<Longrightarrow> r < length mem \<and> price_key str mem r = Some (str (price_at (bs_store bs) l))"
    and "l \<notin> snd ` set (bs_levels bs) \<Longrightarrow> os = []"
  shows "bs_wf str mem (set_orders l os bs)"
  unfolding bs_wf_def set_orders_simps
proof (intro conjI allI impI)
  note W = bs_wfD [OF assms(1)]
  show "distinct (map fst (bs_levels bs))" "distinct (map snd (bs_levels bs))"
    "mset (bs_heap bs) = mset [0..<length (bs_store bs)]"
    "is_heap (price_at (bs_store bs)) (bs_heap bs)"
    by (fact W)+
  show "\<forall>(k, l) \<in> set (bs_levels bs). l < length (bs_store bs) \<and> k = str (price_at (bs_store bs) l)"
    using W(3,4) by auto
  fix l' assume l': "l' < length (bs_store bs)"
  show "\<forall>r \<in> set (pl_orders (bs_store (set_orders l os bs) ! l')).
          r < length mem \<and> price_key str mem r = Some (str (price_at (bs_store bs) l'))"
    using W(7) [OF l'] assms(2) l' by (auto simp: set_orders_nth)
  show "l' \<notin> snd ` set (bs_levels bs) \<Longrightarrow> pl_orders (bs_store (set_orders l os bs) ! l') = []"
    using W(8) [OF l'] assms(3) l' by (auto simp: set_orders_nth)
qed

lemma bs_view_set_orders:
  assumes wf: "bs_wf str mem bs" and l: "(k, l) \<in> set (bs_levels bs)"
  shows "bs_view (set_orders l os bs) = (bs_view bs)(k := os)"
proof
  fix k'
  show "bs_view (set_orders l os bs) k' = ((bs_view bs)(k := os)) k'"
  proof (cases "map_of (bs_levels bs) k'")
    case None
    then have "k' \<noteq> k" using bs_wf_map_of_eqI [OF wf l] by auto
    with None show ?thesis by (simp add: bs_view_def)
  next
    case (Some l')
    have "k' = k" if "l' = l"
      using bs_wf_level_unique [OF wf l] bs_wf_map_of(3) [OF wf Some] that by metis
    moreover have "l' = l" if "k' = k"
      using bs_wf_map_of_eqI [OF wf l] Some that by simp
    ultimately have "l' = l \<longleftrightarrow> k' = k" by blast
    with Some bs_wf_map_of(1) [OF wf Some] show ?thesis
      by (simp add: bs_view_def set_orders_nth)
  qed
qed

section \<open>Adding and removing against the view\<close>

lemma bs_AddOrder_existing:
  assumes wf: "bs_wf str mem bs" and p: "bo_price (mem ! r) = Some p"
    and l: "map_of (bs_levels bs) (str p) = Some l" and r: "r < length mem"
    and add: "bs_AddOrder str mem r bs = Inr bs'"
  shows "bs_wf str mem bs' \<and> bs_view bs' = (bs_view bs)(str p := bs_view bs (str p) @ [r])"
proof -
  note L = bs_wf_map_of [OF wf l]
  have bs': "bs' = set_orders l (pl_orders (bs_store bs ! l) @ [r]) bs"
    using add p l by (simp add: bs_AddOrder_def set_orders_def)
  have "bs_wf str mem bs'"
    unfolding bs'
  proof (rule bs_wf_set_orders [OF wf])
    show "r' < length mem \<and> price_key str mem r' = Some (str (price_at (bs_store bs) l))"
      if "r' \<in> set (pl_orders (bs_store bs ! l) @ [r])" for r'
      using that bs_wfD(7) [OF wf L(1)] r p L(2) by (auto simp: price_key_def)
    show "l \<notin> snd ` set (bs_levels bs) \<Longrightarrow> pl_orders (bs_store bs ! l) @ [r] = []"
      using L(3) by force
  qed
  moreover have "bs_view bs (str p) = pl_orders (bs_store bs ! l)" using l by (simp add: bs_view_def)
  ultimately show ?thesis using bs_view_set_orders [OF wf L(3)] by (simp add: bs')
qed

lemma bs_AddOrder_fresh:
  assumes wf: "bs_wf str mem bs" and p: "bo_price (mem ! r) = Some p"
    and l: "map_of (bs_levels bs) (str p) = None" and r: "r < length mem"
    and add: "bs_AddOrder str mem r bs = Inr bs'"
  shows "bs_wf str mem bs' \<and> bs_view bs' = (bs_view bs)(str p := bs_view bs (str p) @ [r])"
proof -
  note W = bs_wfD [OF wf]
  let ?n = "length (bs_store bs)"
  let ?st = "bs_store bs @ [\<lparr>pl_price = p, pl_orders = [r]\<rparr>]"
  have bs': "bs' = bs\<lparr>bs_levels := bs_levels bs @ [(str p, ?n)],
                      bs_heap := heap_Push (price_at ?st) ?n (bs_heap bs), bs_store := ?st\<rparr>"
    using add p l by (simp add: bs_AddOrder_def Let_def)
  have fresh: "str p \<notin> fst ` set (bs_levels bs)" using l by (simp add: map_of_eq_None_iff)
  have new: "?n \<notin> snd ` set (bs_levels bs)" using W(3) by fastforce
  have "is_heap (price_at ?st) (bs_heap bs)"
    using W(6) bs_wf_heap_set [OF wf] by (subst is_heap_cong [where pr' = "price_at (bs_store bs)"]) auto
  then have heap: "is_heap (price_at ?st) (heap_Push (price_at ?st) ?n (bs_heap bs))"
    by (rule heap_Push_heap)
  have "bs_wf str mem bs'"
    unfolding bs_wf_def bs'
    using W(1,2,5) fresh new heap r p W(3,4)
    by (auto simp: less_Suc_eq nth_append price_key_def dest: W(7) W(8)
        intro: W(7) [THEN conjunct1] W(7) [THEN conjunct2])
  moreover have "bs_view bs' k = ((bs_view bs)(str p := bs_view bs (str p) @ [r])) k" for k
    using l bs_wf_map_of [OF wf, of k]
    by (auto simp: bs_view_def bs' map_add_def nth_append split: option.splits)
  ultimately show ?thesis by auto
qed

lemma bs_AddOrder_ok:
  assumes "bs_wf str mem bs" and "price_key str mem r = Some k" and "r < length mem"
  shows "\<exists>bs'. bs_AddOrder str mem r bs = Inr bs' \<and> bs_wf str mem bs' \<and>
               bs_view bs' = (bs_view bs)(k := bs_view bs k @ [r])"
proof -
  from assms(2) obtain p where p: "bo_price (mem ! r) = Some p" and k: "k = str p"
    by (auto simp: price_key_def)
  obtain bs' where add: "bs_AddOrder str mem r bs = Inr bs'"
    using p by (cases "map_of (bs_levels bs) (str p)") (auto simp: bs_AddOrder_def Let_def)
  then show ?thesis
    using bs_AddOrder_existing [OF assms(1) p _ assms(3) add]
      bs_AddOrder_fresh [OF assms(1) p _ assms(3) add] k
    by (cases "map_of (bs_levels bs) (str p)") auto
qed

lemma bs_AddOrder_nil: "bo_price (mem ! r) = None \<Longrightarrow> bs_AddOrder str mem r bs = Inl NilDereference"
  by (simp add: bs_AddOrder_def)

lemma order_index_Some:
  "order_index mem oid rs = Some i \<Longrightarrow>
   i < length rs \<and> bo_id (mem ! (rs ! i)) = oid \<and> (\<forall>j < i. bo_id (mem ! (rs ! j)) \<noteq> oid)"
proof (induction rs arbitrary: i)
  case (Cons r rs)
  then show ?case
    by (cases "bo_id (mem ! r) = oid") (auto simp: nth_Cons' dest!: Cons.IH)
qed simp

lemma order_index_None: "order_index mem oid rs = None \<longleftrightarrow> (\<forall>r \<in> set rs. bo_id (mem ! r) \<noteq> oid)"
  by (induction rs) auto

lemma find_level_Some:
  "find_level mem oid st ls = Some (k, l, i) \<Longrightarrow>
   (k, l) \<in> set ls \<and> order_index mem oid (pl_orders (st ! l)) = Some i"
  by (induction ls) (auto split: option.splits)

lemma find_level_None:
  "find_level mem oid st ls = None \<longleftrightarrow>
   (\<forall>(k, l) \<in> set ls. \<forall>r \<in> set (pl_orders (st ! l)). bo_id (mem ! r) \<noteq> oid)"
  by (induction ls) (auto simp: order_index_None split: option.splits)

lemma bs_wf_drop_level:
  assumes wf: "bs_wf str mem bs" and empty: "bs_view bs k = []"
  defines "bs' \<equiv> bs\<lparr>bs_levels := filter (\<lambda>p. fst p \<noteq> k) (bs_levels bs)\<rparr>"
  shows "bs_wf str mem bs'" and "bs_view bs' = bs_view bs"
proof -
  note W = bs_wfD [OF wf]
  have gone: "pl_orders (bs_store bs ! l) = []"
    if "l < length (bs_store bs)" "l \<notin> snd ` set (bs_levels bs')" for l
  proof (cases "l \<in> snd ` set (bs_levels bs)")
    case True
    then obtain k' where k': "(k', l) \<in> set (bs_levels bs)" by auto
    with that have "k' = k" by (force simp: bs'_def)
    with bs_wf_map_of_eqI [OF wf k'] empty show ?thesis by (simp add: bs_view_def)
  qed (use W(8) that in simp)
  show "bs_wf str mem bs'"
    unfolding bs_wf_def
    using W(1-6) W(7) gone by (auto simp: bs'_def distinct_map_filter)
  show "bs_view bs' = bs_view bs"
    using empty by (auto simp: bs_view_def bs'_def map_of_filter_neq split: option.splits)
qed

lemma set_remove_at: "set (remove_at i xs) \<subseteq> set xs"
  by (auto simp: remove_at_def dest: in_set_takeD in_set_dropD)

lemma remove_at_filter:
  assumes "i < length xs" and "distinct (map f xs)"
  shows "remove_at i xs = filter (\<lambda>x. f x \<noteq> f (xs ! i)) xs"
  using assms
proof (induction xs arbitrary: i)
  case (Cons x xs)
  show ?case
  proof (cases i)
    case 0
    then have "\<forall>y \<in> set xs. f y \<noteq> f x" using Cons.prems(2) by simp (metis imageI)
    with 0 show ?thesis by (simp add: remove_at_def filter_id_conv)
  next
    case (Suc j)
    then have "f x \<noteq> f (xs ! j)" using Cons.prems by auto
    with Suc Cons.IH [of j] Cons.prems show ?thesis by (simp add: remove_at_def)
  qed
qed simp

lemma bs_RemoveOrder_refines:
  assumes wf: "bs_wf str mem bs" and rm: "bs_RemoveOrder mem oid bs = (found, bs')"
  shows "bs_wf str mem bs' \<and>
     (if found
      then \<exists>k i. i < length (bs_view bs k) \<and> bo_id (mem ! (bs_view bs k ! i)) = oid \<and>
             (\<forall>j < i. bo_id (mem ! (bs_view bs k ! j)) \<noteq> oid) \<and>
             bs_view bs' = (bs_view bs)(k := remove_at i (bs_view bs k))
      else bs' = bs \<and> (\<forall>k. \<forall>r \<in> set (bs_view bs k). bo_id (mem ! r) \<noteq> oid))"
proof (cases "find_level mem oid (bs_store bs) (bs_levels bs)")
  case None
  have "\<forall>r \<in> set (bs_view bs k). bo_id (mem ! r) \<noteq> oid" for k
  proof (cases "map_of (bs_levels bs) k")
    case (Some l)
    with None bs_wf_map_of(3) [OF wf Some] show ?thesis
      unfolding find_level_None by (auto simp: bs_view_def)
  qed (simp add: bs_view_def)
  then show ?thesis using None rm wf by (simp add: bs_RemoveOrder_def)
next
  case (Some a)
  then obtain k l i where f: "find_level mem oid (bs_store bs) (bs_levels bs) = Some (k, l, i)"
    by (cases a) auto
  then have kl: "(k, l) \<in> set (bs_levels bs)"
    and i: "order_index mem oid (pl_orders (bs_store bs ! l)) = Some i"
    by (auto dest: find_level_Some)
  let ?os = "remove_at i (pl_orders (bs_store bs ! l))"
  let ?bs1 = "set_orders l ?os bs"
  have view: "bs_view bs k = pl_orders (bs_store bs ! l)"
    using bs_wf_map_of_eqI [OF wf kl] by (simp add: bs_view_def)
  have wf1: "bs_wf str mem ?bs1"
  proof (rule bs_wf_set_orders [OF wf])
    show "r < length mem \<and> price_key str mem r = Some (str (price_at (bs_store bs) l))"
      if "r \<in> set ?os" for r
      using bs_wfD(7) [OF wf bs_wfD(3) [OF wf kl] set_remove_at [THEN subsetD, OF that]] .
    show "l \<notin> snd ` set (bs_levels bs) \<Longrightarrow> ?os = []" using kl by force
  qed
  have view1: "bs_view ?bs1 = (bs_view bs)(k := ?os)" by (rule bs_view_set_orders [OF wf kl])
  have bs': "found" "bs' = (if ?os = [] then ?bs1\<lparr>bs_levels := filter (\<lambda>p. fst p \<noteq> k) (bs_levels ?bs1)\<rparr> else ?bs1)"
    using rm f by (auto simp: bs_RemoveOrder_def set_orders_def Let_def)
  have "bs_wf str mem bs' \<and> bs_view bs' = (bs_view bs)(k := ?os)"
  proof (cases "?os = []")
    case True
    then have "bs_view ?bs1 k = []" using view1 by simp
    from bs_wf_drop_level [OF wf1 this] True show ?thesis unfolding bs'(2) using view1 by simp
  next
    case False
    with wf1 view1 show ?thesis unfolding bs'(2) by simp
  qed
  then show ?thesis
    using bs'(1) order_index_Some [OF i] unfolding view [symmetric]
    by (auto intro: exI [of _ k] exI [of _ i])
qed

section \<open>The interface of a price-time queue\<close>

text \<open>
  What the order service relies on: adding an order appends it to the queue of its price; the
  first order with a given ID can be removed and nothing else changes.
\<close>

locale price_time_queue =
  fixes add :: "oref \<Rightarrow> 's \<Rightarrow> panic + 's"
    and view :: "'s \<Rightarrow> string \<Rightarrow> oref list"
    and keyof :: "oref \<Rightarrow> string option"
    and valid :: "oref \<Rightarrow> bool"
    and inv :: "'s \<Rightarrow> bool"
  assumes add_nil: "keyof r = None \<Longrightarrow> add r s = Inl NilDereference"
    and add_ok: "inv s \<Longrightarrow> valid r \<Longrightarrow> keyof r = Some k \<Longrightarrow>
      \<exists>s'. add r s = Inr s' \<and> inv s' \<and> view s' = (view s)(k := view s k @ [r])"
begin

lemma add_all:
  assumes "inv s" and "\<forall>r \<in> set rs. valid r \<and> keyof r \<noteq> None"
  shows "\<exists>s'. fold_result add rs s = Inr s' \<and> inv s' \<and>
              (\<forall>k. view s' k = view s k @ filter (\<lambda>r. keyof r = Some k) rs)"
  using assms
proof (induction rs arbitrary: s)
  case (Cons r rs)
  then obtain k where k: "keyof r = Some k" by auto
  with add_ok [of s r k] Cons.prems obtain s1 where s1: "add r s = Inr s1" "inv s1"
    "view s1 = (view s)(k := view s k @ [r])" by auto
  with Cons.IH [OF s1(2)] Cons.prems obtain s' where "fold_result add rs s1 = Inr s'" "inv s'"
    "\<forall>k. view s' k = view s1 k @ filter (\<lambda>r. keyof r = Some k) rs" by auto
  with s1 k show ?case by auto
qed simp

lemma add_all_nil:
  assumes "inv s" and "\<forall>r \<in> set rs. valid r" and "\<exists>r \<in> set rs. keyof r = None"
  shows "fold_result add rs s = Inl NilDereference"
  using assms
proof (induction rs arbitrary: s)
  case (Cons r rs)
  show ?case
  proof (cases "keyof r")
    case None
    then show ?thesis by (simp add: add_nil)
  next
    case (Some k)
    with add_ok [of s r k] Cons.prems obtain s1 where "add r s = Inr s1" "inv s1" by auto
    with Cons Some show ?thesis by auto
  qed
qed simp

end

locale price_time_book = price_time_queue +
  fixes remove :: "uuid \<Rightarrow> 's \<Rightarrow> bool \<times> 's"
    and idof :: "oref \<Rightarrow> uuid"
  assumes remove_inv: "inv s \<Longrightarrow> remove oid s = (b, s') \<Longrightarrow> inv s'"
    and remove_missing: "inv s \<Longrightarrow> remove oid s = (False, s') \<Longrightarrow>
      s' = s \<and> (\<forall>k. \<forall>r \<in> set (view s k). idof r \<noteq> oid)"
    and remove_found: "inv s \<Longrightarrow> remove oid s = (True, s') \<Longrightarrow>
      \<exists>k i. i < length (view s k) \<and> idof (view s k ! i) = oid \<and>
        view s' = (view s)(k := remove_at i (view s k))"
begin

lemma remove_added:
  assumes "inv s" "valid r" "keyof r = Some k" "add r s = Inr s'"
    and fresh: "\<forall>k. \<forall>q \<in> set (view s k). idof q \<noteq> idof r"
  shows "\<exists>s''. remove (idof r) s' = (True, s'') \<and> view s'' = view s"
proof -
  from add_ok [OF assms(1-3)] assms(4) have s': "inv s'" "view s' = (view s)(k := view s k @ [r])"
    by auto
  obtain b s'' where rm: "remove (idof r) s' = (b, s'')" by fastforce
  have b: b
    using remove_missing [OF s'(1), of "idof r" s''] rm s'(2)
    by (cases b) (auto dest: spec [of _ k])
  with rm remove_found [OF s'(1)] obtain k' i
    where i: "i < length (view s' k')" "idof (view s' k' ! i) = idof r"
      and v: "view s'' = (view s')(k' := remove_at i (view s' k'))" by force
  have k': "k' = k" and i': "i = length (view s k)"
    using i fresh s'(2) nth_mem by (fastforce simp: nth_append split: if_splits)+
  then have "view s'' = view s" using v s'(2) by (simp add: remove_at_def)
  with rm b show ?thesis by auto
qed

lemma remove_found_mem:
  "inv s \<Longrightarrow> remove oid s = (True, s') \<Longrightarrow> \<exists>k. \<exists>r \<in> set (view s k). idof r = oid"
  by (meson nth_mem remove_found)

lemma remove_determined:
  assumes inv: "inv s" "inv t" and view: "view s = view t"
    and unique: "\<And>k k' i j. i < length (view s k) \<Longrightarrow> j < length (view s k') \<Longrightarrow>
       idof (view s k ! i) = idof (view s k' ! j) \<Longrightarrow> k = k' \<and> i = j"
  shows "fst (remove oid s) = fst (remove oid t) \<and>
         view (snd (remove oid s)) = view (snd (remove oid t))"
proof -
  obtain b s' c t' where rm: "remove oid s = (b, s')" "remove oid t = (c, t')" by fastforce
  have bc: "b = c"
  proof (cases b; cases c)
    assume "b" "\<not> c"
    then show ?thesis
      using remove_found_mem [OF inv(1), of oid s'] remove_missing [OF inv(2), of oid t'] rm view
      by auto
  next
    assume "\<not> b" "c"
    then show ?thesis
      using remove_found_mem [OF inv(2), of oid t'] remove_missing [OF inv(1), of oid s'] rm view
      by auto
  qed auto
  have "view s' = view t'"
  proof (cases b)
    case True
    with remove_found [OF inv(1), of oid s'] rm obtain k i
      where 1: "i < length (view s k)" "idof (view s k ! i) = oid"
        "view s' = (view s)(k := remove_at i (view s k))" by auto
    from True bc remove_found [OF inv(2), of oid t'] rm view obtain k' i'
      where 2: "i' < length (view s k')" "idof (view s k' ! i') = oid"
        "view t' = (view s)(k' := remove_at i' (view s k'))" by auto
    from unique [OF 1(1) 2(1)] 1(2) 2(2) have "k = k'" "i = i'" by auto
    with 1 2 show ?thesis by simp
  next
    case False
    with bc rm remove_missing [OF inv(1), of oid s'] remove_missing [OF inv(2), of oid t'] view
    show ?thesis by auto
  qed
  with bc rm show ?thesis by simp
qed

text \<open>With distinct IDs in each queue, removing is filtering the ID out of every queue.\<close>

lemma remove_filters:
  assumes inv: "inv s"
    and unique: "\<And>k k' q r. q \<in> set (view s k) \<Longrightarrow> r \<in> set (view s k') \<Longrightarrow> idof q = idof r \<Longrightarrow> k = k'"
    and distinct: "\<And>k. distinct (map idof (view s k))"
  shows "\<exists>s'. remove oid s = ((\<exists>k. \<exists>r \<in> set (view s k). idof r = oid), s') \<and> inv s' \<and>
              view s' = (\<lambda>k. filter (\<lambda>r. idof r \<noteq> oid) (view s k))"
proof -
  obtain b s' where rm: "remove oid s = (b, s')" by fastforce
  show ?thesis
  proof (cases b)
    case True
    with remove_found [OF inv, of oid s'] rm obtain k i
      where i: "i < length (view s k)" "idof (view s k ! i) = oid"
        and v: "view s' = (view s)(k := remove_at i (view s k))" by auto
    have "view s' k' = filter (\<lambda>r. idof r \<noteq> oid) (view s k')" for k'
    proof (cases "k' = k")
      case False
      then have "\<forall>r \<in> set (view s k'). idof r \<noteq> oid" using unique [OF nth_mem [OF i(1)]] i(2) by metis
      with False v show ?thesis by (simp add: filter_id_conv)
    qed (use v i remove_at_filter [OF i(1) distinct] in simp)
    moreover have "\<exists>k. \<exists>r \<in> set (view s k). idof r = oid" using i nth_mem by blast
    ultimately show ?thesis using rm True remove_inv [OF inv rm] by auto
  next
    case False
    with remove_missing [OF inv, of oid s'] rm have "s' = s" "\<forall>k. \<forall>r \<in> set (view s k). idof r \<noteq> oid"
      by auto
    with rm False inv show ?thesis by (auto simp: fun_eq_iff filter_id_conv)
  qed
qed

end

interpretation side: price_time_book
  "bs_AddOrder str mem" bs_view "price_key str mem" "\<lambda>r. r < length mem" "bs_wf str mem"
  "bs_RemoveOrder mem" "\<lambda>r. bo_id (mem ! r)"
  for str :: "decimal \<Rightarrow> string" and mem :: omem
proof unfold_locales
  fix s s' r k oid b
  show "price_key str mem r = None \<Longrightarrow> bs_AddOrder str mem r s = Inl NilDereference"
    by (simp add: price_key_def bs_AddOrder_nil)
  show "bs_wf str mem s \<Longrightarrow> r < length mem \<Longrightarrow> price_key str mem r = Some k \<Longrightarrow>
    \<exists>s'. bs_AddOrder str mem r s = Inr s' \<and> bs_wf str mem s' \<and>
         bs_view s' = (bs_view s)(k := bs_view s k @ [r])"
    by (rule bs_AddOrder_ok)
  show "bs_wf str mem s \<Longrightarrow> bs_RemoveOrder mem oid s = (b, s') \<Longrightarrow> bs_wf str mem s'"
    using bs_RemoveOrder_refines by blast
  show "bs_wf str mem s \<Longrightarrow> bs_RemoveOrder mem oid s = (False, s') \<Longrightarrow>
    s' = s \<and> (\<forall>k. \<forall>r \<in> set (bs_view s k). bo_id (mem ! r) \<noteq> oid)"
    using bs_RemoveOrder_refines [of str mem s oid False s'] by simp
  show "bs_wf str mem s \<Longrightarrow> bs_RemoveOrder mem oid s = (True, s') \<Longrightarrow>
    \<exists>k i. i < length (bs_view s k) \<and> bo_id (mem ! (bs_view s k ! i)) = oid \<and>
      bs_view s' = (bs_view s)(k := remove_at i (bs_view s k))"
    using bs_RemoveOrder_refines [of str mem s oid True s'] by auto
qed

section \<open>Best prices\<close>

lemma ph_top_wf:
  assumes "bs_wf str mem bs" and "ph_top (bs_heap bs) = Some l"
  shows "l < length (bs_store bs)"
    and "\<And>l'. l' < length (bs_store bs) \<Longrightarrow> price_at (bs_store bs) l \<le> price_at (bs_store bs) l'"
  using ph.top_min [OF bs_wfD(6) [OF assms(1)] assms(2)] bs_wf_heap_set [OF assms(1)] by auto

lemma ph_top_wf_None: "bs_wf str mem bs \<Longrightarrow> ph_top (bs_heap bs) = None \<longleftrightarrow> bs_store bs = []"
  using ph.top_None [OF bs_wfD(6)] bs_wfD(5) by (metis length_0_conv mset_zero_iff size_mset length_upt
      diff_zero)

lemma bs_view_level:
  assumes wf: "bs_wf str mem bs" and r: "r \<in> set (bs_view bs k)"
  obtains l where "l < length (bs_store bs)" "k = str (price_at (bs_store bs) l)"
    "bs_view bs k = pl_orders (bs_store bs ! l)" "map_of (bs_levels bs) k = Some l"
proof (cases "map_of (bs_levels bs) k")
  case (Some l)
  with that [of l] bs_wf_map_of [OF wf Some] show ?thesis by (simp add: bs_view_def)
qed (use r in \<open>simp add: bs_view_def\<close>)

lemma bs_best_bounds_resting:
  assumes wf: "bs_wf str mem bs" and inj: "inj str" and r: "r \<in> set (bs_view bs k)"
  shows "\<exists>b p. bs_GetBestPrice bs = Some b \<and> bo_price (mem ! r) = Some p \<and> b \<le> p \<and>
               b \<in> pl_price ` set (bs_store bs)"
proof -
  from bs_view_level [OF wf r] obtain l where l: "l < length (bs_store bs)"
    "bs_view bs k = pl_orders (bs_store bs ! l)" by metis
  from bs_wfD(7) [OF wf l(1)] r l(2) inj have p: "bo_price (mem ! r) = Some (price_at (bs_store bs) l)"
    by (auto simp: price_key_def dest: injD)
  from ph_top_wf_None [OF wf] l(1) obtain t where t: "ph_top (bs_heap bs) = Some t" by fastforce
  with ph_top_wf(1) [OF wf t] ph_top_wf(2) [OF wf t l(1)] p show ?thesis
    by (simp add: bs_GetBestPrice_def price_at_def)
qed

lemma bs_RemoveOrder_heap: "bs_heap (snd (bs_RemoveOrder mem oid bs)) = bs_heap bs"
  by (auto simp: bs_RemoveOrder_def Let_def split: option.splits)

lemma bs_RemoveOrder_prices: "price_at (bs_store (snd (bs_RemoveOrder mem oid bs))) = price_at (bs_store bs)"
  by (auto simp: bs_RemoveOrder_def Let_def split: option.splits)

lemma bs_RemoveOrder_store_length:
  "length (bs_store (snd (bs_RemoveOrder mem oid bs))) = length (bs_store bs)"
  by (auto simp: bs_RemoveOrder_def Let_def split: option.splits)

lemma bs_RemoveOrder_shrinks:
  assumes "l < length (bs_store bs)"
  shows "set (pl_orders (bs_store (snd (bs_RemoveOrder mem oid bs)) ! l)) \<subseteq> set (pl_orders (bs_store bs ! l))"
proof (cases "find_level mem oid (bs_store bs) (bs_levels bs)")
  case (Some a)
  obtain k l' i where "a = (k, l', i)" by (cases a)
  with Some assms set_remove_at [of i "pl_orders (bs_store bs ! l')"] show ?thesis
    by (cases "l' = l") (auto simp: bs_RemoveOrder_def Let_def)
qed (simp add: bs_RemoveOrder_def)

text \<open>Well-formedness reads the orders' prices only, which no operation changes.\<close>

lemma bs_wf_mem_cong:
  assumes "length mem' = length mem" and "\<And>q. q < length mem \<Longrightarrow> bo_price (mem' ! q) = bo_price (mem ! q)"
  shows "bs_wf str mem' bs \<longleftrightarrow> bs_wf str mem bs"
proof -
  have "r < length mem' \<and> price_key str mem' r = k \<longleftrightarrow> r < length mem \<and> price_key str mem r = k" for r k
    using assms by (auto simp: price_key_def)
  then show ?thesis by (simp add: bs_wf_def)
qed

section \<open>Properties\<close>

definition ob_wf :: "(decimal \<Rightarrow> string) \<Rightarrow> omem \<Rightarrow> order_book \<Rightarrow> bool" where
  "ob_wf str mem ob \<longleftrightarrow> bs_wf str mem (ob_bids ob) \<and> bs_wf str mem (ob_asks ob)"

text \<open>The resting orders of a book, by side (\<open>True\<close> for bids) and price string.\<close>

definition ob_view :: "order_book \<Rightarrow> bool \<Rightarrow> string \<Rightarrow> oref list" where
  "ob_view ob bid = (if bid then bs_view (ob_bids ob) else bs_view (ob_asks ob))"

lemma ob_wf_New [simp]: "ob_wf str mem (NewOrderBook sy)"
  by (simp add: ob_wf_def NewOrderBook_def)

lemma ob_view_upd [simp]:
  "ob_view (ob\<lparr>ob_bids := b\<rparr>) bid = (if bid then bs_view b else ob_view ob bid)"
  "ob_view (ob\<lparr>ob_asks := a\<rparr>) bid = (if bid then ob_view ob bid else bs_view a)"
  by (simp_all add: ob_view_def)

text \<open>
  Adding an order that has a price to a well-formed book succeeds, keeps the book well formed,
  and appends the order at the end of the queue of its own side and price, leaving every other
  queue as it was: within a price, orders rest in arrival order.
\<close>

theorem book_add_appends:
  assumes "ob_wf str mem ob" and "r < length mem" and "bo_price (mem ! r) = Some p"
  shows "\<exists>ob'. ob_AddOrder str mem r ob = Inr ob' \<and> ob_wf str mem ob' \<and>
     (\<forall>bid k. ob_view ob' bid k =
        (if bid = (bo_side (mem ! r) = OrderSideBuy) \<and> k = str p then ob_view ob bid k @ [r]
         else ob_view ob bid k))"
proof -
  have k: "price_key str mem r = Some (str p)" using assms(3) by (simp add: price_key_def)
  show ?thesis
    using side.add_ok [OF _ assms(2) k] assms(1)
    by (cases "bo_side (mem ! r) = OrderSideBuy")
       (fastforce simp: ob_AddOrder_def ob_wf_def ob_view_def)+
qed

text \<open>
  Removing an order that was just added, under an ID no resting order has, finds it and
  restores every queue of the book.
\<close>

theorem book_add_remove_roundtrip:
  assumes wf: "ob_wf str mem ob" and r: "r < length mem" and p: "bo_price (mem ! r) = Some p"
    and fresh: "\<forall>bid k. \<forall>q \<in> set (ob_view ob bid k). bo_id (mem ! q) \<noteq> bo_id (mem ! r)"
  shows "\<exists>ob' ob''. ob_AddOrder str mem r ob = Inr ob' \<and>
           ob_RemoveOrder mem (bo_id (mem ! r)) ob' = (True, ob'') \<and> ob_view ob'' = ob_view ob"
proof -
  have k: "price_key str mem r = Some (str p)" using p by (simp add: price_key_def)
  have fb: "\<forall>k. \<forall>q \<in> set (bs_view (ob_bids ob) k). bo_id (mem ! q) \<noteq> bo_id (mem ! r)"
    and fa: "\<forall>k. \<forall>q \<in> set (bs_view (ob_asks ob) k). bo_id (mem ! q) \<noteq> bo_id (mem ! r)"
    using fresh [rule_format, where bid = True] fresh [rule_format, where bid = False]
    by (auto simp: ob_view_def)
  show ?thesis
  proof (cases "bo_side (mem ! r) = OrderSideBuy")
    case True
    from wf side.add_ok [OF _ r k] obtain b where b: "bs_AddOrder str mem r (ob_bids ob) = Inr b"
      by (auto simp: ob_wf_def)
    from side.remove_added [OF _ r k b fb] wf obtain b' where
      "bs_RemoveOrder mem (bo_id (mem ! r)) b = (True, b')" "bs_view b' = bs_view (ob_bids ob)"
      by (auto simp: ob_wf_def)
    with True b show ?thesis
      by (auto simp: ob_AddOrder_def ob_RemoveOrder_def ob_view_def fun_eq_iff)
  next
    case False
    from wf side.add_ok [OF _ r k] obtain a where a: "bs_AddOrder str mem r (ob_asks ob) = Inr a"
      by (auto simp: ob_wf_def)
    from side.remove_added [OF _ r k a fa] wf obtain a' where a':
      "bs_RemoveOrder mem (bo_id (mem ! r)) a = (True, a')" "bs_view a' = bs_view (ob_asks ob)"
      by (auto simp: ob_wf_def)
    obtain c b where rb: "bs_RemoveOrder mem (bo_id (mem ! r)) (ob_bids ob) = (c, b)" by fastforce
    have "\<not> c"
      using side.remove_found_mem [of str mem "ob_bids ob" "bo_id (mem ! r)" b] rb fb wf
      by (cases c) (auto simp: ob_wf_def)
    with rb side.remove_missing [of str mem "ob_bids ob" "bo_id (mem ! r)" b] wf
    have "bs_RemoveOrder mem (bo_id (mem ! r)) (ob_bids ob) = (False, ob_bids ob)"
      by (auto simp: ob_wf_def)
    with False a a' show ?thesis
      by (auto simp: ob_AddOrder_def ob_RemoveOrder_def ob_view_def fun_eq_iff)
  qed
qed

text \<open>
  Which level \<open>RemoveOrder\<close> visits first depends on Go's unspecified map order, but as long as
  order IDs are unique among the resting orders the result does not: for any two enumerations of
  the same map, the same Boolean comes back and the same orders rest afterwards.
\<close>

lemma remove_any_map_order:
  assumes wf: "bs_wf str mem bs" and perm: "mset ls = mset (bs_levels bs)"
    and unique: "\<forall>k k' i j. i < length (bs_view bs k) \<longrightarrow> j < length (bs_view bs k') \<longrightarrow>
       bo_id (mem ! (bs_view bs k ! i)) = bo_id (mem ! (bs_view bs k' ! j)) \<longrightarrow> k = k' \<and> i = j"
  shows "fst (bs_RemoveOrder mem oid (bs\<lparr>bs_levels := ls\<rparr>)) = fst (bs_RemoveOrder mem oid bs) \<and>
         bs_view (snd (bs_RemoveOrder mem oid (bs\<lparr>bs_levels := ls\<rparr>))) =
         bs_view (snd (bs_RemoveOrder mem oid bs))"
proof -
  have same: "set ls = set (bs_levels bs)" using perm by (metis set_mset_mset)
  have d: "distinct (map fst ls)" "distinct (map snd ls)"
    using bs_wfD(1,2) [OF wf] perm by (metis mset_eq_imp_distinct_iff mset_map)+
  have wf': "bs_wf str mem (bs\<lparr>bs_levels := ls\<rparr>)"
    using wf d by (simp add: bs_wf_def same)
  have "map_of ls = map_of (bs_levels bs)"
    using d(1) bs_wfD(1) [OF wf] same by (metis map_of_inject_set)
  then have "bs_view bs = bs_view (bs\<lparr>bs_levels := ls\<rparr>)"
    by (intro ext) (simp add: bs_view_def split: option.splits)
  from side.remove_determined [OF wf wf' this, of oid] unique show ?thesis by simp
qed

text \<open>
  The best ask of a well-formed book is the least price of any ask level ever opened, so no
  resting ask is cheaper than it.
\<close>

theorem best_ask_is_least:
  assumes "ob_wf str mem ob" and "inj str" and "r \<in> set (ob_view ob False k)"
  shows "\<exists>b p. ob_GetBestAsk ob = Some b \<and> bo_price (mem ! r) = Some p \<and> b \<le> p \<and>
               b \<in> pl_price ` set (bs_store (ob_asks ob))"
  using bs_best_bounds_resting [OF _ assms(2), of mem "ob_asks ob" r k] assms(1,3)
  by (simp add: ob_wf_def ob_view_def ob_GetBestAsk_def)

text \<open>
  C28: the bid side uses the same min-heap, so the "best bid" the book reports is never above any
  resting bid: it is the lowest bid, although the comments announce a max-heap for bids.
\<close>

theorem best_bid_is_lowest:
  assumes "ob_wf str mem ob" and "inj str" and "r \<in> set (ob_view ob True k)"
  shows "\<exists>b p. ob_GetBestBid ob = Some b \<and> bo_price (mem ! r) = Some p \<and> b \<le> p \<and>
               b \<in> pl_price ` set (bs_store (ob_bids ob))"
  using bs_best_bounds_resting [OF _ assms(2), of mem "ob_bids ob" r k] assms(1,3)
  by (simp add: ob_wf_def ob_view_def ob_GetBestBid_def)

text \<open>
  Removing an order never changes the best bid, the best ask or the spread, even when it was
  the last order of the best level: the heap keeps levels the map has dropped.
\<close>

theorem remove_keeps_best_prices:
  "ob_GetBestBid (snd (ob_RemoveOrder mem oid ob)) = ob_GetBestBid ob \<and>
   ob_GetBestAsk (snd (ob_RemoveOrder mem oid ob)) = ob_GetBestAsk ob \<and>
   ob_GetSpread (snd (ob_RemoveOrder mem oid ob)) = ob_GetSpread ob"
proof -
  have best: "bs_GetBestPrice (snd (bs_RemoveOrder mem oid bs)) = bs_GetBestPrice bs" for bs
    by (simp add: bs_GetBestPrice_def bs_RemoveOrder_heap bs_RemoveOrder_prices)
  have "ob_GetBestBid (snd (ob_RemoveOrder mem oid ob)) = ob_GetBestBid ob"
    and "ob_GetBestAsk (snd (ob_RemoveOrder mem oid ob)) = ob_GetBestAsk ob"
    using best [of "ob_bids ob"] best [of "ob_asks ob"]
    by (auto simp: ob_GetBestBid_def ob_GetBestAsk_def ob_RemoveOrder_def split: prod.splits bool.splits)
  then show ?thesis by (simp add: ob_GetSpread_def)
qed

section \<open>A sample book\<close>

definition sample_order :: "uuid \<Rightarrow> uuid \<Rightarrow> order_side \<Rightarrow> decimal \<Rightarrow> decimal \<Rightarrow> book_order" where
  "sample_order i u sd p q =
     \<lparr>bo_id = i, bo_user = u, bo_symbol = SymbolBTCUSD, bo_side = sd, bo_type = OrderTypeLimit,
      bo_price = Some p, bo_qty = q, bo_filled = 0, bo_status = OrderStatusNew, bo_created_at = 0\<rparr>"

lemma sample_order_sel [simp]:
  "bo_id (sample_order i u sd p q) = i" "bo_user (sample_order i u sd p q) = u"
  "bo_side (sample_order i u sd p q) = sd" "bo_price (sample_order i u sd p q) = Some p"
  "bo_qty (sample_order i u sd p q) = q" "bo_filled (sample_order i u sd p q) = 0"
  "bo_type (sample_order i u sd p q) = OrderTypeLimit"
  by (simp_all add: sample_order_def)

text \<open>Two asks at 100, one bid at 90 and three at 80.\<close>

definition sample_mem :: omem where
  "sample_mem =
     [sample_order 101 1 OrderSideSell 100 5, sample_order 102 2 OrderSideSell 100 3,
      sample_order 103 1 OrderSideBuy 90 4,
      sample_order 104 1 OrderSideBuy 80 2, sample_order 105 2 OrderSideBuy 80 3,
      sample_order 106 3 OrderSideBuy 80 4]"

definition sample_book :: order_book where
  "sample_book = \<lparr>ob_symbol = SymbolBTCUSD,
     ob_bids = \<lparr>bs_levels = [(sample_str 90, 0), (sample_str 80, 1)], bs_heap = [1, 0],
                bs_store = [\<lparr>pl_price = 90, pl_orders = [2]\<rparr>, \<lparr>pl_price = 80, pl_orders = [3, 4, 5]\<rparr>]\<rparr>,
     ob_asks = \<lparr>bs_levels = [(sample_str 100, 0)], bs_heap = [0],
                bs_store = [\<lparr>pl_price = 100, pl_orders = [0, 1]\<rparr>]\<rparr>\<rparr>"

lemma sample_str_eq [simp]: "sample_str x = sample_str y \<longleftrightarrow> x = y"
  by (rule inj_eq [OF inj_sample_str])

lemma less_two: "l < Suc (Suc 0) \<longleftrightarrow> l = 0 \<or> l = 1"
  by auto

lemma sample_book_wf: "ob_wf sample_str sample_mem sample_book"
  by (auto simp: ob_wf_def bs_wf_def sample_book_def sample_mem_def price_at_def price_key_def is_heap_def
      less_two)

lemma sample_views:
  "ob_view sample_book False (sample_str 100) = [0, 1]" "ob_view sample_book True (sample_str 90) = [2]"
  "ob_view sample_book True (sample_str 80) = [3, 4, 5]"
  by (simp_all add: ob_view_def bs_view_def sample_book_def)

lemma sample_view_refs: "q \<in> set (ob_view sample_book bid k) \<Longrightarrow> q \<in> {0, 1, 2, 3, 4, 5}"
  by (auto simp: ob_view_def bs_view_def sample_book_def split: if_splits)

section \<open>The properties on the sample book\<close>

definition more_mem :: omem where
  "more_mem = sample_mem @ [sample_order 107 4 OrderSideSell 100 1]"

lemma more_mem_wf: "ob_wf sample_str more_mem sample_book"
  by (auto simp: ob_wf_def bs_wf_def sample_book_def sample_mem_def more_mem_def price_at_def price_key_def
      is_heap_def less_two)

lemma book_add_appends_witness:
  "\<exists>ob'. ob_AddOrder sample_str more_mem 6 sample_book = Inr ob' \<and>
     ob_view ob' False (sample_str 100) = [0, 1, 6] \<and> ob_view ob' True (sample_str 90) = [2]"
proof -
  have at: "more_mem ! 6 = sample_order 107 4 OrderSideSell 100 1" "length more_mem = 7"
    by (simp_all add: more_mem_def sample_mem_def)
  show ?thesis
    using book_add_appends [OF more_mem_wf, of 6 100] by (auto simp: at sample_views)
qed

lemma book_add_remove_witness:
  "\<exists>ob' ob''. ob_AddOrder sample_str more_mem 6 sample_book = Inr ob' \<and>
     ob_RemoveOrder more_mem 107 ob' = (True, ob'') \<and> ob_view ob'' = ob_view sample_book"
proof -
  have at: "more_mem ! 6 = sample_order 107 4 OrderSideSell 100 1" "length more_mem = 7"
    by (simp_all add: more_mem_def sample_mem_def)
  have "\<forall>bid k. \<forall>q \<in> set (ob_view sample_book bid k). bo_id (more_mem ! q) \<noteq> bo_id (more_mem ! 6)"
    using sample_view_refs by (fastforce simp: more_mem_def sample_mem_def)
  then show ?thesis
    using book_add_remove_roundtrip [OF more_mem_wf, of 6 100] by (simp add: at)
qed

lemma best_ask_witness:
  "\<exists>b p. ob_GetBestAsk sample_book = Some b \<and> bo_price (sample_mem ! 1) = Some p \<and> b \<le> p"
  using best_ask_is_least [OF sample_book_wf inj_sample_str, of 1 "sample_str 100"]
  by (auto simp: sample_views)

lemma sample_best_bid: "ob_GetBestBid sample_book = Some 80"
  by (simp add: ob_GetBestBid_def bs_GetBestPrice_def ph_top_def ph_Len_def sample_book_def price_at_def)

lemma best_bid_witness:
  "ob_GetBestBid sample_book = Some 80 \<and>
   (\<exists>b p. ob_GetBestBid sample_book = Some b \<and> bo_price (sample_mem ! 2) = Some p \<and> b \<le> p)"
  using best_bid_is_lowest [OF sample_book_wf inj_sample_str, of 2 "sample_str 90"] sample_best_bid
  by (auto simp: sample_views)

end
