(* ===== verification/Matching.thy ===== *)
theory Matching
  imports OrderBook
begin

text \<open>
  \<open>OrderBook.MatchOrder\<close> of \<open>internal/limitbook/orderbook.go\<close>.

  The inner loop ranges over \<open>level.Orders\<close> while it deletes from it. Go evaluates the range
  expression once, so the loop visits the indices of the original slice, but the deletion
  \<open>append(level.Orders[:i], level.Orders[i+1:]...)\<close> shifts the shared backing array under it. The
  model keeps the backing array and the current length of \<open>level.Orders\<close> apart, and a deletion
  whose index lies past that length is the run-time panic it is in Go.

  The outer loop returns to the level at the top of the heap until nothing remains to fill. It may
  not end, so it is a partial function whose value \<open>None\<close> is "does not return". The \<open>n\<close>-th trade
  of a call gets the ID \<open>newid n\<close> and the time \<open>now n\<close>. The taker is passed by value and returned:
  no other reference to it exists while it is being matched.
\<close>

section \<open>The inner loop\<close>

record match_st =
  ms_order :: book_order
  ms_mem :: omem
  ms_trades :: "trade list"
  ms_rem :: decimal

definition open_qty :: "book_order \<Rightarrow> decimal" where
  "open_qty r = bo_qty r - bo_filled r"

definition do_fill :: "(nat \<Rightarrow> uuid) \<Rightarrow> (nat \<Rightarrow> timestamp) \<Rightarrow> decimal \<Rightarrow> oref \<Rightarrow> match_st \<Rightarrow> match_st" where
  "do_fill newid now lp q st =
     (let maker = ms_mem st ! q;
          taker = ms_order st;
          fillQty = min (ms_rem st) (open_qty maker);
          n = length (ms_trades st);
          t = \<lparr>tr_id = newid n, tr_symbol = bo_symbol taker, tr_side = bo_side taker, tr_price = lp,
               tr_qty = fillQty, tr_taker = bo_user taker, tr_maker = bo_user maker,
               tr_created_at = now n\<rparr>
      in st\<lparr>ms_trades := ms_trades st @ [t],
            ms_order := taker\<lparr>bo_filled := bo_filled taker + fillQty\<rparr>,
            ms_mem := (ms_mem st)[q := maker\<lparr>bo_filled := bo_filled maker + fillQty\<rparr>],
            ms_rem := ms_rem st - fillQty\<rparr>)"

definition set_status :: "oref \<Rightarrow> order_status \<Rightarrow> match_st \<Rightarrow> match_st" where
  "set_status q s st = st\<lparr>ms_mem := (ms_mem st)[q := (ms_mem st ! q)\<lparr>bo_status := s\<rparr>]\<rparr>"

text \<open>
  \<open>append(s[:i], s[i+1:]...)\<close> inside the backing array \<open>arr\<close> of a slice of length \<open>len\<close>: the
  elements after \<open>i\<close> move down by one, the last slot keeps its old value.
\<close>

definition shift_down :: "nat \<Rightarrow> nat \<Rightarrow> 'a list \<Rightarrow> 'a list" where
  "shift_down i len arr = take i arr @ drop (Suc i) (take len arr) @ drop (len - 1) arr"

fun match_orders ::
  "(nat \<Rightarrow> uuid) \<Rightarrow> (nat \<Rightarrow> timestamp) \<Rightarrow> decimal \<Rightarrow> nat list \<Rightarrow> oref list \<Rightarrow> nat \<Rightarrow> match_st \<Rightarrow>
   panic option \<times> oref list \<times> nat \<times> match_st" where
  "match_orders newid now lp [] arr len st = (None, arr, len, st)"
| "match_orders newid now lp (i # is) arr len st =
     (if ms_rem st \<le> 0 then (None, arr, len, st)
      else
        let q = arr ! i in
        if open_qty (ms_mem st ! q) \<le> 0 then match_orders newid now lp is arr len st
        else
          let st1 = do_fill newid now lp q st;
              maker = ms_mem st1 ! q in
          if bo_filled maker = bo_qty maker then
            if len < Suc i then (Some SliceBounds, arr, len, st1)
            else match_orders newid now lp is (shift_down i len arr) (len - 1)
                   (set_status q OrderStatusFilled st1)
          else match_orders newid now lp is arr len
                 (set_status q OrderStatusPartiallyFilled st1))"

section \<open>The outer loop\<close>

text \<open>One visit of the level at the top of the heap.\<close>

definition match_level ::
  "(nat \<Rightarrow> uuid) \<Rightarrow> (nat \<Rightarrow> timestamp) \<Rightarrow> lref \<Rightarrow> book_side \<Rightarrow> match_st \<Rightarrow>
   panic option \<times> book_side \<times> match_st" where
  "match_level newid now l side st =
     (let os = pl_orders (bs_store side ! l) in
      case match_orders newid now (price_at (bs_store side) l) [0..<length os] os (length os) st of
        (pn, arr, len, st') \<Rightarrow>
          let side1 = set_orders l (take len arr) side in
          (pn,
           if pn = None \<and> take len arr = [] then snd (bs_RemoveOrder (ms_mem st') uuid_nil side1)
           else side1,
           st'))"

text \<open>The price check: a buy stops above its limit, a sell below it.\<close>

definition price_blocks :: "bool \<Rightarrow> book_order \<Rightarrow> decimal \<Rightarrow> bool" where
  "price_blocks buy r lp \<longleftrightarrow>
     bo_type r = OrderTypeLimit \<and>
     (case bo_price r of None \<Rightarrow> False | Some p \<Rightarrow> if buy then lp > p else lp < p)"

partial_function (option) match_loop ::
  "(nat \<Rightarrow> uuid) \<Rightarrow> (nat \<Rightarrow> timestamp) \<Rightarrow> bool \<Rightarrow> book_side \<Rightarrow> match_st \<Rightarrow>
   (panic option \<times> book_side \<times> match_st) option" where
  "match_loop newid now buy side st =
     (if ms_rem st > 0 then
        (case bs_GetBestLevel side of
           None \<Rightarrow> Some (None, side, st)
         | Some l \<Rightarrow>
             if price_blocks buy (ms_order st) (price_at (bs_store side) l)
             then Some (None, side, st)
             else (case match_level newid now l side st of
                     (pn, side', st') \<Rightarrow>
                       if pn = None then match_loop newid now buy side' st'
                       else Some (pn, side', st')))
      else Some (None, side, st))"

record match_result =
  mr_panic :: "panic option"
  mr_trades :: "trade list"
  mr_order :: book_order
  mr_mem :: omem
  mr_book :: order_book

text \<open>The status update after the loops.\<close>

definition final_status :: "book_order \<Rightarrow> book_order" where
  "final_status r =
     (if bo_filled r = bo_qty r then r\<lparr>bo_status := OrderStatusFilled\<rparr>
      else if bo_filled r > 0 then r\<lparr>bo_status := OrderStatusPartiallyFilled\<rparr>
      else r)"

definition MatchOrder ::
  "(nat \<Rightarrow> uuid) \<Rightarrow> (nat \<Rightarrow> timestamp) \<Rightarrow> omem \<Rightarrow> book_order \<Rightarrow> order_book \<Rightarrow> match_result option" where
  "MatchOrder newid now mem order ob =
     (let buy = (bo_side order = OrderSideBuy);
          st0 = \<lparr>ms_order = order, ms_mem = mem, ms_trades = [], ms_rem = bo_qty order - bo_filled order\<rparr> in
      case match_loop newid now buy (if buy then ob_asks ob else ob_bids ob) st0 of
        None \<Rightarrow> None
      | Some (pn, side, st) \<Rightarrow>
          Some \<lparr>mr_panic = pn,
                mr_trades = (if pn = None then ms_trades st else []),
                mr_order = (if pn = None then final_status (ms_order st) else ms_order st),
                mr_mem = ms_mem st,
                mr_book = (if buy then ob\<lparr>ob_asks := side\<rparr> else ob\<lparr>ob_bids := side\<rparr>)\<rparr>)"

section \<open>What a stretch of matching does\<close>

text \<open>
  \<open>same_order r r'\<close>: the same order but for its filled quantity and status, with a fill that only
  grows and never passes the quantity.
\<close>

definition same_order :: "book_order \<Rightarrow> book_order \<Rightarrow> bool" where
  "same_order r r' \<longleftrightarrow>
     r' = r\<lparr>bo_filled := bo_filled r', bo_status := bo_status r'\<rparr> \<and>
     bo_filled r \<le> bo_filled r' \<and> (bo_filled r' = bo_filled r \<or> bo_filled r' \<le> bo_qty r)"

lemma same_orderD:
  assumes "same_order r r'"
  shows "bo_id r' = bo_id r" "bo_user r' = bo_user r" "bo_symbol r' = bo_symbol r"
    "bo_side r' = bo_side r" "bo_type r' = bo_type r" "bo_price r' = bo_price r"
    "bo_qty r' = bo_qty r" "bo_filled r \<le> bo_filled r'"
    "bo_filled r' = bo_filled r \<or> bo_filled r' \<le> bo_qty r"
proof -
  have eq: "r' = r\<lparr>bo_filled := bo_filled r', bo_status := bo_status r'\<rparr>"
    using assms unfolding same_order_def by blast
  show "bo_id r' = bo_id r" "bo_user r' = bo_user r" "bo_symbol r' = bo_symbol r"
    "bo_side r' = bo_side r" "bo_type r' = bo_type r" "bo_price r' = bo_price r"
    "bo_qty r' = bo_qty r" by (subst eq, simp)+
  show "bo_filled r \<le> bo_filled r'" "bo_filled r' = bo_filled r \<or> bo_filled r' \<le> bo_qty r"
    using assms unfolding same_order_def by blast+
qed

lemma same_order_refl [simp]: "same_order r r"
  by (simp add: same_order_def)

lemma same_order_trans: "same_order a b \<Longrightarrow> same_order b c \<Longrightarrow> same_order a c"
  by (cases a; cases b; cases c) (auto simp: same_order_def)

definition trade_total :: "trade list \<Rightarrow> decimal" where
  "trade_total ts = sum_list (map tr_qty ts)"

definition filled_total :: "omem \<Rightarrow> decimal" where
  "filled_total mem = sum_list (map bo_filled mem)"

lemma trade_total_simps [simp]:
  "trade_total [] = 0" "trade_total (ts @ us) = trade_total ts + trade_total us"
  "trade_total (t # ts) = tr_qty t + trade_total ts"
  by (simp_all add: trade_total_def)

text \<open>
  The trades a stretch of matching appends are positive fills at the level's price with the taker's
  data; the taker's fill, the makers' fills and the remaining quantity all move by their total.
\<close>

definition trade_for :: "decimal \<Rightarrow> book_order \<Rightarrow> trade \<Rightarrow> bool" where
  "trade_for lp taker t \<longleftrightarrow>
     tr_price t = lp \<and> 0 < tr_qty t \<and> tr_side t = bo_side taker \<and> tr_symbol t = bo_symbol taker \<and>
     tr_taker t = bo_user taker"

definition match_rel :: "decimal \<Rightarrow> oref set \<Rightarrow> trade list \<Rightarrow> match_st \<Rightarrow> match_st \<Rightarrow> bool" where
  "match_rel lp S ts st st' \<longleftrightarrow>
     ms_trades st' = ms_trades st @ ts \<and> (\<forall>t \<in> set ts. trade_for lp (ms_order st) t) \<and>
     ms_order st' = (ms_order st)\<lparr>bo_filled := bo_filled (ms_order st) + trade_total ts\<rparr> \<and>
     ms_rem st' = ms_rem st - trade_total ts \<and>
     filled_total (ms_mem st') = filled_total (ms_mem st) + trade_total ts \<and>
     length (ms_mem st') = length (ms_mem st) \<and>
     (\<forall>q < length (ms_mem st). same_order (ms_mem st ! q) (ms_mem st' ! q)) \<and>
     (\<forall>q. q \<notin> S \<longrightarrow> ms_mem st' ! q = ms_mem st ! q) \<and>
     (0 \<le> ms_rem st \<longrightarrow> 0 \<le> ms_rem st')"

lemma match_rel_refl [simp]: "match_rel lp S [] st st"
  by (simp add: match_rel_def)

lemma match_rel_trans:
  assumes "match_rel lp S ts a b" and "match_rel lp S us b c"
  shows "match_rel lp S (ts @ us) a c"
proof -
  have "same_order (ms_mem a ! q) (ms_mem c ! q)" if "q < length (ms_mem a)" for q
    using assms that same_order_trans unfolding match_rel_def by metis
  then show ?thesis using assms by (auto simp: match_rel_def trade_for_def)
qed

lemma match_rel_mono: "match_rel lp S ts a b \<Longrightarrow> S \<subseteq> T \<Longrightarrow> match_rel lp T ts a b"
  unfolding match_rel_def by blast

lemma match_rel_status:
  assumes "q < length (ms_mem st)" and "q \<in> S"
  shows "match_rel lp S [] st (set_status q s st)"
  using assms
  by (auto simp: match_rel_def set_status_def filled_total_def sum_list_map_upd_eq same_order_def
      nth_list_update)

lemma match_rel_fill:
  assumes q: "q < length (ms_mem st)" and S: "q \<in> S" and rem: "0 < ms_rem st" and opn: "0 < open_qty (ms_mem st ! q)"
  shows "\<exists>t. tr_qty t = min (ms_rem st) (open_qty (ms_mem st ! q)) \<and> match_rel lp S [t] st (do_fill newid now lp q st)"
  using assms
  by (auto simp: match_rel_def do_fill_def Let_def trade_for_def filled_total_def sum_list_update_rat
      same_order_def nth_list_update open_qty_def min_def)

lemma set_shift_down: "set (shift_down i len arr) \<subseteq> set arr"
  unfolding shift_down_def by (auto dest: in_set_takeD in_set_dropD)

lemma length_shift_down: "i < len \<Longrightarrow> len \<le> length arr \<Longrightarrow> length (shift_down i len arr) = length arr"
  by (simp add: shift_down_def)

text \<open>
  The inner loop only ever does fills and status updates, keeps the backing array's length and
  never grows the slice.
\<close>

lemma match_orders_rel:
  assumes "match_orders newid now lp is arr len st = (pn, arr', len', st')"
    and "\<forall>q \<in> set arr. q < length (ms_mem st) \<and> q \<in> S" and "\<forall>i \<in> set is. i < length arr" and "len \<le> length arr"
  shows "\<exists>ts. match_rel lp S ts st st' \<and> set arr' \<subseteq> set arr \<and> length arr' = length arr \<and> len' \<le> len"
  using assms
proof (induction newid now lp "is" arr len st rule: match_orders.induct)
  case (2 newid now lp i "is" arr len st)
  let ?q = "arr ! i"
  let ?st1 = "do_fill newid now lp ?q st"
  have q: "?q < length (ms_mem st)" and S: "?q \<in> S" using "2.prems" by auto
  consider (stop) "ms_rem st \<le> 0"
    | (skip) "0 < ms_rem st" "open_qty (ms_mem st ! ?q) \<le> 0"
    | (fill) "0 < ms_rem st" "0 < open_qty (ms_mem st ! ?q)" by linarith
  then show ?case
  proof cases
    case stop
    then show ?thesis using "2.prems"(1) by (auto intro: exI [of _ "[]"])
  next
    case skip
    then show ?thesis using "2.IH"(1) "2.prems" by (auto simp: Let_def)
  next
    case fill
    from match_rel_fill [OF q S fill] obtain t where f: "match_rel lp S [t] st ?st1" by blast
    then have len1: "length (ms_mem ?st1) = length (ms_mem st)" by (simp add: match_rel_def)
    have step: "match_rel lp S [t] st (set_status ?q s ?st1)" for s
      using match_rel_trans [OF f match_rel_status] q S len1 by simp
    then have lens: "length (ms_mem (set_status ?q s ?st1)) = length (ms_mem st)" for s
      by (simp add: match_rel_def)
    show ?thesis
    proof (cases "bo_filled (ms_mem ?st1 ! ?q) = bo_qty (ms_mem ?st1 ! ?q)")
      case True
      show ?thesis
      proof (cases "len < Suc i")
        case True
        with fill \<open>bo_filled _ = _\<close> "2.prems"(1) have "arr' = arr" "len' = len" "st' = ?st1"
          by (auto simp: Let_def)
        with f show ?thesis by blast
      next
        case False
        then have arr: "length (shift_down i len arr) = length arr"
          using "2.prems"(4) by (intro length_shift_down) auto
        from False fill \<open>bo_filled _ = _\<close> "2.prems"(1)
        have rest: "match_orders newid now lp is (shift_down i len arr) (len - 1)
            (set_status ?q OrderStatusFilled ?st1) = (pn, arr', len', st')"
          by (auto simp: Let_def)
        have refs: "\<forall>q \<in> set (shift_down i len arr).
            q < length (ms_mem (set_status ?q OrderStatusFilled ?st1)) \<and> q \<in> S"
          using "2.prems"(2) set_shift_down [of i len arr] lens by auto
        have idx: "\<forall>i' \<in> set is. i' < length (shift_down i len arr)" "len - 1 \<le> length (shift_down i len arr)"
          using "2.prems"(3,4) arr by auto
        from "2.IH"(2) [OF _ refl _ refl refl True False rest refs idx] fill \<open>bo_filled _ = _\<close>
        obtain ts where "match_rel lp S ts (set_status ?q OrderStatusFilled ?st1) st'"
          "set arr' \<subseteq> set arr" "length arr' = length arr" "len' \<le> len"
          using set_shift_down [of i len arr] arr by fastforce
        with match_rel_trans [OF step] show ?thesis by blast
      qed
    next
      case False
      with fill "2.prems"(1) have rest: "match_orders newid now lp is arr len
          (set_status ?q OrderStatusPartiallyFilled ?st1) = (pn, arr', len', st')"
        by (auto simp: Let_def)
      from "2.IH"(3) [OF _ refl _ refl refl False rest] fill "2.prems" lens
      obtain ts where "match_rel lp S ts (set_status ?q OrderStatusPartiallyFilled ?st1) st'"
        "set arr' \<subseteq> set arr" "length arr' = length arr" "len' \<le> len" by (auto simp: not_le)
      with match_rel_trans [OF step] show ?thesis by blast
    qed
  qed
qed (auto intro: exI [of _ "[]"])

lemma match_rel_price:
  "match_rel lp S ts st st' \<Longrightarrow> q < length (ms_mem st) \<Longrightarrow> bo_price (ms_mem st' ! q) = bo_price (ms_mem st ! q)"
  unfolding match_rel_def using same_orderD(6) by blast

lemma match_rel_wf:
  assumes "match_rel lp S ts st st'"
  shows "bs_wf str (ms_mem st') bs \<longleftrightarrow> bs_wf str (ms_mem st) bs"
proof (rule bs_wf_mem_cong)
  show "length (ms_mem st') = length (ms_mem st)" using assms by (simp add: match_rel_def)
qed (rule match_rel_price [OF assms])

lemma match_rel_blocks:
  "match_rel lp S ts st st' \<Longrightarrow> price_blocks buy (ms_order st') p = price_blocks buy (ms_order st) p"
  by (simp add: match_rel_def price_blocks_def)

text \<open>\<open>same_prices\<close>: the heap and the prices of the levels, which matching never changes.\<close>

definition same_prices :: "book_side \<Rightarrow> book_side \<Rightarrow> bool" where
  "same_prices a b \<longleftrightarrow> bs_heap b = bs_heap a \<and> length (bs_store b) = length (bs_store a) \<and>
     price_at (bs_store b) = price_at (bs_store a)"

lemma same_prices_refl [simp]: "same_prices a a"
  by (simp add: same_prices_def)

lemma same_prices_trans: "same_prices a b \<Longrightarrow> same_prices b c \<Longrightarrow> same_prices a c"
  by (simp add: same_prices_def)

lemma same_prices_best: "same_prices a b \<Longrightarrow> bs_GetBestLevel b = bs_GetBestLevel a"
  by (simp add: same_prices_def bs_GetBestLevel_def)

lemma match_level_rel:
  assumes ml: "match_level newid now l side st = (pn, side', st')"
    and wf: "bs_wf str (ms_mem st) side" and l: "l < length (bs_store side)"
  shows "\<exists>ts. match_rel (price_at (bs_store side) l) (set (pl_orders (bs_store side ! l))) ts st st' \<and>
              bs_wf str (ms_mem st') side' \<and> same_prices side side' \<and>
              set (pl_orders (bs_store side' ! l)) \<subseteq> set (pl_orders (bs_store side ! l))"
proof -
  let ?os = "pl_orders (bs_store side ! l)"
  let ?lp = "price_at (bs_store side) l"
  obtain arr len where mo: "match_orders newid now ?lp [0..<length ?os] ?os (length ?os) st = (pn, arr, len, st')"
    and side': "side' = (let side1 = set_orders l (take len arr) side in
       if pn = None \<and> take len arr = [] then snd (bs_RemoveOrder (ms_mem st') uuid_nil side1) else side1)"
    using ml by (auto simp: match_level_def Let_def split: prod.splits)
  have "\<forall>q \<in> set ?os. q < length (ms_mem st) \<and> q \<in> set ?os" using bs_wfD(7) [OF wf l] by blast
  from match_orders_rel [OF mo this] obtain ts where ts: "match_rel ?lp (set ?os) ts st st'"
    "set arr \<subseteq> set ?os" "length arr = length ?os" by auto
  let ?side1 = "set_orders l (take len arr) side"
  have "bs_wf str (ms_mem st') ?side1"
  proof (rule bs_wf_set_orders)
    show wf': "bs_wf str (ms_mem st') side" using wf match_rel_wf [OF ts(1)] by simp
    show "r < length (ms_mem st') \<and> price_key str (ms_mem st') r = Some (str ?lp)"
      if "r \<in> set (take len arr)" for r
      using bs_wfD(7) [OF wf' l] that ts(2) by (auto dest: in_set_takeD)
    show "take len arr = []" if "l \<notin> snd ` set (bs_levels side)"
      using bs_wfD(8) [OF wf l that] ts(3) by simp
  qed
  moreover have "same_prices side ?side1" by (simp add: same_prices_def)
  moreover have "set (pl_orders (bs_store ?side1 ! l)) \<subseteq> set ?os"
    using ts(2) l by (auto simp: set_orders_nth dest: in_set_takeD)
  ultimately show ?thesis
    using ts(1) l bs_RemoveOrder_refines [of str "ms_mem st'" ?side1 uuid_nil]
      bs_RemoveOrder_heap [of "ms_mem st'" uuid_nil ?side1]
      bs_RemoveOrder_prices [of "ms_mem st'" uuid_nil ?side1]
      bs_RemoveOrder_store_length [of "ms_mem st'" uuid_nil ?side1]
      bs_RemoveOrder_shrinks [of l ?side1 "ms_mem st'" uuid_nil]
    unfolding side' Let_def same_prices_def
    by (cases "bs_RemoveOrder (ms_mem st') uuid_nil ?side1") (auto simp del: set_orders_simps(1,2))
qed

text \<open>
  The whole loop, when it returns: one stretch of matching at the price of the best level, which
  ends normally only with nothing left to fill, no level, or a blocked price.
\<close>

definition loop_post ::
  "(decimal \<Rightarrow> string) \<Rightarrow> bool \<Rightarrow> book_side \<Rightarrow> match_st \<Rightarrow> panic option \<times> book_side \<times> match_st \<Rightarrow> bool" where
  "loop_post str buy side st r \<longleftrightarrow>
     (case r of (pn, side', st') \<Rightarrow>
        bs_wf str (ms_mem st') side' \<and> same_prices side side' \<and>
        (case bs_GetBestLevel side of
           None \<Rightarrow> pn = None \<and> st' = st
         | Some l \<Rightarrow>
             let lp = price_at (bs_store side) l in
             (\<exists>ts. match_rel lp (set (pl_orders (bs_store side ! l))) ts st st' \<and>
                (price_blocks buy (ms_order st) lp \<longrightarrow> ts = [])) \<and>
             (pn = None \<longrightarrow> ms_rem st' \<le> 0 \<or> price_blocks buy (ms_order st) lp)))"

lemma loop_post_stop:
  assumes "bs_wf str (ms_mem st) side"
    and "\<And>l. bs_GetBestLevel side = Some l \<Longrightarrow>
      ms_rem st \<le> 0 \<or> price_blocks buy (ms_order st) (price_at (bs_store side) l)"
  shows "loop_post str buy side st (None, side, st)"
  using assms by (auto simp: loop_post_def Let_def split: option.splits intro: exI [of _ "[]"])

lemma loop_post_step:
  assumes wf: "bs_wf str (ms_mem st) side" and l: "bs_GetBestLevel side = Some l"
    and nb: "\<not> price_blocks buy (ms_order st) (price_at (bs_store side) l)"
    and ml: "match_level newid now l side st = (pn, side', st')"
    and rest: "pn = None \<Longrightarrow> bs_wf str (ms_mem st') side' \<Longrightarrow> loop_post str buy side' st' r"
    and r: "pn \<noteq> None \<Longrightarrow> r = (pn, side', st')"
  shows "loop_post str buy side st r"
proof -
  let ?S = "set (pl_orders (bs_store side ! l))"
  let ?lp = "price_at (bs_store side) l"
  have "l < length (bs_store side)" using ph_top_wf(1) [OF wf] l by (simp add: bs_GetBestLevel_def)
  from match_level_rel [OF ml wf this] obtain ts
    where ts: "match_rel ?lp ?S ts st st'" "bs_wf str (ms_mem st') side'"
      "same_prices side side'" "set (pl_orders (bs_store side' ! l)) \<subseteq> ?S" by blast
  show ?thesis
  proof (cases "pn = None")
    case True
    obtain pn2 side2 st2 where r2: "r = (pn2, side2, st2)" by (cases r)
    have eq: "bs_GetBestLevel side' = Some l" "price_at (bs_store side') = price_at (bs_store side)"
      using same_prices_best [OF ts(3)] l ts(3) by (auto simp: same_prices_def)
    from rest [OF True ts(2)] obtain us
      where us: "match_rel ?lp (set (pl_orders (bs_store side' ! l))) us st' st2"
        "bs_wf str (ms_mem st2) side2" "same_prices side' side2"
        "pn2 = None \<longrightarrow> ms_rem st2 \<le> 0 \<or> price_blocks buy (ms_order st') ?lp"
      by (auto simp: loop_post_def r2 eq Let_def)
    show ?thesis
      using match_rel_trans [OF ts(1) match_rel_mono [OF us(1) ts(4)]] us(2,4)
        same_prices_trans [OF ts(3) us(3)] l nb match_rel_blocks [OF ts(1), of buy]
      by (auto simp: loop_post_def r2 Let_def)
  next
    case False
    with r have "r = (pn, side', st')" by simp
    with ts l nb False show ?thesis by (auto simp: loop_post_def Let_def)
  qed
qed

lemma match_loop_post:
  assumes ret: "match_loop newid now buy side st = Some r" and wf: "bs_wf str (ms_mem st) side"
  shows "loop_post str buy side st r"
proof -
  have "bs_wf str (ms_mem st) side \<longrightarrow> loop_post str buy side st r"
  proof (rule match_loop.raw_induct [where P = "\<lambda>newid now buy side st r.
      bs_wf str (ms_mem st) side \<longrightarrow> loop_post str buy side st r", OF _ ret], intro impI)
    fix f newid now buy side st r
    assume IH: "\<And>newid now buy side st r. f newid now buy side st = Some r \<Longrightarrow>
        bs_wf str (ms_mem st) side \<longrightarrow> loop_post str buy side st r"
      and eq: "(if ms_rem st > 0 then
        (case bs_GetBestLevel side of
           None \<Rightarrow> Some (None, side, st)
         | Some l \<Rightarrow>
             if price_blocks buy (ms_order st) (price_at (bs_store side) l)
             then Some (None, side, st)
             else (case match_level newid now l side st of
                     (pn, side', st') \<Rightarrow>
                       if pn = None then f newid now buy side' st'
                       else Some (pn, side', st')))
        else Some (None, side, st)) = Some r"
      and wf: "bs_wf str (ms_mem st) side"
    show "loop_post str buy side st r"
    proof (cases "ms_rem st > 0 \<and> bs_GetBestLevel side \<noteq> None \<and>
        \<not> price_blocks buy (ms_order st) (price_at (bs_store side) (the (bs_GetBestLevel side)))")
      case False
      with eq have "r = (None, side, st)" by (auto split: if_splits option.splits)
      with False wf show ?thesis by (auto intro: loop_post_stop)
    next
      case True
      then obtain l where l: "bs_GetBestLevel side = Some l" by auto
      obtain pn side' st' where ml: "match_level newid now l side st = (pn, side', st')"
        by (cases "match_level newid now l side st")
      from eq True l ml have eq': "(if pn = None then f newid now buy side' st' else Some (pn, side', st')) = Some r"
        by simp
      show ?thesis
        by (rule loop_post_step [OF wf l _ ml]) (use True l eq' IH in \<open>auto split: if_splits\<close>)
    qed
  qed
  with wf show ?thesis by blast
qed

section \<open>MatchOrder as a whole\<close>

definition opposite :: "book_order \<Rightarrow> order_book \<Rightarrow> book_side" where
  "opposite r ob = (if bo_side r = OrderSideBuy then ob_asks ob else ob_bids ob)"

definition remaining :: "book_order \<Rightarrow> decimal" where
  "remaining r = bo_qty r - bo_filled r"

definition start_st :: "omem \<Rightarrow> book_order \<Rightarrow> match_st" where
  "start_st mem r = \<lparr>ms_order = r, ms_mem = mem, ms_trades = [], ms_rem = remaining r\<rparr>"

lemma start_st_simps [simp]:
  "ms_order (start_st mem r) = r" "ms_mem (start_st mem r) = mem"
  "ms_trades (start_st mem r) = []" "ms_rem (start_st mem r) = remaining r"
  by (simp_all add: start_st_def)

text \<open>
  The best level of the other side, when the order may trade with it: \<open>crosses r ob l\<close>.
\<close>

definition crosses :: "book_order \<Rightarrow> order_book \<Rightarrow> lref \<Rightarrow> bool" where
  "crosses r ob l \<longleftrightarrow>
     bs_GetBestLevel (opposite r ob) = Some l \<and>
     \<not> price_blocks (bo_side r = OrderSideBuy) r (price_at (bs_store (opposite r ob)) l)"

definition level_orders :: "book_order \<Rightarrow> order_book \<Rightarrow> lref \<Rightarrow> oref list" where
  "level_orders r ob l = pl_orders (bs_store (opposite r ob) ! l)"

definition level_open :: "omem \<Rightarrow> oref list \<Rightarrow> decimal" where
  "level_open mem os = (\<Sum>q \<in> set os. max 0 (open_qty (mem ! q)))"

lemma MatchOrder_loop:
  "MatchOrder newid now mem r ob =
     map_option (\<lambda>(pn, side, st).
       \<lparr>mr_panic = pn,
        mr_trades = (if pn = None then ms_trades st else []),
        mr_order = (if pn = None then final_status (ms_order st) else ms_order st),
        mr_mem = ms_mem st,
        mr_book = (if bo_side r = OrderSideBuy then ob\<lparr>ob_asks := side\<rparr> else ob\<lparr>ob_bids := side\<rparr>)\<rparr>)
     (match_loop newid now (bo_side r = OrderSideBuy) (opposite r ob) (start_st mem r))"
  by (simp add: MatchOrder_def opposite_def start_st_def remaining_def Let_def split: option.split)

lemma final_status_simps [simp]:
  "bo_filled (final_status r) = bo_filled r" "bo_qty (final_status r) = bo_qty r"
  "bo_price (final_status r) = bo_price r" "bo_side (final_status r) = bo_side r"
  "bo_id (final_status r) = bo_id r" "bo_user (final_status r) = bo_user r"
  by (simp_all add: final_status_def)

lemma opposite_wf: "ob_wf str mem ob \<Longrightarrow> bs_wf str mem (opposite r ob)"
  by (simp add: ob_wf_def opposite_def)

lemma MatchOrder_post:
  assumes m: "MatchOrder newid now mem r ob = Some res" and wf: "ob_wf str mem ob"
  obtains side st where
    "loop_post str (bo_side r = OrderSideBuy) (opposite r ob) (start_st mem r) (mr_panic res, side, st)"
    "mr_mem res = ms_mem st"
    "mr_panic res = None \<Longrightarrow> mr_trades res = ms_trades st"
    "mr_panic res = None \<Longrightarrow> mr_order res = final_status (ms_order st)"
    "mr_panic res \<noteq> None \<Longrightarrow> mr_order res = ms_order st"
    "mr_book res = (if bo_side r = OrderSideBuy then ob\<lparr>ob_asks := side\<rparr> else ob\<lparr>ob_bids := side\<rparr>)"
proof -
  obtain pn side st where
    loop: "match_loop newid now (bo_side r = OrderSideBuy) (opposite r ob) (start_st mem r) = Some (pn, side, st)"
    using m by (auto simp: MatchOrder_loop)
  moreover have "loop_post str (bo_side r = OrderSideBuy) (opposite r ob) (start_st mem r) (pn, side, st)"
    by (rule match_loop_post [OF loop]) (simp add: opposite_wf [OF wf])
  moreover have "res = \<lparr>mr_panic = pn,
        mr_trades = (if pn = None then ms_trades st else []),
        mr_order = (if pn = None then final_status (ms_order st) else ms_order st),
        mr_mem = ms_mem st,
        mr_book = (if bo_side r = OrderSideBuy then ob\<lparr>ob_asks := side\<rparr> else ob\<lparr>ob_bids := side\<rparr>)\<rparr>"
    using m loop by (simp add: MatchOrder_loop)
  ultimately show ?thesis using that [of side st] by (cases pn) auto
qed

lemma loop_post_rel:
  assumes "loop_post str buy side st (pn, side', st')"
  obtains lp S ts where "match_rel lp S ts st st'"
    "ts \<noteq> [] \<Longrightarrow> \<exists>l. bs_GetBestLevel side = Some l \<and> lp = price_at (bs_store side) l \<and>
       \<not> price_blocks buy (ms_order st) lp"
proof (cases "bs_GetBestLevel side")
  case None
  with assms have "st' = st" by (simp add: loop_post_def)
  with that [of 0 "{}" "[]"] show ?thesis by simp
next
  case (Some l)
  with assms that show ?thesis by (auto simp: loop_post_def Let_def)
qed

text \<open>Matching keeps the book well formed over the new memory, panics included.\<close>

lemma MatchOrder_wf:
  assumes m: "MatchOrder newid now mem r ob = Some res" and wf: "ob_wf str mem ob"
  shows "ob_wf str (mr_mem res) (mr_book res) \<and> length (mr_mem res) = length mem"
proof -
  from MatchOrder_post [OF m wf] obtain side st where
    post: "loop_post str (bo_side r = OrderSideBuy) (opposite r ob) (start_st mem r) (mr_panic res, side, st)"
    and res: "mr_mem res = ms_mem st"
      "mr_book res = (if bo_side r = OrderSideBuy then ob\<lparr>ob_asks := side\<rparr> else ob\<lparr>ob_bids := side\<rparr>)"
    by metis
  from loop_post_rel [OF post] obtain lp S ts where rel: "match_rel lp S ts (start_st mem r) st" by metis
  have "bs_wf str (ms_mem st) side" using post by (simp add: loop_post_def)
  moreover have "bs_wf str (ms_mem st) bs" if "bs_wf str mem bs" for bs
    using match_rel_wf [OF rel, of str bs] that by simp
  moreover have "length (ms_mem st) = length mem" using rel by (simp add: match_rel_def)
  ultimately show ?thesis using wf res by (simp add: ob_wf_def)
qed

section \<open>Bounds on what one call can trade\<close>

lemma filled_total_diff:
  assumes "length mem' = length mem" and "\<forall>q. q \<notin> S \<longrightarrow> mem' ! q = mem ! q"
    and "finite S" and "\<forall>q < length mem. same_order (mem ! q) (mem' ! q)"
  shows "filled_total mem' - filled_total mem \<le> (\<Sum>q \<in> S. max 0 (open_qty (mem ! q)))"
proof -
  have delta: "bo_filled (mem' ! q) - bo_filled (mem ! q) \<le> max 0 (open_qty (mem ! q))"
    if "q < length mem" for q
    using same_orderD(8,9) [of "mem ! q" "mem' ! q"] assms(4) that by (auto simp: open_qty_def)
  have "filled_total mem' - filled_total mem
      = (\<Sum>q < length mem. bo_filled (mem' ! q) - bo_filled (mem ! q))"
    using assms(1) by (simp add: filled_total_def sum_list_sum_nth sum_subtractf atLeast0LessThan)
  also have "\<dots> = (\<Sum>q \<in> {..<length mem} \<inter> S. bo_filled (mem' ! q) - bo_filled (mem ! q))"
    using assms(2) by (intro sum.mono_neutral_right) auto
  also have "\<dots> \<le> (\<Sum>q \<in> {..<length mem} \<inter> S. max 0 (open_qty (mem ! q)))"
    using delta by (intro sum_mono) auto
  also have "\<dots> \<le> (\<Sum>q \<in> S. max 0 (open_qty (mem ! q)))"
    using assms(3) by (intro sum_mono2) auto
  finally show ?thesis .
qed

lemma match_rel_total_bound:
  assumes "match_rel lp (set os) ts st st'"
  shows "trade_total ts \<le> level_open (ms_mem st) os"
  using filled_total_diff [of "ms_mem st'" "ms_mem st" "set os"] assms
  by (simp add: match_rel_def level_open_def)

lemma crosses_post:
  assumes post: "loop_post str (bo_side r = OrderSideBuy) (opposite r ob) (start_st mem r) (pn, side, st)"
    and c: "crosses r ob l"
  obtains ts where
    "match_rel (price_at (bs_store (opposite r ob)) l) (set (level_orders r ob l)) ts (start_st mem r) st"
    "pn = None \<Longrightarrow> ms_rem st \<le> 0"
  using assms by (auto simp: loop_post_def crosses_def level_orders_def Let_def)

section \<open>Properties: what a returning call has done\<close>

lemma MatchOrder_conserves:
  assumes m: "MatchOrder newid now mem r ob = Some res" and ok: "mr_panic res = None"
    and wf: "ob_wf str mem ob" and le: "bo_filled r \<le> bo_qty r"
  shows "bo_filled (mr_order res) = bo_filled r + trade_total (mr_trades res) \<and>
     filled_total (mr_mem res) = filled_total mem + trade_total (mr_trades res) \<and>
     bo_filled (mr_order res) \<le> bo_qty r \<and>
     length (mr_mem res) = length mem \<and>
     (\<forall>q < length mem. same_order (mem ! q) (mr_mem res ! q))"
proof -
  from MatchOrder_post [OF m wf] ok obtain side st where
    post: "loop_post str (bo_side r = OrderSideBuy) (opposite r ob) (start_st mem r) (None, side, st)"
    and res: "mr_mem res = ms_mem st" "mr_trades res = ms_trades st"
      "mr_order res = final_status (ms_order st)" by metis
  from loop_post_rel [OF post] obtain lp S ts where rel: "match_rel lp S ts (start_st mem r) st" by metis
  then show ?thesis using res le by (auto simp: match_rel_def remaining_def)
qed

text \<open>
  C9: when \<open>MatchOrder\<close> returns, the trades are exactly accounted for: their total is what the
  taker's filled quantity grew by and what the resting orders' filled quantities grew by together;
  the taker is never filled past its quantity, and every resting order keeps its data, with a fill
  that is unchanged or has grown to at most its quantity.
\<close>

theorem match_conserves:
  assumes m: "MatchOrder newid now mem r ob = Some res" and ok: "mr_panic res = None"
    and wf: "ob_wf str mem ob" and le: "bo_filled r \<le> bo_qty r"
  shows "bo_filled (mr_order res) = bo_filled r + trade_total (mr_trades res) \<and>
     filled_total (mr_mem res) = filled_total mem + trade_total (mr_trades res) \<and>
     bo_filled (mr_order res) \<le> bo_qty r \<and>
     length (mr_mem res) = length mem \<and>
     (\<forall>q < length mem. same_order (mem ! q) (mr_mem res ! q))"
  by (rule MatchOrder_conserves [OF assms])

lemma MatchOrder_prices:
  assumes m: "MatchOrder newid now mem r ob = Some res" and wf: "ob_wf str mem ob"
    and t: "t \<in> set (mr_trades res)"
  shows "bs_GetBestPrice (opposite r ob) = Some (tr_price t) \<and> 0 < tr_qty t \<and>
     tr_taker t = bo_user r \<and> tr_symbol t = bo_symbol r \<and> tr_side t = bo_side r \<and>
     (bo_type r = OrderTypeLimit \<longrightarrow> bo_price r = Some p \<longrightarrow>
        (if bo_side r = OrderSideBuy then tr_price t \<le> p else p \<le> tr_price t))"
proof (cases "mr_panic res")
  case None
  from MatchOrder_post [OF m wf] None obtain side st where
    post: "loop_post str (bo_side r = OrderSideBuy) (opposite r ob) (start_st mem r) (None, side, st)"
    and res: "mr_trades res = ms_trades st" by metis
  from loop_post_rel [OF post] obtain lp S ts where rel: "match_rel lp S ts (start_st mem r) st"
    and l: "ts \<noteq> [] \<Longrightarrow> \<exists>l. bs_GetBestLevel (opposite r ob) = Some l \<and>
       lp = price_at (bs_store (opposite r ob)) l \<and> \<not> price_blocks (bo_side r = OrderSideBuy) r lp"
    by (metis start_st_simps(1))
  from rel res have ts: "mr_trades res = ts" "trade_for lp r t" using t by (auto simp: match_rel_def)
  then have "ts \<noteq> []" using t by auto
  from l [OF this] obtain l where "bs_GetBestLevel (opposite r ob) = Some l"
    "lp = price_at (bs_store (opposite r ob)) l" "\<not> price_blocks (bo_side r = OrderSideBuy) r lp" by blast
  with ts show ?thesis
    by (auto simp: trade_for_def price_blocks_def bs_GetBestPrice_def bs_GetBestLevel_def split: if_splits)
next
  case (Some e)
  with t m show ?thesis by (auto simp: MatchOrder_loop)
qed


text \<open>
  An order that may trade with the best level of the other side is, if \<open>MatchOrder\<close> returns
  normally, completely filled: partial fills of a crossing order are never returned.
\<close>

theorem match_all_or_nothing:
  assumes m: "MatchOrder newid now mem r ob = Some res" and ok: "mr_panic res = None"
    and wf: "ob_wf str mem ob" and c: "crosses r ob l" and le: "bo_filled r \<le> bo_qty r"
  shows "bo_filled (mr_order res) = bo_qty r \<and> bo_status (mr_order res) = OrderStatusFilled"
proof -
  from MatchOrder_post [OF m wf] ok obtain side st where
    post: "loop_post str (bo_side r = OrderSideBuy) (opposite r ob) (start_st mem r) (None, side, st)"
    and res: "mr_order res = final_status (ms_order st)" by metis
  from crosses_post [OF post c] obtain ts where
    "match_rel (price_at (bs_store (opposite r ob)) l) (set (level_orders r ob l)) ts (start_st mem r) st"
    "ms_rem st \<le> 0" by metis
  with le res show ?thesis by (auto simp: match_rel_def remaining_def final_status_def)
qed


section \<open>When the call returns\<close>

lemma match_orders_done: "ms_rem st \<le> 0 \<Longrightarrow> match_orders newid now lp is arr len st = (None, arr, len, st)"
  by (cases "is") simp_all

lemma match_orders_closed:
  "\<forall>i \<in> set is. open_qty (ms_mem st ! (arr ! i)) \<le> 0 \<Longrightarrow>
   match_orders newid now lp (is @ js) arr len st = match_orders newid now lp js arr len st"
  by (induction "is") (auto simp: match_orders_done)

lemma match_orders_fill_exact:
  assumes "0 < ms_rem st" "0 < open_qty (ms_mem st ! (arr ! i))"
    and "open_qty (ms_mem st ! (arr ! i)) \<le> ms_rem st" "arr ! i < length (ms_mem st)"
  shows "match_orders newid now lp (i # is) arr len st =
     (let st1 = do_fill newid now lp (arr ! i) st in
      if len < Suc i then (Some SliceBounds, arr, len, st1)
      else match_orders newid now lp is (shift_down i len arr) (len - 1)
             (set_status (arr ! i) OrderStatusFilled st1))"
  using assms by (simp add: Let_def do_fill_def open_qty_def not_le)

lemma match_orders_fill_part:
  assumes "0 < ms_rem st" "ms_rem st < open_qty (ms_mem st ! (arr ! i))" "arr ! i < length (ms_mem st)"
  shows "match_orders newid now lp (i # is) arr len st =
     (None, arr, len, set_status (arr ! i) OrderStatusPartiallyFilled (do_fill newid now lp (arr ! i) st))"
  using assms by (simp add: Let_def do_fill_def open_qty_def not_le match_orders_done set_status_def)

lemma do_fill_simps:
  assumes "q < length (ms_mem st)"
  shows "ms_rem (do_fill newid now lp q st) = ms_rem st - min (ms_rem st) (open_qty (ms_mem st ! q))"
    and "length (ms_mem (do_fill newid now lp q st)) = length (ms_mem st)"
    and "bo_filled (ms_mem (do_fill newid now lp q st) ! q)
          = bo_filled (ms_mem st ! q) + min (ms_rem st) (open_qty (ms_mem st ! q))"
    and "p \<noteq> q \<Longrightarrow> ms_mem (do_fill newid now lp q st) ! p = ms_mem st ! p"
    and "bo_filled (ms_order (do_fill newid now lp q st))
          = bo_filled (ms_order st) + min (ms_rem st) (open_qty (ms_mem st ! q))"
    and "bo_qty (ms_order (do_fill newid now lp q st)) = bo_qty (ms_order st)"
    and "map tr_maker (ms_trades (do_fill newid now lp q st))
          = map tr_maker (ms_trades st) @ [bo_user (ms_mem st ! q)]"
    and "map tr_qty (ms_trades (do_fill newid now lp q st))
          = map tr_qty (ms_trades st) @ [min (ms_rem st) (open_qty (ms_mem st ! q))]"
  using assms by (simp_all add: do_fill_def Let_def)

lemma set_status_simps [simp]:
  "ms_rem (set_status q s st) = ms_rem st"
  "ms_order (set_status q s st) = ms_order st"
  "ms_trades (set_status q s st) = ms_trades st"
  "length (ms_mem (set_status q s st)) = length (ms_mem st)"
  "p \<noteq> q \<Longrightarrow> ms_mem (set_status q s st) ! p = ms_mem st ! p"
  by (simp_all add: set_status_def)

lemma set_status_at:
  "q < length (ms_mem st) \<Longrightarrow> ms_mem (set_status q s st) ! q = (ms_mem st ! q)\<lparr>bo_status := s\<rparr>"
  by (simp add: set_status_def)

lemmas fill_simps = do_fill_simps set_status_at

text \<open>One visit of the best level decides the loop when it fills the rest, or panics.\<close>

lemma match_loop_visit:
  assumes "0 < ms_rem st" and "bs_GetBestLevel side = Some l"
    and "\<not> price_blocks buy (ms_order st) (price_at (bs_store side) l)"
    and "match_level newid now l side st = (pn, side', st')"
    and "pn \<noteq> None \<or> ms_rem st' \<le> 0"
  shows "match_loop newid now buy side st = Some (pn, side', st')"
  using assms by (subst match_loop.simps) (auto simp: match_loop.simps [of newid now buy side' st'])

lemma MatchOrder_visit:
  assumes c: "crosses r ob l" and rem: "0 < remaining r"
    and mo: "match_orders newid now (price_at (bs_store (opposite r ob)) l)
       [0..<length (level_orders r ob l)] (level_orders r ob l) (length (level_orders r ob l))
       (start_st mem r) = (pn, arr, len, st)"
    and fin: "pn \<noteq> None \<or> ms_rem st \<le> 0"
  shows "\<exists>res. MatchOrder newid now mem r ob = Some res \<and> mr_panic res = pn \<and> mr_mem res = ms_mem st \<and>
     (pn = None \<longrightarrow> mr_trades res = ms_trades st \<and> mr_order res = final_status (ms_order st))"
proof -
  obtain side' where "match_level newid now l (opposite r ob) (start_st mem r) = (pn, side', st)"
    using mo by (auto simp: match_level_def level_orders_def Let_def)
  with match_loop_visit [OF _ _ _ this fin] c rem
  have "match_loop newid now (bo_side r = OrderSideBuy) (opposite r ob) (start_st mem r)
      = Some (pn, side', st)" by (simp add: crosses_def)
  then show ?thesis by (simp add: MatchOrder_loop)
qed

lemma MatchOrder_no_cross:
  assumes "remaining r \<le> 0 \<or> (\<forall>l. \<not> crosses r ob l)"
  shows "MatchOrder newid now mem r ob =
     Some \<lparr>mr_panic = None, mr_trades = [], mr_order = final_status r, mr_mem = mem, mr_book = ob\<rparr>"
proof -
  have "match_loop newid now (bo_side r = OrderSideBuy) (opposite r ob) (start_st mem r)
      = Some (None, opposite r ob, start_st mem r)"
    using assms by (subst match_loop.simps) (auto simp: crosses_def split: option.splits)
  then show ?thesis by (simp add: MatchOrder_loop opposite_def)
qed

lemma MatchOrder_covered:
  assumes c: "crosses r ob l" and os: "level_orders r ob l = gone @ q # rest"
    and gone: "\<forall>p \<in> set gone. open_qty (mem ! p) \<le> 0"
    and q: "q < length mem" and rem: "0 < remaining r" "remaining r \<le> open_qty (mem ! q)"
  shows "\<exists>res t. MatchOrder newid now mem r ob = Some res \<and> mr_panic res = None \<and>
     mr_trades res = [t] \<and> tr_qty t = remaining r \<and> tr_maker t = bo_user (mem ! q) \<and>
     bo_filled (mr_order res) = bo_qty r \<and> bo_status (mr_order res) = OrderStatusFilled \<and>
     bo_filled (mr_mem res ! q) = bo_filled (mem ! q) + remaining r"
proof -
  let ?n = "length gone"
  let ?arr = "gone @ q # rest"
  let ?lp = "price_at (bs_store (opposite r ob)) l"
  let ?st = "start_st mem r"
  let ?f = "do_fill newid now ?lp q ?st"
  have split: "[0..<length ?arr] = [0..<?n] @ ?n # [Suc ?n..<length ?arr]"
    using upt_split_at [of ?n "length ?arr"] upt_conv_Cons [of ?n "length ?arr"] by simp
  have skip: "match_orders newid now ?lp [0..<length ?arr] ?arr (length ?arr) ?st =
      match_orders newid now ?lp (?n # [Suc ?n..<length ?arr]) ?arr (length ?arr) ?st"
    unfolding split by (rule match_orders_closed) (use gone in \<open>auto simp: nth_append\<close>)
  have at: "?arr ! ?n = q" by simp
  have F: "ms_rem ?f = 0" "map tr_qty (ms_trades ?f) = [remaining r]"
    "map tr_maker (ms_trades ?f) = [bo_user (mem ! q)]"
    "bo_filled (ms_order ?f) = bo_qty r" "bo_qty (ms_order ?f) = bo_qty r"
    "bo_filled (ms_mem ?f ! q) = bo_filled (mem ! q) + remaining r" "q < length (ms_mem ?f)"
    using q rem by (simp_all add: fill_simps min_def remaining_def)
  have "\<exists>arr len s. match_orders newid now ?lp [0..<length ?arr] ?arr (length ?arr) ?st =
      (None, arr, len, set_status q s ?f)"
  proof (cases "remaining r = open_qty (mem ! q)")
    case True
    then show ?thesis unfolding skip
      by (subst match_orders_fill_exact) (use q rem F in \<open>auto simp: Let_def match_orders_done\<close>)
  next
    case False
    then show ?thesis unfolding skip
      by (subst match_orders_fill_part) (use q rem in auto)
  qed
  then obtain arr len s where mo: "match_orders newid now ?lp [0..<length ?arr] ?arr (length ?arr) ?st =
      (None, arr, len, set_status q s ?f)" by blast
  from MatchOrder_visit [OF c rem(1) mo [folded os]] F obtain res where
    res: "MatchOrder newid now mem r ob = Some res" "mr_panic res = None"
      "mr_mem res = ms_mem (set_status q s ?f)" "mr_trades res = ms_trades ?f"
      "mr_order res = final_status (ms_order ?f)" by auto
  from F(2,3) obtain t where "ms_trades ?f = [t]" "tr_qty t = remaining r"
    "tr_maker t = bo_user (mem ! q)" by auto
  with res F show ?thesis by (auto simp: set_status_at final_status_def)
qed

text \<open>
  When the first order of the best level that is still open can cover the whole remaining
  quantity, \<open>MatchOrder\<close> returns: one trade, with that order's owner, for the remaining quantity;
  the taker is filled and the resting order's fill grows by the same amount.
\<close>

theorem match_covered_returns:
  assumes c: "crosses r ob l" and os: "level_orders r ob l = gone @ q # rest"
    and gone: "\<forall>p \<in> set gone. open_qty (mem ! p) \<le> 0"
    and q: "q < length mem" and rem: "0 < remaining r" "remaining r \<le> open_qty (mem ! q)"
  shows "\<exists>res t. MatchOrder newid now mem r ob = Some res \<and> mr_panic res = None \<and>
     mr_trades res = [t] \<and> tr_qty t = remaining r \<and> tr_maker t = bo_user (mem ! q) \<and>
     bo_filled (mr_order res) = bo_qty r \<and> bo_status (mr_order res) = OrderStatusFilled \<and>
     bo_filled (mr_mem res ! q) = bo_filled (mem ! q) + remaining r"
  by (rule MatchOrder_covered [OF assms])

text \<open>
  A level at the top of the heap that the taker may trade with and that holds nothing open: every
  visit leaves the state as it was.
\<close>

definition stuck :: "(decimal \<Rightarrow> string) \<Rightarrow> lref \<Rightarrow> bool \<Rightarrow> book_side \<Rightarrow> match_st \<Rightarrow> bool" where
  "stuck str l buy side st \<longleftrightarrow>
     bs_wf str (ms_mem st) side \<and> 0 < ms_rem st \<and> bs_GetBestLevel side = Some l \<and>
     \<not> price_blocks buy (ms_order st) (price_at (bs_store side) l) \<and>
     (\<forall>q \<in> set (pl_orders (bs_store side ! l)). open_qty (ms_mem st ! q) \<le> 0)"

lemma stuck_visit:
  assumes s: "stuck str l buy side st" and ml: "match_level newid now l side st = (pn, side', st')"
  shows "pn = None \<and> st' = st \<and> stuck str l buy side' st"
proof -
  let ?os = "pl_orders (bs_store side ! l)"
  have "\<forall>i \<in> set [0..<length ?os]. open_qty (ms_mem st ! (?os ! i)) \<le> 0"
    using s by (simp add: stuck_def)
  from match_orders_closed [OF this, of newid now "price_at (bs_store side) l" "[]" "length ?os"]
  have pn: "pn = None" "st' = st" using ml by (auto simp: match_level_def Let_def split: prod.splits)
  have wf: "bs_wf str (ms_mem st) side" "bs_GetBestLevel side = Some l" using s by (auto simp: stuck_def)
  then have "l < length (bs_store side)" using ph_top_wf(1) by (simp add: bs_GetBestLevel_def)
  from match_level_rel [OF ml wf(1) this] s pn show ?thesis
    using same_prices_best [of side side'] by (auto simp: stuck_def same_prices_def)
qed

lemma stuck_diverges: "stuck str l buy side st \<Longrightarrow> match_loop newid now buy side st = None"
proof (rule ccontr)
  assume s0: "stuck str l buy side st" and "match_loop newid now buy side st \<noteq> None"
  then obtain r where r: "match_loop newid now buy side st = Some r" by blast
  have "\<not> stuck str l buy side st"
  proof (rule match_loop.raw_induct [where P = "\<lambda>_ _ buy side st _. \<not> stuck str l buy side st", OF _ r],
      rule notI)
    fix f newid now buy side st r
    assume IH: "\<And>newid now buy side st r. f newid now buy side st = Some r \<Longrightarrow> \<not> stuck str l buy side st"
      and eq: "(if ms_rem st > 0 then
        (case bs_GetBestLevel side of
           None \<Rightarrow> Some (None, side, st)
         | Some l \<Rightarrow>
             if price_blocks buy (ms_order st) (price_at (bs_store side) l)
             then Some (None, side, st)
             else (case match_level newid now l side st of
                     (pn, side', st') \<Rightarrow>
                       if pn = None then f newid now buy side' st'
                       else Some (pn, side', st')))
        else Some (None, side, st)) = Some r"
      and s: "stuck str l buy side st"
    obtain pn side' st' where ml: "match_level newid now l side st = (pn, side', st')"
      by (cases "match_level newid now l side st")
    from eq s ml stuck_visit [OF s ml] have "f newid now buy side' st = Some r" by (simp add: stuck_def)
    with IH stuck_visit [OF s ml] show False by blast
  qed
  with s0 show False by blast
qed

text \<open>
  C27: a level whose orders are all filled already, or an empty level, makes the call run forever
  for every order that may trade with it: the model's loop has no result at all.
\<close>

theorem match_hangs_on_exhausted_level:
  assumes wf: "ob_wf str mem ob" and c: "crosses r ob l" and rem: "0 < remaining r"
    and none: "\<forall>q \<in> set (level_orders r ob l). open_qty (mem ! q) \<le> 0"
  shows "MatchOrder newid now mem r ob = None"
proof -
  have "stuck str l (bo_side r = OrderSideBuy) (opposite r ob) (start_st mem r)"
    using opposite_wf [OF wf] c rem none by (simp add: stuck_def crosses_def level_orders_def)
  from stuck_diverges [OF this] show ?thesis by (simp add: MatchOrder_loop)
qed

text \<open>
  A level of two open orders is filled exactly, or more than filled, by the taker: deleting the
  first shifts the second under the loop's range, the second deletion indexes past the shortened
  slice, and the call panics after both orders' fills have been recorded, with the trades lost.
\<close>

theorem match_two_orders_panics:
  assumes c: "crosses r ob l" and os: "level_orders r ob l = [q1, q2]" and ne: "q1 \<noteq> q2"
    and q: "q1 < length mem" "q2 < length mem"
    and opn: "0 < open_qty (mem ! q1)" "0 < open_qty (mem ! q2)"
    and rem: "open_qty (mem ! q1) + open_qty (mem ! q2) \<le> remaining r"
  shows "\<exists>res. MatchOrder newid now mem r ob = Some res \<and> mr_panic res = Some SliceBounds \<and>
     mr_trades res = [] \<and> bo_filled (mr_mem res ! q1) = bo_qty (mem ! q1) \<and>
     bo_filled (mr_mem res ! q2) = bo_qty (mem ! q2)"
proof -
  let ?lp = "price_at (bs_store (opposite r ob)) l"
  let ?f1 = "set_status q1 OrderStatusFilled (do_fill newid now ?lp q1 (start_st mem r))"
  let ?f2 = "do_fill newid now ?lp q2 ?f1"
  have F1: "ms_rem ?f1 = remaining r - open_qty (mem ! q1)" "length (ms_mem ?f1) = length mem"
    "ms_mem ?f1 ! q2 = mem ! q2" "bo_filled (ms_mem ?f1 ! q1) = bo_qty (mem ! q1)"
    using q opn rem ne by (simp_all add: fill_simps min_def open_qty_def)
  have F2: "bo_filled (ms_mem ?f2 ! q1) = bo_qty (mem ! q1)"
    "bo_filled (ms_mem ?f2 ! q2) = bo_qty (mem ! q2)"
    using q opn rem ne F1 by (simp_all add: fill_simps min_def open_qty_def)
  have "match_orders newid now ?lp [0, 1] [q1, q2] 2 (start_st mem r)
      = match_orders newid now ?lp [1] [q2, q2] 1 ?f1"
    by (subst match_orders_fill_exact) (use q opn rem in \<open>simp_all add: Let_def shift_down_def\<close>)
  also have "\<dots> = (Some SliceBounds, [q2, q2], 1, ?f2)"
    by (subst match_orders_fill_exact) (use q opn rem F1 in \<open>simp_all add: Let_def\<close>)
  finally have mo: "match_orders newid now ?lp [0..<length [q1, q2]] [q1, q2] (length [q1, q2])
      (start_st mem r) = (Some SliceBounds, [q2, q2], 1, ?f2)"
    by (simp add: upt_rec numeral_2_eq_2)
  have "0 < remaining r" using opn rem by linarith
  from MatchOrder_visit [OF c this mo [folded os]] obtain res where
    res: "MatchOrder newid now mem r ob = Some res" "mr_panic res = Some SliceBounds" "mr_mem res = ms_mem ?f2"
    by auto
  moreover from this(1,2) have "mr_trades res = []" by (auto simp: MatchOrder_loop)
  ultimately show ?thesis using F2 by simp
qed

text \<open>
  At a level of three or more open orders a taker that fills the first and then needs no more
  than the third holds trades with the first and the third: the second order, next in time
  priority, is skipped and stays untouched.
\<close>

theorem match_skips_second_order:
  assumes c: "crosses r ob l" and os: "level_orders r ob l = q1 # q2 # q3 # rest"
    and ne: "distinct [q1, q2, q3]"
    and q: "q1 < length mem" "q2 < length mem" "q3 < length mem"
    and opn: "0 < open_qty (mem ! q1)" "0 < open_qty (mem ! q2)"
    and rem: "open_qty (mem ! q1) < remaining r"
      "remaining r < open_qty (mem ! q1) + open_qty (mem ! q3)"
  shows "\<exists>res. MatchOrder newid now mem r ob = Some res \<and> mr_panic res = None \<and>
     map tr_maker (mr_trades res) = [bo_user (mem ! q1), bo_user (mem ! q3)] \<and>
     map tr_qty (mr_trades res) = [open_qty (mem ! q1), remaining r - open_qty (mem ! q1)] \<and>
     mr_mem res ! q2 = mem ! q2"
proof -
  let ?lp = "price_at (bs_store (opposite r ob)) l"
  let ?arr = "q1 # q2 # q3 # rest"
  let ?n = "length ?arr"
  let ?arr' = "q2 # q3 # rest @ drop (?n - 1) ?arr"
  let ?f1 = "set_status q1 OrderStatusFilled (do_fill newid now ?lp q1 (start_st mem r))"
  let ?f2 = "set_status q3 OrderStatusPartiallyFilled (do_fill newid now ?lp q3 ?f1)"
  have F1: "ms_rem ?f1 = remaining r - open_qty (mem ! q1)" "length (ms_mem ?f1) = length mem"
    "ms_mem ?f1 ! q2 = mem ! q2" "ms_mem ?f1 ! q3 = mem ! q3"
    "map tr_maker (ms_trades ?f1) = [bo_user (mem ! q1)]"
    "map tr_qty (ms_trades ?f1) = [open_qty (mem ! q1)]"
    using q opn rem ne by (simp_all add: fill_simps min_def open_qty_def)
  have F2: "ms_rem ?f2 = 0" "ms_mem ?f2 ! q2 = mem ! q2"
    "map tr_maker (ms_trades ?f2) = [bo_user (mem ! q1), bo_user (mem ! q3)]"
    "map tr_qty (ms_trades ?f2) = [open_qty (mem ! q1), remaining r - open_qty (mem ! q1)]"
    using q opn rem ne F1 by (simp_all add: fill_simps min_def)
  have "[0..<?n] = 0 # 1 # [2..<?n]"
    using upt_conv_Cons [of 0 ?n] upt_conv_Cons [of 1 ?n] by (simp del: upt_Suc add: numeral_2_eq_2)
  then have "match_orders newid now ?lp [0..<?n] ?arr ?n (start_st mem r)
      = match_orders newid now ?lp (1 # [2..<?n]) ?arr' (?n - 1) ?f1"
    by (simp only:) (subst match_orders_fill_exact; use q opn rem in \<open>simp add: Let_def shift_down_def\<close>)
  also have "\<dots> = (None, ?arr', ?n - 1, ?f2)"
    by (subst match_orders_fill_part) (use q opn rem F1 in simp_all)
  finally have mo: "match_orders newid now ?lp [0..<?n] ?arr ?n (start_st mem r)
      = (None, ?arr', ?n - 1, ?f2)" .
  have "0 < remaining r" using opn rem by linarith
  from MatchOrder_visit [OF c this mo [folded os]] F2 obtain res where
    "MatchOrder newid now mem r ob = Some res" "mr_panic res = None" "mr_mem res = ms_mem ?f2"
    "mr_trades res = ms_trades ?f2" by auto
  with F2 show ?thesis by simp
qed

section \<open>The properties on the sample book\<close>

text \<open>A buy of \<open>q\<close> at up to 105 meets the two asks at 100; a sell at 75 meets the three bids at 80.\<close>

definition sample_buy :: "decimal \<Rightarrow> book_order" where
  "sample_buy q = sample_order 201 9 OrderSideBuy 105 q"

definition sample_sell :: "decimal \<Rightarrow> book_order" where
  "sample_sell q = sample_order 202 9 OrderSideSell 75 q"

definition sample_ids :: "nat \<Rightarrow> uuid" where
  "sample_ids n = 300 + of_nat n"

lemma sample_remaining [simp]: "remaining (sample_buy q) = q" "remaining (sample_sell q) = q"
  by (simp_all add: remaining_def sample_buy_def sample_sell_def)

lemma sample_opposite [simp]:
  "opposite (sample_buy q) ob = ob_asks ob" "opposite (sample_sell q) ob = ob_bids ob"
  by (simp_all add: opposite_def sample_buy_def sample_sell_def)

lemma sample_crosses: "crosses (sample_buy q) sample_book 0" "crosses (sample_sell q) sample_book (Suc 0)"
  by (simp_all add: crosses_def bs_GetBestLevel_def ph_top_def ph_Len_def price_blocks_def price_at_def
      sample_book_def, simp_all add: sample_buy_def sample_sell_def)

lemma sample_level_orders:
  "level_orders (sample_buy q) sample_book 0 = [0, 1]" "level_orders (sample_sell q) sample_book (Suc 0) = [3, 4, 5]"
  by (simp_all add: level_orders_def sample_book_def)

lemma sample_open:
  "open_qty (sample_mem ! 0) = 5" "open_qty (sample_mem ! Suc 0) = 3" "open_qty (sample_mem ! 3) = 2"
  "open_qty (sample_mem ! 4) = 3" "open_qty (sample_mem ! 5) = 4" "length sample_mem = 6"
  by (simp_all add: open_qty_def sample_mem_def)

lemma sample_match:
  obtains res t where "MatchOrder sample_ids (\<lambda>_. 0) sample_mem (sample_buy 2) sample_book = Some res"
    "mr_panic res = None" "mr_trades res = [t]"
  using MatchOrder_covered [of "sample_buy 2" sample_book 0 "[]" 0 "[1]" sample_mem sample_ids "\<lambda>_. 0"]
  by (auto simp: sample_crosses sample_level_orders sample_open)

lemma match_conserves_witness:
  "\<exists>res. MatchOrder sample_ids (\<lambda>_. 0) sample_mem (sample_buy 2) sample_book = Some res \<and>
     filled_total (mr_mem res) = filled_total sample_mem + trade_total (mr_trades res) \<and>
     bo_filled (mr_order res) \<le> 2"
proof -
  obtain res t where "MatchOrder sample_ids (\<lambda>_. 0) sample_mem (sample_buy 2) sample_book = Some res"
    "mr_panic res = None" "mr_trades res = [t]" by (rule sample_match)
  then show ?thesis
    using match_conserves [of sample_ids "\<lambda>_. 0" sample_mem "sample_buy 2" sample_book res sample_str]
      sample_book_wf by (auto simp: sample_buy_def)
qed


lemma match_all_or_nothing_witness:
  "\<exists>res. MatchOrder sample_ids (\<lambda>_. 0) sample_mem (sample_buy 2) sample_book = Some res \<and>
     bo_filled (mr_order res) = 2 \<and> bo_status (mr_order res) = OrderStatusFilled"
proof -
  obtain res t where r: "MatchOrder sample_ids (\<lambda>_. 0) sample_mem (sample_buy 2) sample_book = Some res"
    "mr_panic res = None" "mr_trades res = [t]" by (rule sample_match)
  then show ?thesis
    using match_all_or_nothing [OF r(1,2) sample_book_wf sample_crosses(1)] by (simp add: sample_buy_def)
qed


lemma match_covered_witness:
  "\<exists>res t. MatchOrder sample_ids (\<lambda>_. 0) sample_mem (sample_buy 2) sample_book = Some res \<and>
     mr_trades res = [t] \<and> tr_qty t = 2 \<and> tr_maker t = 1 \<and> bo_filled (mr_mem res ! 0) = 2"
  using match_covered_returns [of "sample_buy 2" sample_book 0 "[]" 0 "[1]" sample_mem sample_ids "\<lambda>_. 0"]
  by (simp add: sample_crosses sample_level_orders sample_open) (auto simp: sample_mem_def)

definition emptied_book :: order_book where
  "emptied_book = sample_book\<lparr>ob_asks := \<lparr>bs_levels = [(sample_str 100, 0)], bs_heap = [0],
     bs_store = [\<lparr>pl_price = 100, pl_orders = []\<rparr>]\<rparr>\<rparr>"

lemma match_hangs_witness:
  "MatchOrder sample_ids (\<lambda>_. 0) sample_mem (sample_buy 1) emptied_book = None"
proof -
  have wf: "ob_wf sample_str sample_mem emptied_book"
    using sample_book_wf by (auto simp: ob_wf_def bs_wf_def emptied_book_def price_at_def is_heap_def)
  have c: "crosses (sample_buy 1) emptied_book 0"
    by (simp add: crosses_def bs_GetBestLevel_def ph_top_def ph_Len_def price_blocks_def price_at_def
        emptied_book_def, simp add: sample_buy_def)
  have "level_orders (sample_buy 1) emptied_book 0 = []" by (simp add: level_orders_def emptied_book_def)
  then show ?thesis
    using match_hangs_on_exhausted_level [OF wf c, of sample_ids "\<lambda>_. 0"] by simp
qed

lemma match_two_orders_witness:
  "\<exists>res. MatchOrder sample_ids (\<lambda>_. 0) sample_mem (sample_buy 8) sample_book = Some res \<and>
     mr_panic res = Some SliceBounds \<and> bo_filled (mr_mem res ! 0) = 5 \<and> bo_filled (mr_mem res ! 1) = 3"
  using match_two_orders_panics [of "sample_buy 8" sample_book 0 0 1 sample_mem sample_ids "\<lambda>_. 0"]
  by (simp add: sample_crosses sample_level_orders sample_open) (auto simp: sample_mem_def)

lemma match_skips_witness:
  "\<exists>res. MatchOrder sample_ids (\<lambda>_. 0) sample_mem (sample_sell 3) sample_book = Some res \<and>
     map tr_maker (mr_trades res) = [1, 3] \<and> map tr_qty (mr_trades res) = [2, 1] \<and>
     mr_mem res ! 4 = sample_mem ! 4"
  using match_skips_second_order [of "sample_sell 3" sample_book "Suc 0" 3 4 5 "[]" sample_mem sample_ids "\<lambda>_. 0"]
  by (simp add: sample_crosses sample_level_orders sample_open) (auto simp: sample_mem_def)

end
