(* ===== verification/Database.thy ===== *)
theory Database
  imports Models
begin

text \<open>
  The database as the repositories of \<open>internal/database\<close> and the schema of
  \<open>migrations/001_initial_schema.up.sql\<close> define it: the tables, the constraints each statement is
  checked against, transactions, and the repository functions.

  A world is the committed tables, the transaction clock, and a schedule of driver faults: every
  call of the driver takes the next entry, and fails with a driver error when it is \<open>True\<close>. A
  transaction is the list of the writes it has executed; a statement is checked against the
  committed tables with those writes applied, reads through \<open>r.db\<close> see committed tables only, and
  \<open>Commit\<close> applies the writes. The serial key of \<open>ledger_entries\<close> and the \<open>id\<close> of
  \<open>idempotency_keys\<close> are never used by the code and are left out. \<open>TEXT\<close> values are taken to be valid
  UTF-8 without NUL, as PostgreSQL demands.
\<close>

section \<open>NUMERIC(30,10)\<close>

text \<open>
  The type of every amount column: assignment rounds to ten decimals, ties away from zero, and a
  value that needs more than twenty digits before the point is an error.
\<close>

definition numeric_round :: "decimal \<Rightarrow> decimal" where
  "numeric_round x = sgn x * of_int \<lfloor>\<bar>x\<bar> * 10 ^ 10 + 1 / 2\<rfloor> / 10 ^ 10"

definition to_numeric :: "decimal \<Rightarrow> go_error + decimal" where
  "to_numeric x =
     (let y = numeric_round x in if \<bar>y\<bar> < 10 ^ 20 then Inr y else Inl NumericOverflow)"

section \<open>Tables and writes\<close>

record db =
  db_users :: "user list"
  db_accounts :: "account list"
  db_entries :: "ledger_entry list"
  db_orders :: "order list"
  db_idem :: "idem_key list"

definition db_empty :: db where
  "db_empty = \<lparr>db_users = [], db_accounts = [], db_entries = [], db_orders = [], db_idem = []\<rparr>"

datatype db_write =
    InsertUser user uuid uuid uuid
  | InsertEntry ledger_entry
  | UpdateAccount uuid decimal decimal
  | InsertOrder order
  | UpdateOrderRow uuid decimal order_status
  | InsertIdem idem_key

definition has_user :: "db \<Rightarrow> uuid \<Rightarrow> bool" where
  "has_user d u \<longleftrightarrow> u \<in> usr_id ` set (db_users d)"

definition has_account :: "db \<Rightarrow> uuid \<Rightarrow> bool" where
  "has_account d a \<longleftrightarrow> a \<in> acc_id ` set (db_accounts d)"

definition new_account :: "uuid \<Rightarrow> uuid \<Rightarrow> currency \<Rightarrow> account" where
  "new_account a u c =
     \<lparr>acc_id = a, acc_user = u, acc_currency = c, acc_available = 0, acc_hold = 0\<rparr>"

text \<open>
  The insert into \<open>users\<close> fires the trigger that creates the three accounts; their IDs come from
  \<open>gen_random_uuid()\<close>.
\<close>

definition insert_user :: "user \<Rightarrow> uuid \<Rightarrow> uuid \<Rightarrow> uuid \<Rightarrow> db \<Rightarrow> go_error + db" where
  "insert_user u a1 a2 a3 d =
     (if has_user d (usr_id u) \<or> usr_email u \<in> usr_email ` set (db_users d) then Inl UniqueViolation
      else if \<not> distinct [a1, a2, a3] \<or> has_account d a1 \<or> has_account d a2 \<or> has_account d a3
      then Inl UniqueViolation
      else Inr (d\<lparr>db_users := db_users d @ [u],
                  db_accounts := db_accounts d @
                    [new_account a1 (usr_id u) CurrencyUSD,
                     new_account a2 (usr_id u) CurrencyBTC,
                     new_account a3 (usr_id u) CurrencyETH]\<rparr>))"

definition insert_entry :: "timestamp \<Rightarrow> ledger_entry \<Rightarrow> db \<Rightarrow> go_error + db" where
  "insert_entry now e d =
     (case to_numeric (le_amount e) of
        Inl err \<Rightarrow> Inl err
      | Inr x \<Rightarrow>
          if \<not> has_account d (le_account e) then Inl ForeignKeyViolation
          else Inr (d\<lparr>db_entries := db_entries d @ [e\<lparr>le_amount := x, le_created_at := now\<rparr>]\<rparr>))"

text \<open>An update whose \<open>WHERE id = $3\<close> matches no row changes nothing and is no error.\<close>

definition set_balances :: "decimal \<Rightarrow> decimal \<Rightarrow> account \<Rightarrow> account" where
  "set_balances x y a = a\<lparr>acc_available := x, acc_hold := y\<rparr>"

definition update_account :: "uuid \<Rightarrow> decimal \<Rightarrow> decimal \<Rightarrow> db \<Rightarrow> go_error + db" where
  "update_account i av ho d =
     (case (to_numeric av, to_numeric ho) of
        (Inr x, Inr y) \<Rightarrow>
          Inr (d\<lparr>db_accounts := map (\<lambda>a. if acc_id a = i then set_balances x y a else a)
                                   (db_accounts d)\<rparr>)
      | (Inl e, _) \<Rightarrow> Inl e
      | (_, Inl e) \<Rightarrow> Inl e)"

text \<open>\<open>price NUMERIC(30,10)\<close> is nullable.\<close>

definition to_numeric_opt :: "decimal option \<Rightarrow> go_error + decimal option" where
  "to_numeric_opt p =
     (case p of None \<Rightarrow> Inr None | Some x \<Rightarrow> map_sum id Some (to_numeric x))"

definition insert_order :: "order \<Rightarrow> db \<Rightarrow> go_error + db" where
  "insert_order r d =
     (if ord_side r \<notin> {''BUY'', ''SELL''} \<or> ord_type r \<notin> {''MARKET'', ''LIMIT''} then Inl InvalidEnum
      else if ord_symbol r \<notin> {''BTC-USD'', ''ETH-USD''} then Inl CheckViolation
      else if ord_id r \<in> ord_id ` set (db_orders d) then Inl UniqueViolation
      else if \<not> has_user d (ord_user r) then Inl ForeignKeyViolation
      else (case (to_numeric_opt (ord_price r), to_numeric (ord_qty r), to_numeric (ord_filled r)) of
              (Inr p, Inr x, Inr f) \<Rightarrow>
                Inr (d\<lparr>db_orders := db_orders d @ [r\<lparr>ord_price := p, ord_qty := x, ord_filled := f\<rparr>]\<rparr>)
            | _ \<Rightarrow> Inl NumericOverflow))"

definition update_order :: "uuid \<Rightarrow> decimal \<Rightarrow> order_status \<Rightarrow> db \<Rightarrow> go_error + db" where
  "update_order i f s d =
     (case to_numeric f of
        Inl e \<Rightarrow> Inl e
      | Inr x \<Rightarrow>
          Inr (d\<lparr>db_orders := map (\<lambda>r. if ord_id r = i then r\<lparr>ord_filled := x, ord_status := s\<rparr> else r)
                                 (db_orders d)\<rparr>))"

definition insert_idem :: "timestamp \<Rightarrow> idem_key \<Rightarrow> db \<Rightarrow> go_error + db" where
  "insert_idem now k d =
     (if \<not> has_user d (ik_user k) then Inl ForeignKeyViolation
      else if (ik_user k, ik_key k) \<in> (\<lambda>k. (ik_user k, ik_key k)) ` set (db_idem d)
      then Inl UniqueViolation
      else Inr (d\<lparr>db_idem := db_idem d @ [k\<lparr>ik_created_at := now\<rparr>]\<rparr>))"

fun db_apply :: "timestamp \<Rightarrow> db_write \<Rightarrow> db \<Rightarrow> go_error + db" where
  "db_apply now (InsertUser u a1 a2 a3) d = insert_user u a1 a2 a3 d"
| "db_apply now (InsertEntry e) d = insert_entry now e d"
| "db_apply now (UpdateAccount i av ho) d = update_account i av ho d"
| "db_apply now (InsertOrder r) d = insert_order r d"
| "db_apply now (UpdateOrderRow i f s) d = update_order i f s d"
| "db_apply now (InsertIdem k) d = insert_idem now k d"

section \<open>The driver\<close>

record world =
  w_db :: db
  w_now :: timestamp
  w_faults :: "bool list"

text \<open>A computation that may touch the database: a Go error or a value, and the world after it.\<close>

type_synonym 'a io = "world \<Rightarrow> (go_error + 'a) \<times> world"

definition io_return :: "'a \<Rightarrow> 'a io" where
  "io_return x = (\<lambda>w. (Inr x, w))"

definition io_error :: "go_error \<Rightarrow> 'a io" where
  "io_error e = (\<lambda>w. (Inl e, w))"

text \<open>\<open>x, err := m; if err != nil { return err }; f(x)\<close>\<close>

definition io_bind :: "'a io \<Rightarrow> ('a \<Rightarrow> 'b io) \<Rightarrow> 'b io" where
  "io_bind m f = (\<lambda>w. case m w of (Inl e, w') \<Rightarrow> (Inl e, w') | (Inr x, w') \<Rightarrow> f x w')"

text \<open>\<open>return fmt.Errorf("...: %w", err)\<close> on an error.\<close>

definition io_wrap :: "string \<Rightarrow> 'a io \<Rightarrow> 'a io" where
  "io_wrap msg m = (\<lambda>w. case m w of (Inl e, w') \<Rightarrow> (Inl (ErrorfWrap msg e), w') | (Inr x, w') \<Rightarrow> (Inr x, w'))"

text \<open>One call of the driver: it fails when the schedule says so, and otherwise computes \<open>f\<close>.\<close>

definition db_call :: "(world \<Rightarrow> (go_error + 'a) \<times> world) \<Rightarrow> 'a io" where
  "db_call f = (\<lambda>w. case w_faults w of
      [] \<Rightarrow> f w
    | b # bs \<Rightarrow> (let w' = w\<lparr>w_faults := bs\<rparr> in if b then (Inl DriverError, w') else f w'))"

type_synonym tx = "db_write list"

definition db_Begin :: "tx io" where
  "db_Begin = db_call (io_return [])"

definition tx_Exec :: "tx \<Rightarrow> db_write \<Rightarrow> tx io" where
  "tx_Exec t wr = db_call (\<lambda>w.
     (case fold_result (db_apply (w_now w)) (t @ [wr]) (w_db w) of
        Inl e \<Rightarrow> (Inl e, w)
      | Inr _ \<Rightarrow> (Inr (t @ [wr]), w)))"

definition tx_Commit :: "tx \<Rightarrow> unit io" where
  "tx_Commit t = db_call (\<lambda>w.
     (case fold_result (db_apply (w_now w)) t (w_db w) of
        Inl e \<Rightarrow> (Inl e, w)
      | Inr d \<Rightarrow> (Inr (), w\<lparr>w_db := d\<rparr>)))"

text \<open>\<open>r.db.Exec\<close>: one statement in a transaction of its own.\<close>

definition db_Exec :: "db_write \<Rightarrow> unit io" where
  "db_Exec wr = db_call (\<lambda>w.
     (case db_apply (w_now w) wr (w_db w) of
        Inl e \<Rightarrow> (Inl e, w)
      | Inr d \<Rightarrow> (Inr (), w\<lparr>w_db := d\<rparr>)))"

definition db_Query :: "(db \<Rightarrow> 'a) \<Rightarrow> 'a io" where
  "db_Query f = db_call (\<lambda>w. (Inr (f (w_db w)), w))"

text \<open>\<open>QueryRow(...).Scan(...)\<close>: \<open>sql.ErrNoRows\<close> when no row matches.\<close>

definition db_QueryRow :: "(db \<Rightarrow> 'a option) \<Rightarrow> 'a io" where
  "db_QueryRow f = db_call (\<lambda>w.
     (case f (w_db w) of None \<Rightarrow> (Inl ErrNoRows, w) | Some x \<Rightarrow> (Inr x, w)))"

section \<open>internal/database/account.go\<close>

text \<open>\<open>if err == sql.ErrNoRows { "... not found" } else { "failed to get ...: %w" }\<close>\<close>

definition io_not_found :: "string \<Rightarrow> string \<Rightarrow> 'a io \<Rightarrow> 'a io" where
  "io_not_found missing failed m = (\<lambda>w. case m w of
      (Inl e, w') \<Rightarrow> (Inl (if e = ErrNoRows then Errorf missing else ErrorfWrap failed e), w')
    | (Inr x, w') \<Rightarrow> (Inr x, w'))"

definition GetAccountByUserIDAndCurrency :: "uuid \<Rightarrow> currency \<Rightarrow> account io" where
  "GetAccountByUserIDAndCurrency u c =
     io_not_found ''account not found'' ''failed to get account''
       (db_QueryRow (\<lambda>d. find (\<lambda>a. acc_user a = u \<and> acc_currency a = c) (db_accounts d)))"

text \<open>\<open>ORDER BY currency\<close> sorts by the order of the enum, the order of its declaration.\<close>

fun currency_rank :: "currency \<Rightarrow> nat" where
  "currency_rank CurrencyUSD = 0"
| "currency_rank CurrencyBTC = 1"
| "currency_rank CurrencyETH = 2"

lemma currency_rank_inj [simp]: "currency_rank c = currency_rank d \<longleftrightarrow> c = d"
  by (cases c; cases d) simp_all

instantiation currency :: linorder
begin

definition less_eq_currency :: "currency \<Rightarrow> currency \<Rightarrow> bool" where
  "less_eq_currency c d \<longleftrightarrow> currency_rank c \<le> currency_rank d"

definition less_currency :: "currency \<Rightarrow> currency \<Rightarrow> bool" where
  "less_currency c d \<longleftrightarrow> currency_rank c < currency_rank d"

instance
  by standard (auto simp: less_eq_currency_def less_currency_def intro: antisym)

end

definition GetAccountsByUserID :: "uuid \<Rightarrow> account list io" where
  "GetAccountsByUserID u =
     io_wrap ''failed to get accounts''
       (db_Query (\<lambda>d. sort_key acc_currency
                        (filter (\<lambda>a. acc_user a = u) (db_accounts d))))"

definition UpdateAccountBalance :: "tx \<Rightarrow> uuid \<Rightarrow> decimal \<Rightarrow> decimal \<Rightarrow> tx io" where
  "UpdateAccountBalance t i available hold =
     io_wrap ''failed to update account balance'' (tx_Exec t (UpdateAccount i available hold))"

definition GetAccountByID :: "uuid \<Rightarrow> account io" where
  "GetAccountByID i =
     io_not_found ''account not found'' ''failed to get account''
       (db_QueryRow (\<lambda>d. find (\<lambda>a. acc_id a = i) (db_accounts d)))"

section \<open>internal/database/user.go\<close>

text \<open>\<open>INSERT ... RETURNING\<close>; the four IDs are the ones \<open>gen_random_uuid()\<close> draws.\<close>

definition CreateUser :: "uuid \<Rightarrow> uuid \<Rightarrow> uuid \<Rightarrow> uuid \<Rightarrow> string \<Rightarrow> string \<Rightarrow> user io" where
  "CreateUser i a1 a2 a3 email hash =
     io_wrap ''failed to create user''
       (\<lambda>w. let u = \<lparr>usr_id = i, usr_email = email, usr_password_hash = hash, usr_created_at = w_now w\<rparr>
            in io_bind (db_Exec (InsertUser u a1 a2 a3)) (\<lambda>_. io_return u) w)"

definition GetUserByEmail :: "string \<Rightarrow> user io" where
  "GetUserByEmail email =
     io_not_found ''user not found'' ''failed to get user''
       (db_QueryRow (\<lambda>d. find (\<lambda>u. usr_email u = email) (db_users d)))"

definition GetUserByID :: "uuid \<Rightarrow> user io" where
  "GetUserByID i =
     io_not_found ''user not found'' ''failed to get user''
       (db_QueryRow (\<lambda>d. find (\<lambda>u. usr_id u = i) (db_users d)))"

definition UserExists :: "string \<Rightarrow> bool io" where
  "UserExists email =
     io_wrap ''failed to check user existence''
       (db_Query (\<lambda>d. email \<in> usr_email ` set (db_users d)))"

section \<open>internal/database/order.go\<close>

definition CreateOrderRow :: "order \<Rightarrow> unit io" where
  "CreateOrderRow r = io_wrap ''failed to create order'' (db_Exec (InsertOrder r))"

definition GetOrderByID :: "uuid \<Rightarrow> order io" where
  "GetOrderByID i =
     io_not_found ''order not found'' ''failed to get order''
       (db_QueryRow (\<lambda>d. find (\<lambda>r. ord_id r = i) (db_orders d)))"

text \<open>\<open>LIMIT\<close> and \<open>OFFSET\<close>: negative values are errors.\<close>

definition db_page :: "int \<Rightarrow> int \<Rightarrow> (db \<Rightarrow> 'a list) \<Rightarrow> 'a list io" where
  "db_page limit offset f = db_call (\<lambda>w.
     if limit < 0 \<or> offset < 0 then (Inl InvalidLimit, w)
     else (Inr (take (nat limit) (drop (nat offset) (f (w_db w)))), w))"

definition GetOrdersByUserID :: "uuid \<Rightarrow> int \<Rightarrow> int \<Rightarrow> order list io" where
  "GetOrdersByUserID u limit offset =
     io_wrap ''failed to get orders''
       (db_page limit offset (\<lambda>d. sort_key (\<lambda>r. - ord_created_at r)
                                    (filter (\<lambda>r. ord_user r = u) (db_orders d))))"

definition UpdateOrder :: "tx \<Rightarrow> order \<Rightarrow> tx io" where
  "UpdateOrder t r =
     io_wrap ''failed to update order''
       (tx_Exec t (UpdateOrderRow (ord_id r) (ord_filled r) (ord_status r)))"

definition GetActiveOrdersBySymbol :: "symbol \<Rightarrow> order list io" where
  "GetActiveOrdersBySymbol sy =
     io_wrap ''failed to get active orders''
       (db_Query (\<lambda>d. sort_key ord_created_at
          (filter (\<lambda>r. ord_symbol r = sy \<and>
             ord_status r \<in> {OrderStatusNew, OrderStatusPartiallyFilled}) (db_orders d))))"

section \<open>Rules for the driver\<close>

text \<open>What a successful call did, as elimination rules.\<close>

lemma io_bindE:
  assumes "io_bind m f w = (Inr y, w')"
  obtains x w1 where "m w = (Inr x, w1)" "f x w1 = (Inr y, w')"
  using assms by (auto simp: io_bind_def split: prod.splits sum.splits)

lemma io_wrapE:
  assumes "io_wrap msg m w = (Inr y, w')"
  obtains "m w = (Inr y, w')"
  using assms by (auto simp: io_wrap_def split: prod.splits sum.splits)

lemma io_not_foundE:
  assumes "io_not_found a b m w = (Inr y, w')"
  obtains "m w = (Inr y, w')"
  using assms by (auto simp: io_not_found_def split: prod.splits sum.splits)

lemma io_return_iff [simp]: "io_return x w = (Inr y, w') \<longleftrightarrow> y = x \<and> w' = w"
  by (auto simp: io_return_def)

lemma io_return_Inl [simp]: "io_return x w \<noteq> (Inl e, w')"
  by (simp add: io_return_def)

lemma io_error_iff [simp]: "io_error e w \<noteq> (Inr y, w')"
  by (simp add: io_error_def)

lemma db_BeginE:
  assumes "db_Begin w = (Inr t, w')"
  obtains "t = []" "w_db w' = w_db w" "w_now w' = w_now w"
  using assms by (auto simp: db_Begin_def db_call_def Let_def split: list.splits if_splits)

lemma tx_ExecE:
  assumes "tx_Exec t wr w = (Inr t', w')"
  obtains "t' = t @ [wr]" "w_db w' = w_db w" "w_now w' = w_now w"
  using assms by (auto simp: tx_Exec_def db_call_def Let_def split: list.splits if_splits sum.splits)

lemma tx_CommitE:
  assumes "tx_Commit t w = (Inr x, w')"
  obtains "fold_result (db_apply (w_now w)) t (w_db w) = Inr (w_db w')" "w_now w' = w_now w"
  using assms by (auto simp: tx_Commit_def db_call_def Let_def split: list.splits if_splits sum.splits)

lemma db_ExecE:
  assumes "db_Exec wr w = (Inr x, w')"
  obtains "db_apply (w_now w) wr (w_db w) = Inr (w_db w')" "w_now w' = w_now w"
  using assms by (auto simp: db_Exec_def db_call_def Let_def split: list.splits if_splits sum.splits)

lemma db_Query_Inr:
  "db_Query f w = (Inr x, w') \<Longrightarrow> x = f (w_db w) \<and> w_db w' = w_db w \<and> w_now w' = w_now w"
  by (cases "w_faults w") (simp_all add: db_Query_def db_call_def Let_def split: if_splits, auto)

lemma db_QueryE:
  assumes "db_Query f w = (Inr x, w')"
  obtains "x = f (w_db w)" "w_db w' = w_db w" "w_now w' = w_now w"
  using db_Query_Inr [OF assms] that by blast

lemma db_QueryRowE:
  assumes "db_QueryRow f w = (Inr x, w')"
  obtains "f (w_db w) = Some x" "w_db w' = w_db w" "w_now w' = w_now w"
  using assms by (auto simp: db_QueryRow_def db_call_def Let_def split: list.splits if_splits option.splits)

lemma GetAccountByUserIDAndCurrencyE:
  assumes "GetAccountByUserIDAndCurrency u c w = (Inr a, w')"
  obtains "find (\<lambda>a. acc_user a = u \<and> acc_currency a = c) (db_accounts (w_db w)) = Some a"
    "w_db w' = w_db w" "w_now w' = w_now w"
  using assms unfolding GetAccountByUserIDAndCurrency_def by (auto elim!: io_not_foundE db_QueryRowE)

lemma GetAccountByIDE:
  assumes "GetAccountByID i w = (Inr a, w')"
  obtains "find (\<lambda>a. acc_id a = i) (db_accounts (w_db w)) = Some a"
    "w_db w' = w_db w" "w_now w' = w_now w"
  using assms unfolding GetAccountByID_def by (auto elim!: io_not_foundE db_QueryRowE)

lemma UpdateAccountBalanceE:
  assumes "UpdateAccountBalance t i av ho w = (Inr t', w')"
  obtains "t' = t @ [UpdateAccount i av ho]" "w_db w' = w_db w" "w_now w' = w_now w"
  using assms unfolding UpdateAccountBalance_def by (auto elim!: io_wrapE tx_ExecE)

lemma UpdateOrderE:
  assumes "UpdateOrder t r w = (Inr t', w')"
  obtains "t' = t @ [UpdateOrderRow (ord_id r) (ord_filled r) (ord_status r)]"
    "w_db w' = w_db w" "w_now w' = w_now w"
  using assms unfolding UpdateOrder_def by (auto elim!: io_wrapE tx_ExecE)

lemmas io_elims = io_bindE io_wrapE db_BeginE tx_ExecE tx_CommitE db_ExecE db_QueryE db_QueryRowE
  GetAccountByUserIDAndCurrencyE GetAccountByIDE UpdateAccountBalanceE UpdateOrderE

text \<open>Without faults every call computes its function.\<close>

lemma no_fault_simps [simp]:
  assumes "w_faults w = []"
  shows "db_Begin w = (Inr [], w)"
    and "tx_Exec t wr w = (case fold_result (db_apply (w_now w)) (t @ [wr]) (w_db w) of
           Inl e \<Rightarrow> (Inl e, w) | Inr _ \<Rightarrow> (Inr (t @ [wr]), w))"
    and "tx_Commit t w = (case fold_result (db_apply (w_now w)) t (w_db w) of
           Inl e \<Rightarrow> (Inl e, w) | Inr d \<Rightarrow> (Inr (), w\<lparr>w_db := d\<rparr>))"
    and "db_Exec wr w = (case db_apply (w_now w) wr (w_db w) of
           Inl e \<Rightarrow> (Inl e, w) | Inr d \<Rightarrow> (Inr (), w\<lparr>w_db := d\<rparr>))"
    and "db_Query f w = (Inr (f (w_db w)), w)"
    and "db_QueryRow g w = (case g (w_db w) of None \<Rightarrow> (Inl ErrNoRows, w) | Some x \<Rightarrow> (Inr x, w))"
  using assms
  by (simp_all add: db_Begin_def tx_Exec_def tx_Commit_def db_Exec_def db_Query_def db_QueryRow_def
      db_call_def io_return_def)

section \<open>Reads, atomic operations, invariants\<close>

named_theorems io_rules \<open>compositional rules for operations on the world\<close>

definition io_reads :: "'a io \<Rightarrow> bool" where
  "io_reads m \<longleftrightarrow> (\<forall>w r w'. m w = (r, w') \<longrightarrow> w_db w' = w_db w)"

text \<open>An operation is atomic when an error leaves the committed tables as they were.\<close>

definition io_atomic :: "'a io \<Rightarrow> bool" where
  "io_atomic m \<longleftrightarrow> (\<forall>w e w'. m w = (Inl e, w') \<longrightarrow> w_db w' = w_db w)"

definition io_keeps :: "(db \<Rightarrow> bool) \<Rightarrow> 'a io \<Rightarrow> bool" where
  "io_keeps P m \<longleftrightarrow> (\<forall>w r w'. m w = (r, w') \<longrightarrow> P (w_db w) \<longrightarrow> P (w_db w'))"

lemma io_reads_prims [io_rules]:
  "io_reads (io_return x)" "io_reads (io_error e)" "io_reads db_Begin" "io_reads (tx_Exec t wr)"
  "io_reads (db_Query f)" "io_reads (db_QueryRow g)" "io_reads (db_page l k h)"
  by (auto simp: io_reads_def io_return_def io_error_def db_Begin_def tx_Exec_def db_Query_def
      db_QueryRow_def db_page_def db_call_def Let_def split: list.splits sum.splits option.splits)

lemma io_reads_bind [io_rules]: "io_reads m \<Longrightarrow> (\<And>x. io_reads (f x)) \<Longrightarrow> io_reads (io_bind m f)"
  unfolding io_reads_def io_bind_def by (auto split: prod.splits sum.splits)

lemma io_reads_wrap [io_rules]:
  "io_reads m \<Longrightarrow> io_reads (io_wrap msg m)" "io_reads m \<Longrightarrow> io_reads (io_not_found a b m)"
  unfolding io_reads_def io_wrap_def io_not_found_def by (auto split: prod.splits sum.splits)

lemma io_reads_repo [io_rules]:
  "io_reads (GetAccountByUserIDAndCurrency u c)" "io_reads (GetAccountsByUserID u)"
  "io_reads (UpdateAccountBalance t i av ho)" "io_reads (GetAccountByID i)"
  "io_reads (GetUserByEmail email)" "io_reads (GetUserByID i)" "io_reads (UserExists email)"
  "io_reads (GetOrderByID i)" "io_reads (GetOrdersByUserID u l k)" "io_reads (UpdateOrder t r)"
  "io_reads (GetActiveOrdersBySymbol sy)"
  unfolding GetAccountByUserIDAndCurrency_def GetAccountsByUserID_def UpdateAccountBalance_def
    GetAccountByID_def GetUserByEmail_def GetUserByID_def UserExists_def GetOrderByID_def
    GetOrdersByUserID_def UpdateOrder_def GetActiveOrdersBySymbol_def
  by (intro io_rules)+

lemma io_atomic_reads: "io_reads m \<Longrightarrow> io_atomic m"
  unfolding io_reads_def io_atomic_def by auto

lemma io_atomic_prims [io_rules]:
  "io_atomic (io_return x)" "io_atomic (io_error e)" "io_atomic (tx_Commit t)" "io_atomic (db_Exec wr)"
  by (auto simp: io_atomic_def io_return_def io_error_def tx_Commit_def db_Exec_def db_call_def Let_def
      split: list.splits sum.splits if_splits)

lemma io_atomic_wrap [io_rules]: "io_atomic m \<Longrightarrow> io_atomic (io_wrap msg m)"
  unfolding io_atomic_def io_wrap_def by (auto split: prod.splits sum.splits)

lemma io_atomic_bind_reads [io_rules]:
  "io_reads m \<Longrightarrow> (\<And>x. io_atomic (f x)) \<Longrightarrow> io_atomic (io_bind m f)"
  unfolding io_atomic_def io_reads_def io_bind_def by (auto split: prod.splits sum.splits)

lemma io_atomic_bind_return [io_rules]:
  "io_atomic m \<Longrightarrow> io_atomic (io_bind m (\<lambda>x. io_return (g x)))"
  unfolding io_atomic_def io_bind_def io_return_def by (auto split: prod.splits sum.splits)

lemma io_keeps_reads [io_rules]: "io_reads m \<Longrightarrow> io_keeps P m"
  unfolding io_keeps_def io_reads_def by auto

lemma io_keeps_bind [io_rules]: "io_keeps P m \<Longrightarrow> (\<And>x. io_keeps P (f x)) \<Longrightarrow> io_keeps P (io_bind m f)"
  unfolding io_keeps_def io_bind_def by (auto split: prod.splits sum.splits)

lemma io_keeps_wrap [io_rules]:
  "io_keeps P m \<Longrightarrow> io_keeps P (io_wrap msg m)" "io_keeps P m \<Longrightarrow> io_keeps P (io_not_found a b m)"
  unfolding io_keeps_def io_wrap_def io_not_found_def by (auto split: prod.splits sum.splits)

lemma io_keeps_prims [io_rules]:
  assumes "\<And>now wr d d'. db_apply now wr d = Inr d' \<Longrightarrow> P d \<Longrightarrow> P d'"
  shows "io_keeps P (tx_Commit t)" and "io_keeps P (db_Exec wr)"
proof -
  have "P d'" if "fold_result (db_apply now) t d = Inr d'" "P d" for now d d'
    using fold_result_inv [where f = "db_apply now" and P = P, OF assms that(2,1)] .
  then show "io_keeps P (tx_Commit t)"
    by (auto simp: io_keeps_def tx_Commit_def db_call_def Let_def
        split: list.splits sum.splits if_splits)
  show "io_keeps P (db_Exec wr)"
    using assms by (auto simp: io_keeps_def db_Exec_def db_call_def Let_def
        split: list.splits sum.splits if_splits)
qed

section \<open>Relations every step keeps\<close>

text \<open>
  \<open>io_steps R m\<close>: whatever the outcome of \<open>m\<close>, the worlds before and after it are in \<open>R\<close>. For a
  preorder the rules below follow the structure of an operation.
\<close>

definition io_steps :: "(world \<Rightarrow> world \<Rightarrow> bool) \<Rightarrow> 'a io \<Rightarrow> bool" where
  "io_steps R m \<longleftrightarrow> (\<forall>w r w'. m w = (r, w') \<longrightarrow> R w w')"

lemma io_stepsD: "io_steps R m \<Longrightarrow> m w = (r, w') \<Longrightarrow> R w w'"
  by (simp add: io_steps_def)

locale step_relation =
  fixes R :: "world \<Rightarrow> world \<Rightarrow> bool"
  assumes step_refl: "R w w"
    and step_trans: "R w w' \<Longrightarrow> R w' w'' \<Longrightarrow> R w w''"
begin

lemma steps_return: "io_steps R (io_return x)" and steps_error: "io_steps R (io_error e)"
  by (simp_all add: io_steps_def io_return_def io_error_def step_refl)

lemma steps_bind: "io_steps R m \<Longrightarrow> (\<And>x. io_steps R (f x)) \<Longrightarrow> io_steps R (io_bind m f)"
  unfolding io_steps_def io_bind_def by (auto split: prod.splits sum.splits) (metis step_trans)

lemma steps_wrap: "io_steps R m \<Longrightarrow> io_steps R (io_wrap msg m)"
  unfolding io_steps_def io_wrap_def by (auto split: prod.splits sum.splits)

lemma steps_not_found: "io_steps R m \<Longrightarrow> io_steps R (io_not_found a b m)"
  unfolding io_steps_def io_not_found_def by (auto split: prod.splits sum.splits)

lemma steps_if: "(c \<Longrightarrow> io_steps R m) \<Longrightarrow> (\<not> c \<Longrightarrow> io_steps R n) \<Longrightarrow> io_steps R (if c then m else n)"
  by simp

lemmas steps = steps_return steps_error steps_bind steps_wrap steps_not_found steps_if

end

text \<open>A relation that looks at the tables only.\<close>

locale table_relation = step_relation +
  assumes step_same: "w_db w' = w_db w \<Longrightarrow> R w w'"
begin

lemma steps_reads: "io_reads m \<Longrightarrow> io_steps R m"
  by (auto simp: io_reads_def io_steps_def intro: step_same)

text \<open>A transaction starts empty.\<close>

lemma steps_begin:
  assumes "io_steps R (f [])"
  shows "io_steps R (io_bind (io_wrap msg db_Begin) f)"
  unfolding io_steps_def
proof (intro allI impI)
  fix w r w' assume m: "io_bind (io_wrap msg db_Begin) f w = (r, w')"
  obtain res w1 where b: "db_Begin w = (res, w1)" by (cases "db_Begin w")
  have rd: "w_db w1 = w_db w" using b io_reads_prims(3) by (auto simp: io_reads_def)
  show "R w w'"
  proof (cases res)
    case (Inl e)
    then show ?thesis using m b step_same [OF rd] by (auto simp: io_bind_def io_wrap_def)
  next
    case (Inr t)
    then have "t = []" using b by (auto elim: db_BeginE)
    then have "f [] w1 = (r, w')" using m b Inr by (auto simp: io_bind_def io_wrap_def)
    then show ?thesis using step_trans [OF step_same [OF rd]] assms by (auto simp: io_steps_def)
  qed
qed

text \<open>An atomic operation takes the steps its successes take.\<close>

lemma steps_atomic:
  assumes "io_atomic m" and "\<And>w x w'. m w = (Inr x, w') \<Longrightarrow> R w w'"
  shows "io_steps R m"
  unfolding io_steps_def
proof (intro allI impI)
  fix w r w' assume "m w = (r, w')"
  then show "R w w'"
    using assms step_same by (cases r) (auto simp: io_atomic_def)
qed

end

text \<open>Without scheduled faults none appear, and the transaction clock stands still.\<close>

definition calm :: "world \<Rightarrow> world \<Rightarrow> bool" where
  "calm w w' \<longleftrightarrow> (w_faults w = [] \<longrightarrow> w_faults w' = [] \<and> w_now w' = w_now w)"

interpretation calm: step_relation calm
  by unfold_locales (auto simp: calm_def)

lemma calm_prims:
  "io_steps calm db_Begin" "io_steps calm (tx_Exec t wr)" "io_steps calm (tx_Commit t)"
  "io_steps calm (db_Exec wr)" "io_steps calm (db_Query f)" "io_steps calm (db_QueryRow g)"
  by (auto simp: io_steps_def calm_def split: sum.splits option.splits)

lemma calm_repo:
  "io_steps calm (GetAccountByUserIDAndCurrency u c)" "io_steps calm (GetAccountByID i)"
  "io_steps calm (UpdateAccountBalance t i av ho)" "io_steps calm (UpdateOrder t r)"
  "io_steps calm (CreateOrderRow r)"
  unfolding GetAccountByUserIDAndCurrency_def GetAccountByID_def UpdateAccountBalance_def UpdateOrder_def
    CreateOrderRow_def
  by (intro calm.steps calm_prims)+

text \<open>
  Whatever happens to the tables is a sequence of accepted statements: an invariant of the statements
  is one of every operation.
\<close>

inductive db_writes :: "db \<Rightarrow> db \<Rightarrow> bool" where
  no_write: "db_writes d d"
| one_more: "db_writes d d' \<Longrightarrow> db_apply now wr d' = Inr d'' \<Longrightarrow> db_writes d d''"

lemma db_writes_trans: "db_writes d' d'' \<Longrightarrow> db_writes d d' \<Longrightarrow> db_writes d d''"
  by (induction rule: db_writes.induct) (auto intro: db_writes.intros)

lemma db_writes_keep:
  assumes "db_writes d d'" and "P d" and "\<And>now wr d d'. db_apply now wr d = Inr d' \<Longrightarrow> P d \<Longrightarrow> P d'"
  shows "P d'"
  using assms by (induction rule: db_writes.induct) auto

lemma fold_writes: "fold_result (db_apply now) t d = Inr d' \<Longrightarrow> db_writes d d'"
  using fold_result_inv [where f = "db_apply now" and P = "db_writes d" and xs = t and s = d and s' = d']
  by (blast intro: db_writes.intros)

definition writes :: "world \<Rightarrow> world \<Rightarrow> bool" where
  "writes w w' \<longleftrightarrow> db_writes (w_db w) (w_db w')"

interpretation writes: table_relation writes
  by unfold_locales (auto simp: writes_def intro: no_write db_writes_trans)

lemmas writes_reads = writes.steps_reads

lemma writes_prims:
  "io_steps writes db_Begin" "io_steps writes (tx_Exec t wr)" "io_steps writes (tx_Commit t)"
  "io_steps writes (db_Exec wr)" "io_steps writes (db_Query f)" "io_steps writes (db_QueryRow g)"
proof -
  show "io_steps writes (tx_Commit t)" "io_steps writes (db_Exec wr)"
    by (auto simp: io_steps_def writes_def tx_Commit_def db_Exec_def db_call_def Let_def
        intro: no_write fold_writes one_more [OF no_write]
        split: list.splits sum.splits if_splits)
qed (intro writes_reads io_rules)+

lemma writes_repo:
  "io_steps writes (GetAccountByUserIDAndCurrency u c)" "io_steps writes (GetAccountByID i)"
  "io_steps writes (UpdateAccountBalance t i av ho)" "io_steps writes (UpdateOrder t r)"
  "io_steps writes (CreateOrderRow r)" "io_steps writes (CreateUser i a1 a2 a3 email hash)"
proof -
  show "io_steps writes (CreateOrderRow r)"
    unfolding CreateOrderRow_def by (intro writes.steps writes_prims)
  have "io_steps writes (io_bind (db_Exec (InsertUser v a1 a2 a3)) (\<lambda>_. io_return v))" for v
    by (intro writes.steps writes_prims)
  then show "io_steps writes (CreateUser i a1 a2 a3 email hash)"
    unfolding CreateUser_def by (intro writes.steps) (simp add: io_steps_def Let_def)
qed (intro writes_reads io_rules)+

section \<open>Amounts of the schema\<close>

definition is_numeric :: "decimal \<Rightarrow> bool" where
  "is_numeric x \<longleftrightarrow> numeric_round x = x"

lemma numeric_round_minus [simp]: "numeric_round (- x) = - numeric_round x"
  by (simp add: numeric_round_def)

lemma numeric_round_zero [simp]: "numeric_round 0 = 0"
  by (simp add: numeric_round_def)

lemma numeric_round_pos: "0 \<le> x \<Longrightarrow> numeric_round x = of_int \<lfloor>x * 10 ^ 10 + 1 / 2\<rfloor> / 10 ^ 10"
  by (cases "x = 0") (simp_all add: numeric_round_def floor_eq_iff)

lemma sgn_of_int: "\<exists>s::int. sgn (x :: rat) = of_int s"
  by (rule exI [of _ "if x = 0 then 0 else if 0 < x then 1 else - 1"]) (simp add: sgn_if)

lemma numeric_round_int [simp]: "numeric_round (of_int k / 10 ^ 10) = of_int k / 10 ^ 10"
proof -
  have pos: "numeric_round (of_int k / 10 ^ 10) = of_int k / 10 ^ 10" if "0 \<le> k" for k :: int
  proof -
    have "\<lfloor>(of_int k :: rat) + 1 / 2\<rfloor> = k" by linarith
    with that show ?thesis by (simp add: numeric_round_pos)
  qed
  show ?thesis
  proof (cases "0 \<le> k")
    case False
    then have "numeric_round (- (of_int (- k) / 10 ^ 10)) = - (of_int (- k) / 10 ^ 10)"
      by (subst numeric_round_minus) (simp only: pos)
    then show ?thesis by simp
  qed (rule pos)
qed

lemma is_numeric_iff: "is_numeric x \<longleftrightarrow> (\<exists>k. x = of_int k / 10 ^ 10)"
proof
  assume "is_numeric x"
  then have "x = sgn x * of_int \<lfloor>\<bar>x\<bar> * 10 ^ 10 + 1 / 2\<rfloor> / 10 ^ 10"
    by (simp add: is_numeric_def numeric_round_def)
  moreover obtain s :: int where "sgn x = of_int s"
    using sgn_of_int by blast
  ultimately show "\<exists>k. x = of_int k / 10 ^ 10" by (metis of_int_mult)
next
  assume "\<exists>k. x = of_int k / 10 ^ 10"
  then show "is_numeric x" unfolding is_numeric_def by (metis numeric_round_int)
qed

lemma is_numeric_round [simp]: "is_numeric (numeric_round x)"
proof -
  obtain s :: int where "sgn x = of_int s"
    using sgn_of_int by blast
  then have "numeric_round x = of_int (s * \<lfloor>\<bar>x\<bar> * 10 ^ 10 + 1 / 2\<rfloor>) / 10 ^ 10"
    by (simp add: numeric_round_def)
  then show ?thesis using is_numeric_iff by blast
qed

lemma is_numeric_add: "is_numeric x \<Longrightarrow> is_numeric y \<Longrightarrow> is_numeric (x + y)"
  unfolding is_numeric_iff by (metis add_divide_distrib of_int_add)

lemma is_numeric_minus: "is_numeric x \<Longrightarrow> is_numeric (- x)"
  by (simp add: is_numeric_def)

lemma is_numeric_diff: "is_numeric x \<Longrightarrow> is_numeric y \<Longrightarrow> is_numeric (x - y)"
  using is_numeric_add [of x "- y"] is_numeric_minus by simp

lemma is_numeric_zero [simp]: "is_numeric 0"
  by (simp add: is_numeric_def)

lemma numeric_round_mono_pos: "0 \<le> x \<Longrightarrow> x \<le> y \<Longrightarrow> numeric_round x \<le> numeric_round y"
  by (simp add: numeric_round_pos divide_le_cancel floor_mono)

lemma numeric_round_nonneg: "0 \<le> x \<Longrightarrow> 0 \<le> numeric_round x"
  using numeric_round_mono_pos [of 0 x] by simp

lemma numeric_round_close: "\<bar>numeric_round x - x\<bar> \<le> 1 / (2 * 10 ^ 10)"
proof -
  have pos: "\<bar>numeric_round x - x\<bar> \<le> 1 / (2 * 10 ^ 10)" if "0 \<le> x" for x :: rat
  proof -
    have "\<bar>of_int \<lfloor>x * 10 ^ 10 + 1 / 2\<rfloor> - x * 10 ^ 10\<bar> \<le> (1 / 2 :: rat)" by linarith
    then show ?thesis by (simp add: numeric_round_pos that abs_le_iff field_simps)
  qed
  show ?thesis
  proof (cases "0 \<le> x")
    case False
    then show ?thesis using pos [of "- x"] by (simp add: abs_minus_commute)
  qed (rule pos)
qed

lemma to_numeric_Inr: "to_numeric x = Inr y \<Longrightarrow> y = numeric_round x"
  by (auto simp: to_numeric_def Let_def split: if_splits)

lemma to_numeric_ok: "\<bar>numeric_round x\<bar> < 10 ^ 20 \<Longrightarrow> to_numeric x = Inr (numeric_round x)"
  by (simp add: to_numeric_def Let_def)

text \<open>A value a column can hold: storing it stores it unchanged.\<close>

definition stored :: "decimal \<Rightarrow> bool" where
  "stored x \<longleftrightarrow> to_numeric x = Inr x"

lemma stored_iff: "stored x \<longleftrightarrow> is_numeric x \<and> \<bar>x\<bar> < 10 ^ 20"
  by (auto simp: stored_def is_numeric_def to_numeric_def Let_def split: if_splits)

lemma stored_numeric: "stored x \<Longrightarrow> is_numeric x"
  by (simp add: stored_iff)

lemma to_numeric_stored: "to_numeric x = Inr y \<Longrightarrow> stored y"
  using is_numeric_round by (auto simp: stored_iff to_numeric_def Let_def split: if_splits)

section \<open>Schema invariant\<close>

text \<open>
  What the constraints and column types guarantee: keys are unique, references resolve, and every
  stored amount is a \<open>NUMERIC(30,10)\<close>.
\<close>

definition acc_key :: "account \<Rightarrow> uuid \<times> currency" where
  "acc_key a = (acc_user a, acc_currency a)"

definition order_row :: "db \<Rightarrow> order \<Rightarrow> bool" where
  "order_row d r \<longleftrightarrow> has_user d (ord_user r) \<and> ord_symbol r \<in> {''BTC-USD'', ''ETH-USD''} \<and>
     ord_side r \<in> {''BUY'', ''SELL''} \<and> ord_type r \<in> {''MARKET'', ''LIMIT''}"

definition db_wf :: "db \<Rightarrow> bool" where
  "db_wf d \<longleftrightarrow>
     distinct (map usr_id (db_users d)) \<and> distinct (map usr_email (db_users d)) \<and>
     distinct (map acc_id (db_accounts d)) \<and> distinct (map acc_key (db_accounts d)) \<and>
     (\<forall>a \<in> set (db_accounts d).
        has_user d (acc_user a) \<and> stored (acc_available a) \<and> stored (acc_hold a)) \<and>
     (\<forall>e \<in> set (db_entries d). has_account d (le_account e) \<and> stored (le_amount e)) \<and>
     distinct (map ord_id (db_orders d)) \<and>
     (\<forall>r \<in> set (db_orders d). order_row d r) \<and>
     distinct (map (\<lambda>k. (ik_user k, ik_key k)) (db_idem d))"

lemma db_empty_wf: "db_wf db_empty"
  by (simp add: db_wf_def db_empty_def)

lemma set_balances_sel [simp]:
  "acc_id (set_balances x y a) = acc_id a" "acc_user (set_balances x y a) = acc_user a"
  "acc_currency (set_balances x y a) = acc_currency a" "acc_key (set_balances x y a) = acc_key a"
  "acc_available (set_balances x y a) = x" "acc_hold (set_balances x y a) = y"
  by (simp_all add: set_balances_def acc_key_def)

lemma update_account_Inr:
  assumes "update_account i av ho d = Inr d'"
  shows "d' = d\<lparr>db_accounts := map (\<lambda>a. if acc_id a = i
           then set_balances (numeric_round av) (numeric_round ho) a else a) (db_accounts d)\<rparr>"
  using assms by (auto simp: update_account_def dest!: to_numeric_Inr split: sum.splits)

lemma update_account_stored:
  "update_account i av ho d = Inr d' \<Longrightarrow> stored (numeric_round av) \<and> stored (numeric_round ho)"
  using to_numeric_stored to_numeric_Inr by (fastforce simp: update_account_def split: sum.splits)

lemma insert_entry_Inr:
  assumes "insert_entry now e d = Inr d'"
  shows "has_account d (le_account e)" and "stored (numeric_round (le_amount e))"
    and "d' = d\<lparr>db_entries := db_entries d @
           [e\<lparr>le_amount := numeric_round (le_amount e), le_created_at := now\<rparr>]\<rparr>"
  using assms to_numeric_stored to_numeric_Inr
  by (fastforce simp: insert_entry_def split: sum.splits if_splits)+

lemma map_acc_upd:
  assumes "\<And>a. f (set_balances x y a) = f a"
  shows "map f (map (\<lambda>a. if acc_id a = i then set_balances x y a else a) as) = map f as"
  using assms by (simp cong: if_cong)

lemma has_account_map: "has_account d a \<longleftrightarrow> a \<in> set (map acc_id (db_accounts d))"
  by (simp add: has_account_def)

lemma has_account_set_balances [simp]:
  "has_account (d\<lparr>db_accounts := map (\<lambda>a. if acc_id a = i then set_balances x y a else a) (db_accounts d)\<rparr>) b
     \<longleftrightarrow> has_account d b"
  unfolding has_account_map by (simp add: map_acc_upd del: map_map)

lemma has_frames [simp]:
  "has_user (d\<lparr>db_accounts := as\<rparr>) u = has_user d u" "has_user (d\<lparr>db_entries := es\<rparr>) u = has_user d u"
  "has_user (d\<lparr>db_orders := os\<rparr>) u = has_user d u" "has_user (d\<lparr>db_idem := ks\<rparr>) u = has_user d u"
  "has_account (d\<lparr>db_entries := es\<rparr>) u = has_account d u"
  "has_account (d\<lparr>db_orders := os\<rparr>) u = has_account d u"
  "has_account (d\<lparr>db_idem := ks\<rparr>) u = has_account d u"
  "order_row (d\<lparr>db_accounts := as\<rparr>) r = order_row d r" "order_row (d\<lparr>db_entries := es\<rparr>) r = order_row d r"
  "order_row (d\<lparr>db_orders := os\<rparr>) r = order_row d r" "order_row (d\<lparr>db_idem := ks\<rparr>) r = order_row d r"
  by (simp_all add: has_user_def has_account_def order_row_def)

lemma update_account_wf:
  assumes "update_account i av ho d = Inr d'" and "db_wf d"
  shows "db_wf d'"
  using assms(2) update_account_stored [OF assms(1)]
  unfolding update_account_Inr [OF assms(1)] db_wf_def
  by (auto simp: map_acc_upd simp del: map_map)

lemma insert_entry_wf:
  assumes "insert_entry now e d = Inr d'" and "db_wf d"
  shows "db_wf d'"
  using assms(2) insert_entry_Inr [OF assms(1)] by (auto simp: db_wf_def)

lemma insert_user_wf:
  assumes "insert_user u a1 a2 a3 d = Inr d'" and "db_wf d"
  shows "db_wf d'"
proof -
  from assms(1) have d': "d' = d\<lparr>db_users := db_users d @ [u],
      db_accounts := db_accounts d @ [new_account a1 (usr_id u) CurrencyUSD,
        new_account a2 (usr_id u) CurrencyBTC, new_account a3 (usr_id u) CurrencyETH]\<rparr>"
    and new: "\<not> has_user d (usr_id u)" "usr_email u \<notin> usr_email ` set (db_users d)"
      "distinct [a1, a2, a3]" "\<not> has_account d a1" "\<not> has_account d a2" "\<not> has_account d a3"
    by (auto simp: insert_user_def split: if_splits)
  have "(usr_id u, c) \<notin> acc_key ` set (db_accounts d)" for c
    using assms(2) new(1) by (auto simp: db_wf_def acc_key_def)
  then show ?thesis
    using assms(2) new unfolding d' db_wf_def
    by (auto simp: has_user_def has_account_def order_row_def new_account_def acc_key_def stored_iff)
qed

lemma insert_order_Inr:
  assumes "insert_order r d = Inr d'"
  shows "order_row d r" and "ord_id r \<notin> ord_id ` set (db_orders d)"
    and "\<exists>p x f. to_numeric_opt (ord_price r) = Inr p \<and> to_numeric (ord_qty r) = Inr x \<and>
      to_numeric (ord_filled r) = Inr f \<and>
      d' = d\<lparr>db_orders := db_orders d @ [r\<lparr>ord_price := p, ord_qty := x, ord_filled := f\<rparr>]\<rparr>"
  using assms by (simp_all add: insert_order_def order_row_def split: if_split_asm sum.split_asm)

lemma insert_order_wf:
  assumes "insert_order r d = Inr d'" and "db_wf d"
  shows "db_wf d'"
proof -
  obtain p x f where d': "d' = d\<lparr>db_orders := db_orders d @ [r\<lparr>ord_price := p, ord_qty := x, ord_filled := f\<rparr>]\<rparr>"
    using insert_order_Inr(3) [OF assms(1)] by blast
  have "order_row d (r\<lparr>ord_price := p, ord_qty := x, ord_filled := f\<rparr>)"
    using insert_order_Inr(1) [OF assms(1)] by (simp add: order_row_def)
  with insert_order_Inr(2) [OF assms(1)] assms(2) show ?thesis
    unfolding d' db_wf_def by auto
qed

lemma order_upd_sel:
  "ord_id (if ord_id r = i then r\<lparr>ord_filled := x, ord_status := s\<rparr> else r) = ord_id r"
  "order_row d (r\<lparr>ord_filled := x, ord_status := s\<rparr>) = order_row d r"
  by (simp_all add: order_row_def)

lemma update_order_wf:
  assumes "update_order i f s d = Inr d'" and "db_wf d"
  shows "db_wf d'"
proof -
  from assms(1) obtain x where d': "d' = d\<lparr>db_orders := map (\<lambda>r. if ord_id r = i
      then r\<lparr>ord_filled := x, ord_status := s\<rparr> else r) (db_orders d)\<rparr>"
    by (auto simp: update_order_def split: sum.splits)
  show ?thesis using assms(2) unfolding d' db_wf_def
    by (auto simp: order_upd_sel o_def)
qed

lemma insert_idem_wf:
  assumes "insert_idem now k d = Inr d'" and "db_wf d"
  shows "db_wf d'"
  using assms by (auto simp: insert_idem_def db_wf_def split: if_splits)

lemma db_apply_wf: "db_apply now wr d = Inr d' \<Longrightarrow> db_wf d \<Longrightarrow> db_wf d'"
  by (cases wr) (auto intro: insert_user_wf insert_entry_wf update_account_wf insert_order_wf
      update_order_wf insert_idem_wf)

lemmas io_keeps_wf [io_rules] = io_keeps_prims [where P = db_wf, OF db_apply_wf]

end
