(* ===== verification/Ledger.thy ===== *)
theory Ledger
  imports Database
begin

text \<open>
  \<open>internal/ledger\<close>: the journal repository (\<open>ledger.go\<close>) and the ledger service
  (\<open>service.go\<close>): top-ups, holds, releases and transfers.

  Every operation runs in one database transaction but reads the accounts through \<open>s.db\<close>, that
  is, from the committed tables. \<open>uuid.New()\<close> is the argument \<open>jid\<close>.
\<close>

section \<open>ledger.go\<close>

definition journal_total :: "ledger_entry list \<Rightarrow> decimal" where
  "journal_total entries = foldl (\<lambda>total e. total + le_amount e) 0 entries"

fun insert_entries :: "tx \<Rightarrow> ledger_entry list \<Rightarrow> tx io" where
  "insert_entries t [] = io_return t"
| "insert_entries t (e # es) =
     io_bind (io_wrap ''failed to create ledger entry'' (tx_Exec t (InsertEntry e)))
             (\<lambda>t'. insert_entries t' es)"

definition CreateJournal :: "tx \<Rightarrow> ledger_entry list \<Rightarrow> tx io" where
  "CreateJournal t entries =
     (if entries = [] then io_error (Errorf ''journal must have at least one entry'')
      else if journal_total entries \<noteq> 0
      then io_error (ErrorfDec ''journal is not balanced: total = %s'' [journal_total entries])
      else insert_entries t entries)"

definition GetLedgerEntriesByJournalID :: "uuid \<Rightarrow> ledger_entry list io" where
  "GetLedgerEntriesByJournalID j =
     io_wrap ''failed to get ledger entries''
       (db_Query (\<lambda>d. sort_key le_created_at (filter (\<lambda>e. le_journal e = j) (db_entries d))))"

text \<open>
  \<open>rows.Scan\<close> is an error when the number of destinations is not the number of columns: the loop
  below the query passes nine destinations for eight columns, so its first round returns.
\<close>

definition by_account_columns :: nat where
  "by_account_columns = length [''id'', ''journal_id'', ''account_id'', ''amount'', ''currency'',
     ''ref_type'', ''ref_id'', ''created_at'']"

definition by_account_dests :: nat where
  "by_account_dests = length [''ID'', ''JournalID'', ''AccountID'', ''Amount'', ''Amount'', ''Currency'',
     ''RefType'', ''RefID'', ''CreatedAt'']"

fun scan_rows :: "nat \<Rightarrow> nat \<Rightarrow> 'a list \<Rightarrow> go_error + 'a list" where
  "scan_rows columns dests [] = Inr []"
| "scan_rows columns dests (r # rs) =
     (if columns \<noteq> dests then Inl ScanArity else map_sum id ((#) r) (scan_rows columns dests rs))"

definition GetLedgerEntriesByAccountID :: "uuid \<Rightarrow> int \<Rightarrow> int \<Rightarrow> ledger_entry list io" where
  "GetLedgerEntriesByAccountID a limit offset =
     io_bind
       (io_wrap ''failed to get ledger entries''
         (db_page limit offset (\<lambda>d. sort_key (\<lambda>e. - le_created_at e)
                                      (filter (\<lambda>e. le_account e = a) (db_entries d)))))
       (\<lambda>rows. case scan_rows by_account_columns by_account_dests rows of
          Inl e \<Rightarrow> io_error (ErrorfWrap ''failed to scan ledger entry'' e)
        | Inr es \<Rightarrow> io_return es)"

definition journal_sum :: "db \<Rightarrow> uuid \<Rightarrow> decimal" where
  "journal_sum d j = sum_list (map le_amount (filter (\<lambda>e. le_journal e = j) (db_entries d)))"

definition ValidateJournalBalance :: "uuid \<Rightarrow> bool io" where
  "ValidateJournalBalance j =
     io_wrap ''failed to validate journal balance''
       (io_bind (db_Query (\<lambda>d. journal_sum d j)) (\<lambda>total. io_return (total = 0)))"

section \<open>service.go\<close>

definition mk_entry :: "uuid \<Rightarrow> uuid \<Rightarrow> decimal \<Rightarrow> currency \<Rightarrow> string \<Rightarrow> uuid \<Rightarrow> ledger_entry" where
  "mk_entry j a x c rt ri =
     \<lparr>le_journal = j, le_account = a, le_amount = x, le_currency = c,
      le_ref_type = rt, le_ref_id = ri, le_created_at = 0\<rparr>"

definition topup_entries :: "uuid \<Rightarrow> uuid \<Rightarrow> decimal \<Rightarrow> ledger_entry list" where
  "topup_entries jid a amount =
     [mk_entry jid a amount CurrencyUSD ''TOPUP'' jid,
      mk_entry jid uuid_nil (- amount) CurrencyUSD ''TOPUP'' jid]"

definition TopUpUser :: "uuid \<Rightarrow> uuid \<Rightarrow> decimal \<Rightarrow> account io" where
  "TopUpUser jid userID amount =
     (if amount \<le> 0 then io_error (Errorf ''amount must be positive'')
      else
        io_bind (io_wrap ''failed to begin transaction'' db_Begin) (\<lambda>t.
        io_bind (io_wrap ''failed to get USD account'' (GetAccountByUserIDAndCurrency userID CurrencyUSD)) (\<lambda>a.
        io_bind (io_wrap ''failed to create journal'' (CreateJournal t (topup_entries jid (acc_id a) amount))) (\<lambda>t.
        let newBalance = acc_available a + amount in
        io_bind (io_wrap ''failed to update account balance''
                  (UpdateAccountBalance t (acc_id a) newBalance (acc_hold a))) (\<lambda>t.
        io_bind (io_wrap ''failed to commit transaction'' (tx_Commit t)) (\<lambda>_.
        io_return (a\<lparr>acc_available := newBalance\<rparr>)))))))"

definition HoldFunds :: "uuid \<Rightarrow> currency \<Rightarrow> decimal \<Rightarrow> unit io" where
  "HoldFunds userID c amount =
     (if amount \<le> 0 then io_error (Errorf ''amount must be positive'')
      else
        io_bind (io_wrap ''failed to begin transaction'' db_Begin) (\<lambda>t.
        io_bind (io_wrap ''failed to get account'' (GetAccountByUserIDAndCurrency userID c)) (\<lambda>a.
        if acc_available a < amount
        then io_error (ErrorfDec ''insufficient funds: available=%s, required=%s'' [acc_available a, amount])
        else
          io_bind (io_wrap ''failed to update account balance''
                    (UpdateAccountBalance t (acc_id a) (acc_available a - amount) (acc_hold a + amount))) (\<lambda>t.
          io_wrap ''failed to commit transaction'' (tx_Commit t)))))"

definition ReleaseHold :: "uuid \<Rightarrow> currency \<Rightarrow> decimal \<Rightarrow> unit io" where
  "ReleaseHold userID c amount =
     (if amount \<le> 0 then io_error (Errorf ''amount must be positive'')
      else
        io_bind (io_wrap ''failed to begin transaction'' db_Begin) (\<lambda>t.
        io_bind (io_wrap ''failed to get account'' (GetAccountByUserIDAndCurrency userID c)) (\<lambda>a.
        if acc_hold a < amount
        then io_error (ErrorfDec ''insufficient held funds: held=%s, required=%s'' [acc_hold a, amount])
        else
          io_bind (io_wrap ''failed to update account balance''
                    (UpdateAccountBalance t (acc_id a) (acc_available a + amount) (acc_hold a - amount))) (\<lambda>t.
          io_wrap ''failed to commit transaction'' (tx_Commit t)))))"

definition transfer_entries :: "uuid \<Rightarrow> uuid \<Rightarrow> uuid \<Rightarrow> decimal \<Rightarrow> currency \<Rightarrow> string \<Rightarrow> uuid \<Rightarrow> ledger_entry list" where
  "transfer_entries jid from to amount c rt ri =
     [mk_entry jid from (- amount) c rt ri, mk_entry jid to amount c rt ri]"

definition TransferFunds ::
  "uuid \<Rightarrow> uuid \<Rightarrow> uuid \<Rightarrow> decimal \<Rightarrow> currency \<Rightarrow> string \<Rightarrow> uuid \<Rightarrow> unit io" where
  "TransferFunds jid from to amount c rt ri =
     (if amount \<le> 0 then io_error (Errorf ''amount must be positive'')
      else
        io_bind (io_wrap ''failed to begin transaction'' db_Begin) (\<lambda>t.
        io_bind (io_wrap ''failed to get from account'' (GetAccountByID from)) (\<lambda>fromAccount.
        io_bind (io_wrap ''failed to get to account'' (GetAccountByID to)) (\<lambda>toAccount.
        if acc_available fromAccount < amount
        then io_error (ErrorfDec ''insufficient funds in from account: available=%s, required=%s''
                        [acc_available fromAccount, amount])
        else
          io_bind (io_wrap ''failed to create journal''
                    (CreateJournal t (transfer_entries jid from to amount c rt ri))) (\<lambda>t.
          io_bind (io_wrap ''failed to update from account balance''
                    (UpdateAccountBalance t from (acc_available fromAccount - amount) (acc_hold fromAccount))) (\<lambda>t.
          io_bind (io_wrap ''failed to update to account balance''
                    (UpdateAccountBalance t to (acc_available toAccount + amount) (acc_hold toAccount))) (\<lambda>t.
          io_wrap ''failed to commit transaction'' (tx_Commit t))))))))"

section \<open>The account store as an interface\<close>

text \<open>The available and held amounts of an account: what the ledger sees of the account table.\<close>

definition account_at :: "db \<Rightarrow> uuid \<Rightarrow> account option" where
  "account_at d i = find (\<lambda>a. acc_id a = i) (db_accounts d)"

definition account_of :: "db \<Rightarrow> uuid \<Rightarrow> currency \<Rightarrow> account option" where
  "account_of d u c = find (\<lambda>a. acc_user a = u \<and> acc_currency a = c) (db_accounts d)"

definition balances :: "db \<Rightarrow> uuid \<Rightarrow> (decimal \<times> decimal) option" where
  "balances d i = map_option (\<lambda>a. (acc_available a, acc_hold a)) (account_at d i)"

locale account_store =
  fixes bal :: "'d \<Rightarrow> 'k \<Rightarrow> (decimal \<times> decimal) option"
    and put :: "'k \<Rightarrow> decimal \<Rightarrow> decimal \<Rightarrow> 'd \<Rightarrow> go_error + 'd"
    and valid :: "'d \<Rightarrow> bool"
  assumes put_bal: "put i x y d = Inr d' \<Longrightarrow>
      bal d' = (if bal d i = None then bal d else (bal d)(i \<mapsto> (numeric_round x, numeric_round y)))"
    and put_valid: "put i x y d = Inr d' \<Longrightarrow> valid d \<Longrightarrow> valid d'"
    and valid_numeric: "valid d \<Longrightarrow> bal d i = Some (x, y) \<Longrightarrow> is_numeric x \<and> is_numeric y"
begin

text \<open>Moving \<open>k\<close> between the two parts of an account is exact when \<open>k\<close> has ten decimals.\<close>

lemma move_exact:
  assumes "valid d" "bal d i = Some (x, y)" "is_numeric k" "put i (x + k) (y - k) d = Inr d'"
  shows "bal d' = (bal d)(i \<mapsto> (x + k, y - k))"
proof -
  have "is_numeric (x + k)" "is_numeric (y - k)"
    using valid_numeric [OF assms(1,2)] assms(3) by (auto intro: is_numeric_add is_numeric_diff)
  then show ?thesis using put_bal [OF assms(4)] assms(2) by (simp add: is_numeric_def)
qed

lemma move_back:
  assumes "valid d" "bal d i = Some (x, y)" "is_numeric k" "put i (x + k) (y - k) d = Inr d'"
    and "put i x y d' = Inr d''"
  shows "bal d'' = bal d"
proof -
  have b: "bal d' = (bal d)(i \<mapsto> (x + k, y - k))" using move_exact [OF assms(1-4)] .
  have "numeric_round x = x" "numeric_round y = y"
    using valid_numeric [OF assms(1,2)] by (auto simp: is_numeric_def)
  then show ?thesis using put_bal [OF assms(5)] assms(2) b by (auto simp: fun_eq_iff)
qed

text \<open>Without that assumption the sum of the two parts moves by at most one unit of the last place.\<close>

lemma move_close:
  assumes "valid d" "bal d i = Some (x, y)" "put i (x + k) (y - k) d = Inr d'"
  shows "\<exists>x' y'. bal d' i = Some (x', y') \<and> \<bar>(x' + y') - (x + y)\<bar> \<le> 1 / 10 ^ 10"
proof -
  have "bal d' i = Some (numeric_round (x + k), numeric_round (y - k))"
    using put_bal [OF assms(3)] assms(2) by simp
  moreover have "\<bar>numeric_round (x + k) + numeric_round (y - k) - (x + y)\<bar> \<le> 1 / 10 ^ 10"
    using numeric_round_close [of "x + k"] numeric_round_close [of "y - k"] by linarith
  ultimately show ?thesis by blast
qed

end

lemma find_map_upd:
  assumes "\<And>a. P (f a) = P a"
  shows "find P (map f as) = map_option f (find P as)"
  using assms by (induction as) auto

lemma balances_update:
  assumes "update_account i x y d = Inr d'"
  shows "balances d' = (if balances d i = None then balances d
           else (balances d)(i \<mapsto> (numeric_round x, numeric_round y)))"
proof -
  let ?f = "\<lambda>a. if acc_id a = i then set_balances (numeric_round x) (numeric_round y) a else a"
  have id: "acc_id a = j" if "account_at d j = Some a" for j a
    using that by (auto simp: account_at_def find_Some_iff)
  have "account_at d' j = map_option ?f (account_at d j)" for j
    unfolding update_account_Inr [OF assms] account_at_def by (simp add: find_map_upd)
  then have "balances d' j = (if balances d i = None then balances d
           else (balances d)(i \<mapsto> (numeric_round x, numeric_round y))) j" for j
    using id [of j] by (cases "account_at d j") (auto simp: balances_def)
  then show ?thesis by (rule ext)
qed

lemma balances_numeric:
  "db_wf d \<Longrightarrow> balances d i = Some (x, y) \<Longrightarrow> is_numeric x \<and> is_numeric y"
  by (auto simp: balances_def account_at_def db_wf_def find_Some_iff stored_numeric)

interpretation acct: account_store balances update_account db_wf
  by unfold_locales (erule balances_update, erule (1) update_account_wf, erule (1) balances_numeric)

section \<open>What a successful operation did\<close>

lemma account_of_wf:
  assumes "db_wf d" "account_of d u c = Some a"
  shows "account_at d (acc_id a) = Some a" and "acc_user a = u" and "acc_currency a = c"
    and "balances d (acc_id a) = Some (acc_available a, acc_hold a)"
proof -
  have in_set: "a \<in> set (db_accounts d)" and "acc_user a = u" "acc_currency a = c"
    using assms(2) by (auto simp: account_of_def find_Some_iff)
  then show "acc_user a = u" "acc_currency a = c" by simp_all
  from in_set obtain n where n: "n < length (db_accounts d)" "db_accounts d ! n = a"
    by (auto simp: in_set_conv_nth)
  moreover have "acc_id (db_accounts d ! m) \<noteq> acc_id a" if "m < n" for m
    using assms(1) n that by (auto simp: db_wf_def distinct_conv_nth)
  ultimately show at: "account_at d (acc_id a) = Some a"
    by (auto simp: account_at_def find_Some_iff)
  then show "balances d (acc_id a) = Some (acc_available a, acc_hold a)"
    by (simp add: balances_def)
qed

lemma HoldFunds_Inr:
  assumes "HoldFunds u c k w = (Inr x, w')"
  shows "\<exists>a. account_of (w_db w) u c = Some a \<and> 0 < k \<and> k \<le> acc_available a \<and>
    update_account (acc_id a) (acc_available a - k) (acc_hold a + k) (w_db w) = Inr (w_db w')"
  using assms by (auto simp: HoldFunds_def account_of_def split: if_split_asm sum.split_asm elim!: io_elims)

lemma ReleaseHold_Inr:
  assumes "ReleaseHold u c k w = (Inr x, w')"
  shows "\<exists>a. account_of (w_db w) u c = Some a \<and> 0 < k \<and> k \<le> acc_hold a \<and>
    update_account (acc_id a) (acc_available a + k) (acc_hold a - k) (w_db w) = Inr (w_db w')"
  using assms by (auto simp: ReleaseHold_def account_of_def split: if_split_asm sum.split_asm elim!: io_elims)

lemma insert_entriesE:
  assumes "insert_entries t es w = (Inr t', w')"
  obtains "t' = t @ map InsertEntry es" "w_db w' = w_db w" "w_now w' = w_now w"
proof -
  have "t' = t @ map InsertEntry es \<and> w_db w' = w_db w \<and> w_now w' = w_now w"
    using assms by (induction es arbitrary: t w) (fastforce elim!: io_elims)+
  then show thesis using that by blast
qed

lemma CreateJournalE:
  assumes "CreateJournal t es w = (Inr t', w')"
  obtains "es \<noteq> []" "journal_total es = 0" "t' = t @ map InsertEntry es"
    "w_db w' = w_db w" "w_now w' = w_now w"
  using assms by (auto simp: CreateJournal_def split: if_split_asm elim!: insert_entriesE)

lemma TopUpUser_Inr:
  assumes "TopUpUser jid u k w = (Inr r, w')"
  shows "\<exists>a d1 d2. account_of (w_db w) u CurrencyUSD = Some a \<and> 0 < k \<and>
    r = a\<lparr>acc_available := acc_available a + k\<rparr> \<and>
    insert_entry (w_now w) (mk_entry jid (acc_id a) k CurrencyUSD ''TOPUP'' jid) (w_db w) = Inr d1 \<and>
    insert_entry (w_now w) (mk_entry jid uuid_nil (- k) CurrencyUSD ''TOPUP'' jid) d1 = Inr d2 \<and>
    update_account (acc_id a) (acc_available a + k) (acc_hold a) d2 = Inr (w_db w')"
  using assms
  by (auto simp: TopUpUser_def account_of_def topup_entries_def Let_def split: if_split_asm sum.split_asm
      elim!: io_elims CreateJournalE)

lemma TransferFunds_Inr:
  assumes "TransferFunds jid from to k c rt ri w = (Inr x, w')"
  shows "\<exists>a b d1 d2 d3. account_at (w_db w) from = Some a \<and> account_at (w_db w) to = Some b \<and>
    0 < k \<and> k \<le> acc_available a \<and>
    insert_entry (w_now w) (mk_entry jid from (- k) c rt ri) (w_db w) = Inr d1 \<and>
    insert_entry (w_now w) (mk_entry jid to k c rt ri) d1 = Inr d2 \<and>
    update_account from (acc_available a - k) (acc_hold a) d2 = Inr d3 \<and>
    update_account to (acc_available b + k) (acc_hold b) d3 = Inr (w_db w')"
  using assms
  by (auto simp: TransferFunds_def account_at_def transfer_entries_def split: if_split_asm sum.split_asm
      elim!: io_elims CreateJournalE)

section \<open>Invariants of the books\<close>

text \<open>Balances are never negative and every journal in the table sums to zero.\<close>

definition nonneg_balances :: "db \<Rightarrow> bool" where
  "nonneg_balances d \<longleftrightarrow> (\<forall>i x y. balances d i = Some (x, y) \<longrightarrow> 0 \<le> x \<and> 0 \<le> y)"

definition journals_balanced :: "db \<Rightarrow> bool" where
  "journals_balanced d \<longleftrightarrow> (\<forall>j. journal_sum d j = 0)"

definition ledger_ok :: "db \<Rightarrow> bool" where
  "ledger_ok d \<longleftrightarrow> db_wf d \<and> nonneg_balances d \<and> journals_balanced d"

text \<open>Each account holds what the entries of the ledger say, the system account aside.\<close>

definition account_sum :: "db \<Rightarrow> uuid \<Rightarrow> decimal" where
  "account_sum d i = sum_list (map le_amount (filter (\<lambda>e. le_account e = i) (db_entries d)))"

definition reconciled :: "db \<Rightarrow> bool" where
  "reconciled d \<longleftrightarrow> (\<forall>i x y. i \<noteq> uuid_nil \<longrightarrow> balances d i = Some (x, y) \<longrightarrow> x + y = account_sum d i)"

lemma insert_entry_frame:
  assumes "insert_entry now e d = Inr d'"
  shows "balances d' = balances d"
    and "journal_sum d' j = journal_sum d j + (if le_journal e = j then numeric_round (le_amount e) else 0)"
    and "account_sum d' i = account_sum d i + (if le_account e = i then numeric_round (le_amount e) else 0)"
    and "db_accounts d' = db_accounts d"
  using insert_entry_Inr [OF assms]
  by (auto simp: balances_def account_at_def journal_sum_def account_sum_def fun_eq_iff)

lemma update_account_frame:
  assumes "update_account i x y d = Inr d'"
  shows "journal_sum d' j = journal_sum d j" and "account_sum d' k = account_sum d k"
    and "db_entries d' = db_entries d"
  using update_account_Inr [OF assms] by (simp_all add: journal_sum_def account_sum_def)

lemma update_nonneg:
  assumes "update_account i x y d = Inr d'" "nonneg_balances d" "0 \<le> x" "0 \<le> y"
  shows "nonneg_balances d'"
  using assms(2) numeric_round_nonneg [OF assms(3)] numeric_round_nonneg [OF assms(4)]
  unfolding nonneg_balances_def acct.put_bal [OF assms(1)]
  by (auto split: if_splits)

lemma insert_nonneg:
  "insert_entry now e d = Inr d' \<Longrightarrow> nonneg_balances d \<Longrightarrow> nonneg_balances d'"
  by (simp add: nonneg_balances_def insert_entry_frame)

lemma account_nonneg:
  assumes "nonneg_balances d"
  shows "account_at d i = Some a \<Longrightarrow> 0 \<le> acc_available a \<and> 0 \<le> acc_hold a"
    and "db_wf d \<Longrightarrow> account_of d u c = Some a \<Longrightarrow> 0 \<le> acc_available a \<and> 0 \<le> acc_hold a"
proof -
  show *: "account_at d i = Some a \<Longrightarrow> 0 \<le> acc_available a \<and> 0 \<le> acc_hold a" for i
    using assms by (auto simp: nonneg_balances_def balances_def)
  show "db_wf d \<Longrightarrow> account_of d u c = Some a \<Longrightarrow> 0 \<le> acc_available a \<and> 0 \<le> acc_hold a"
    by (rule * [OF account_of_wf(1)])
qed

lemma io_keepsI:
  assumes "io_atomic m"
    and "\<And>w x w'. m w = (Inr x, w') \<Longrightarrow> P (w_db w) \<Longrightarrow> P (w_db w')"
  shows "io_keeps P m"
  using assms by (auto simp: io_keeps_def io_atomic_def split: sum.splits) (metis sum.exhaust)

subsection \<open>An error leaves the tables unchanged\<close>

lemma insert_entries_reads: "io_reads (insert_entries t es)"
  by (induction es arbitrary: t) (simp_all add: io_rules)

lemma CreateJournal_reads [io_rules]: "io_reads (CreateJournal t es)"
  by (simp add: CreateJournal_def insert_entries_reads io_rules)

lemma HoldFunds_atomic: "io_atomic (HoldFunds u c k)"
  and ReleaseHold_atomic: "io_atomic (ReleaseHold u c k)"
  and TopUpUser_atomic: "io_atomic (TopUpUser jid u k)"
  and TransferFunds_atomic: "io_atomic (TransferFunds jid from to k cu rt ri)"
  by (auto simp: HoldFunds_def ReleaseHold_def TopUpUser_def TransferFunds_def Let_def
      intro!: io_rules)

subsection \<open>Each operation keeps the books\<close>

definition books :: "db \<Rightarrow> bool" where
  "books d \<longleftrightarrow> ledger_ok d \<and> reconciled d"

lemma hold_keeps_ok:
  assumes "HoldFunds u c k w = (Inr x, w')" "ledger_ok (w_db w)"
  shows "ledger_ok (w_db w')"
proof -
  obtain a where a: "account_of (w_db w) u c = Some a" "0 < k" "k \<le> acc_available a"
    "update_account (acc_id a) (acc_available a - k) (acc_hold a + k) (w_db w) = Inr (w_db w')"
    using HoldFunds_Inr [OF assms(1)] by blast
  have "0 \<le> acc_hold a" using account_nonneg(2) a(1) assms(2) by (auto simp: ledger_ok_def)
  then show ?thesis
    using assms(2) a update_nonneg [OF a(4)] update_account_wf [OF a(4)] update_account_frame(1) [OF a(4)]
    by (auto simp: ledger_ok_def journals_balanced_def)
qed

lemma release_keeps_ok:
  assumes "ReleaseHold u c k w = (Inr x, w')" "ledger_ok (w_db w)"
  shows "ledger_ok (w_db w')"
proof -
  obtain a where a: "account_of (w_db w) u c = Some a" "0 < k" "k \<le> acc_hold a"
    "update_account (acc_id a) (acc_available a + k) (acc_hold a - k) (w_db w) = Inr (w_db w')"
    using ReleaseHold_Inr [OF assms(1)] by blast
  have "0 \<le> acc_available a" using account_nonneg(2) a(1) assms(2) by (auto simp: ledger_ok_def)
  then show ?thesis
    using assms(2) a update_nonneg [OF a(4)] update_account_wf [OF a(4)] update_account_frame(1) [OF a(4)]
    by (auto simp: ledger_ok_def journals_balanced_def)
qed

text \<open>Two inserts of opposite amounts in one journal leave every journal's sum as it was.\<close>

lemma journal_pair:
  assumes "insert_entry now (mk_entry j a x c rt ri) d = Inr d1"
    and "insert_entry now (mk_entry j b (- x) c rt ri) d1 = Inr d2"
  shows "journal_sum d2 i = journal_sum d i" and "balances d2 = balances d"
    and "account_sum d2 k = account_sum d k + (if a = k then numeric_round x else 0)
           + (if b = k then - numeric_round x else 0)"
    and "db_accounts d2 = db_accounts d"
  using insert_entry_frame [OF assms(1)] insert_entry_frame [OF assms(2)]
  by (simp_all add: mk_entry_def)

lemma topup_keeps_ok:
  assumes "TopUpUser jid u k w = (Inr r, w')" "ledger_ok (w_db w)"
  shows "ledger_ok (w_db w')"
proof -
  obtain a d1 d2 where a: "account_of (w_db w) u CurrencyUSD = Some a" "0 < k"
    and i1: "insert_entry (w_now w) (mk_entry jid (acc_id a) k CurrencyUSD ''TOPUP'' jid) (w_db w) = Inr d1"
    and i2: "insert_entry (w_now w) (mk_entry jid uuid_nil (- k) CurrencyUSD ''TOPUP'' jid) d1 = Inr d2"
    and up: "update_account (acc_id a) (acc_available a + k) (acc_hold a) d2 = Inr (w_db w')"
    using TopUpUser_Inr [OF assms(1)] by blast
  have ok: "0 \<le> acc_available a" "0 \<le> acc_hold a" "nonneg_balances d2" "db_wf d2"
    using account_nonneg(2) [OF _ _ a(1)] assms(2) insert_nonneg [OF i1] insert_nonneg [OF i2]
      insert_entry_wf [OF i1] insert_entry_wf [OF i2]
    by (auto simp: ledger_ok_def)
  then show ?thesis
    using assms(2) a(2) update_nonneg [OF up] update_account_wf [OF up] update_account_frame(1) [OF up]
      journal_pair(1) [OF i1 i2]
    by (auto simp: ledger_ok_def journals_balanced_def)
qed

lemma transfer_keeps_ok:
  assumes "TransferFunds jid from to k c rt ri w = (Inr x, w')" "ledger_ok (w_db w)"
  shows "ledger_ok (w_db w')"
proof -
  obtain a b d1 d2 d3 where a: "account_at (w_db w) from = Some a" "account_at (w_db w) to = Some b"
      "0 < k" "k \<le> acc_available a"
    and i1: "insert_entry (w_now w) (mk_entry jid from (- k) c rt ri) (w_db w) = Inr d1"
    and i2: "insert_entry (w_now w) (mk_entry jid to k c rt ri) d1 = Inr d2"
    and u1: "update_account from (acc_available a - k) (acc_hold a) d2 = Inr d3"
    and u2: "update_account to (acc_available b + k) (acc_hold b) d3 = Inr (w_db w')"
    using TransferFunds_Inr [OF assms(1)] by blast
  have nn: "0 \<le> acc_hold a" "0 \<le> acc_available b" "0 \<le> acc_hold b" "nonneg_balances d2" "db_wf d2"
    using account_nonneg(1) [OF _ a(1)] account_nonneg(1) [OF _ a(2)] assms(2)
      insert_nonneg [OF i1] insert_nonneg [OF i2] insert_entry_wf [OF i1] insert_entry_wf [OF i2]
    by (auto simp: ledger_ok_def)
  have "nonneg_balances d3" "db_wf d3" using update_nonneg [OF u1] update_account_wf [OF u1] nn a by auto
  then have "nonneg_balances (w_db w')" "db_wf (w_db w')"
    using update_nonneg [OF u2] update_account_wf [OF u2] nn a(3) by auto
  moreover have "journal_sum (w_db w') j = journal_sum (w_db w) j" for j
    using journal_pair(1) [OF i1, of to d2 j] i2 update_account_frame(1) [OF u1]
      update_account_frame(1) [OF u2] by simp
  ultimately show ?thesis using assms(2) by (simp add: ledger_ok_def journals_balanced_def)
qed

lemma ledger_keeps:
  "io_keeps ledger_ok (TopUpUser jid u k)" "io_keeps ledger_ok (HoldFunds u c k)"
  "io_keeps ledger_ok (ReleaseHold u c k)" "io_keeps ledger_ok (TransferFunds jid from to k c rt ri)"
  by (rule io_keepsI, rule TopUpUser_atomic HoldFunds_atomic ReleaseHold_atomic TransferFunds_atomic,
      erule (1) topup_keeps_ok hold_keeps_ok release_keeps_ok transfer_keeps_ok)+

subsection \<open>What happens to the balances\<close>

lemma hold_balances:
  assumes "HoldFunds u c k w = (Inr x, w')" "db_wf (w_db w)" "is_numeric k"
  shows "\<exists>a. account_of (w_db w) u c = Some a \<and> 0 < k \<and> k \<le> acc_available a \<and>
    balances (w_db w') = (balances (w_db w))(acc_id a \<mapsto> (acc_available a - k, acc_hold a + k))"
proof -
  obtain a where a: "account_of (w_db w) u c = Some a" "0 < k" "k \<le> acc_available a"
    and up: "update_account (acc_id a) (acc_available a - k) (acc_hold a + k) (w_db w) = Inr (w_db w')"
    using HoldFunds_Inr [OF assms(1)] by blast
  then show ?thesis
    using acct.move_exact [OF assms(2) account_of_wf(4) [OF assms(2) a(1)], of "- k"]
      is_numeric_minus [OF assms(3)] by simp
qed

lemma release_balances:
  assumes "ReleaseHold u c k w = (Inr x, w')" "db_wf (w_db w)" "is_numeric k"
  shows "\<exists>a. account_of (w_db w) u c = Some a \<and> 0 < k \<and> k \<le> acc_hold a \<and>
    balances (w_db w') = (balances (w_db w))(acc_id a \<mapsto> (acc_available a + k, acc_hold a - k))"
proof -
  obtain a where a: "account_of (w_db w) u c = Some a" "0 < k" "k \<le> acc_hold a"
    and up: "update_account (acc_id a) (acc_available a + k) (acc_hold a - k) (w_db w) = Inr (w_db w')"
    using ReleaseHold_Inr [OF assms(1)] by blast
  then show ?thesis
    using acct.move_exact [OF assms(2) account_of_wf(4) [OF assms(2) a(1)] assms(3)] by simp
qed

lemma put_exact:
  assumes "update_account i x y d = Inr d'" "balances d i \<noteq> None" "is_numeric x" "is_numeric y"
  shows "balances d' = (balances d)(i \<mapsto> (x, y))"
  using acct.put_bal [OF assms(1)] assms(2-4) by (simp add: is_numeric_def)

lemma topup_balances:
  assumes "TopUpUser jid u k w = (Inr r, w')" "db_wf (w_db w)" "is_numeric k"
  shows "\<exists>a. account_of (w_db w) u CurrencyUSD = Some a \<and> 0 < k \<and>
    balances (w_db w') = (balances (w_db w))(acc_id a \<mapsto> (acc_available a + k, acc_hold a)) \<and>
    (\<forall>i. account_sum (w_db w') i = account_sum (w_db w) i
       + (if acc_id a = i then k else 0) + (if uuid_nil = i then - k else 0))"
proof -
  obtain a d1 d2 where a: "account_of (w_db w) u CurrencyUSD = Some a" "0 < k"
    and i1: "insert_entry (w_now w) (mk_entry jid (acc_id a) k CurrencyUSD ''TOPUP'' jid) (w_db w) = Inr d1"
    and i2: "insert_entry (w_now w) (mk_entry jid uuid_nil (- k) CurrencyUSD ''TOPUP'' jid) d1 = Inr d2"
    and up: "update_account (acc_id a) (acc_available a + k) (acc_hold a) d2 = Inr (w_db w')"
    using TopUpUser_Inr [OF assms(1)] by blast
  have b2: "balances d2 = balances (w_db w)" by (rule journal_pair(2) [OF i1 i2])
  have num: "is_numeric (acc_available a)" "is_numeric (acc_hold a)"
    using balances_numeric [OF assms(2) account_of_wf(4) [OF assms(2) a(1)]] by auto
  have "balances (w_db w') = (balances (w_db w))(acc_id a \<mapsto> (acc_available a + k, acc_hold a))"
    using put_exact [OF up] account_of_wf(4) [OF assms(2) a(1)] num is_numeric_add [OF num(1) assms(3)] b2
    by simp
  then show ?thesis
    using a journal_pair(3) [OF i1 i2] update_account_frame(2) [OF up] assms(3)
    by (simp add: is_numeric_def)
qed

lemma transfer_balances:
  assumes "TransferFunds jid from to k c rt ri w = (Inr x, w')" "db_wf (w_db w)" "is_numeric k"
    and "from \<noteq> to"
  shows "\<exists>a b. account_at (w_db w) from = Some a \<and> account_at (w_db w) to = Some b \<and>
    0 < k \<and> k \<le> acc_available a \<and>
    balances (w_db w') = (balances (w_db w))(from \<mapsto> (acc_available a - k, acc_hold a),
                                            to \<mapsto> (acc_available b + k, acc_hold b)) \<and>
    (\<forall>i. account_sum (w_db w') i = account_sum (w_db w) i
       + (if from = i then - k else 0) + (if to = i then k else 0))"
proof -
  obtain a b d1 d2 d3 where a: "account_at (w_db w) from = Some a" "account_at (w_db w) to = Some b"
      "0 < k" "k \<le> acc_available a"
    and i1: "insert_entry (w_now w) (mk_entry jid from (- k) c rt ri) (w_db w) = Inr d1"
    and i2: "insert_entry (w_now w) (mk_entry jid to k c rt ri) d1 = Inr d2"
    and u1: "update_account from (acc_available a - k) (acc_hold a) d2 = Inr d3"
    and u2: "update_account to (acc_available b + k) (acc_hold b) d3 = Inr (w_db w')"
    using TransferFunds_Inr [OF assms(1)] by blast
  have bal: "balances (w_db w) from = Some (acc_available a, acc_hold a)"
      "balances (w_db w) to = Some (acc_available b, acc_hold b)"
    using a by (simp_all add: balances_def)
  have num: "is_numeric (acc_available a - k)" "is_numeric (acc_hold a)"
      "is_numeric (acc_available b + k)" "is_numeric (acc_hold b)"
    using balances_numeric [OF assms(2) bal(1)] balances_numeric [OF assms(2) bal(2)] assms(3)
    by (auto intro: is_numeric_add is_numeric_diff)
  have i2': "insert_entry (w_now w) (mk_entry jid to (- (- k)) c rt ri) d1 = Inr d2" using i2 by simp
  have b2: "balances d2 = balances (w_db w)" by (rule journal_pair(2) [OF i1 i2'])
  have b3: "balances d3 = (balances (w_db w))(from \<mapsto> (acc_available a - k, acc_hold a))"
    using put_exact [OF u1] bal(1) num(1,2) b2 by simp
  have "balances (w_db w') = (balances d3)(to \<mapsto> (acc_available b + k, acc_hold b))"
    using put_exact [OF u2] bal(2) num(3,4) b3 assms(4) by simp
  moreover have "account_sum (w_db w') i = account_sum (w_db w) i
       + (if from = i then - k else 0) + (if to = i then k else 0)" for i
    using journal_pair(3) [OF i1 i2', of i] update_account_frame(2) [OF u1] update_account_frame(2) [OF u2]
      assms(3) by (simp add: is_numeric_def)
  ultimately show ?thesis using a b3 by auto
qed

lemma reconciled_hold:
  assumes "HoldFunds u c k w = (Inr x, w')" "db_wf (w_db w)" "is_numeric k" "reconciled (w_db w)"
  shows "reconciled (w_db w')"
proof -
  obtain a where a: "account_of (w_db w) u c = Some a"
    and b: "balances (w_db w') = (balances (w_db w))(acc_id a \<mapsto> (acc_available a - k, acc_hold a + k))"
    using hold_balances [OF assms(1-3)] by blast
  have s: "account_sum (w_db w') i = account_sum (w_db w) i" for i
    using HoldFunds_Inr [OF assms(1)] update_account_frame(2) by blast
  show ?thesis
    using assms(4) account_of_wf(4) [OF assms(2) a] unfolding reconciled_def b s 
    by (auto simp: algebra_simps split: if_splits)
qed

lemma reconciled_release:
  assumes "ReleaseHold u c k w = (Inr x, w')" "db_wf (w_db w)" "is_numeric k" "reconciled (w_db w)"
  shows "reconciled (w_db w')"
proof -
  obtain a where a: "account_of (w_db w) u c = Some a"
    and b: "balances (w_db w') = (balances (w_db w))(acc_id a \<mapsto> (acc_available a + k, acc_hold a - k))"
    using release_balances [OF assms(1-3)] by blast
  have s: "account_sum (w_db w') i = account_sum (w_db w) i" for i
    using ReleaseHold_Inr [OF assms(1)] update_account_frame(2) by blast
  show ?thesis
    using assms(4) account_of_wf(4) [OF assms(2) a] unfolding reconciled_def b s 
    by (auto simp: algebra_simps split: if_splits)
qed

lemma reconciled_topup:
  assumes "TopUpUser jid u k w = (Inr r, w')" "db_wf (w_db w)" "is_numeric k" "reconciled (w_db w)"
  shows "reconciled (w_db w')"
proof -
  obtain a where a: "account_of (w_db w) u CurrencyUSD = Some a"
    and b: "balances (w_db w') = (balances (w_db w))(acc_id a \<mapsto> (acc_available a + k, acc_hold a))"
    and s: "\<And>i. account_sum (w_db w') i = account_sum (w_db w) i
       + (if acc_id a = i then k else 0) + (if uuid_nil = i then - k else 0)"
    using topup_balances [OF assms(1-3)] by blast
  show ?thesis
    using assms(4) account_of_wf(4) [OF assms(2) a] unfolding reconciled_def b s by fastforce
qed

lemma reconciled_transfer:
  assumes "TransferFunds jid from to k c rt ri w = (Inr x, w')" "db_wf (w_db w)" "is_numeric k"
    and "from \<noteq> to" "reconciled (w_db w)"
  shows "reconciled (w_db w')"
proof -
  obtain a b where a: "account_at (w_db w) from = Some a" "account_at (w_db w) to = Some b"
    and b: "balances (w_db w') = (balances (w_db w))(from \<mapsto> (acc_available a - k, acc_hold a),
                                            to \<mapsto> (acc_available b + k, acc_hold b))"
    and s: "\<And>i. account_sum (w_db w') i = account_sum (w_db w) i
       + (if from = i then - k else 0) + (if to = i then k else 0)"
    using transfer_balances [OF assms(1-4)] by blast
  have "balances (w_db w) from = Some (acc_available a, acc_hold a)"
      "balances (w_db w) to = Some (acc_available b, acc_hold b)"
    using a by (simp_all add: balances_def)
  then show ?thesis
    using assms(4,5) unfolding reconciled_def b s by fastforce
qed

section \<open>The operations when the driver works\<close>

lemma HoldFunds_works:
  assumes "w_faults w = []" and "0 < k"
  shows "HoldFunds u c k w =
    (case account_of (w_db w) u c of
       None \<Rightarrow> (Inl (ErrorfWrap ''failed to get account'' (Errorf ''account not found'')), w)
     | Some a \<Rightarrow>
         if acc_available a < k
         then (Inl (ErrorfDec ''insufficient funds: available=%s, required=%s'' [acc_available a, k]), w)
         else (case update_account (acc_id a) (acc_available a - k) (acc_hold a + k) (w_db w) of
                 Inl e \<Rightarrow> (Inl (ErrorfWrap ''failed to update account balance''
                              (ErrorfWrap ''failed to update account balance'' e)), w)
               | Inr d \<Rightarrow> (Inr (), w\<lparr>w_db := d\<rparr>)))"
  using assms
  by (auto simp: HoldFunds_def account_of_def io_bind_def io_wrap_def io_not_found_def io_error_def
      GetAccountByUserIDAndCurrency_def UpdateAccountBalance_def split: option.splits sum.splits)

lemma ReleaseHold_works:
  assumes "w_faults w = []" and "0 < k"
  shows "ReleaseHold u c k w =
    (case account_of (w_db w) u c of
       None \<Rightarrow> (Inl (ErrorfWrap ''failed to get account'' (Errorf ''account not found'')), w)
     | Some a \<Rightarrow>
         if acc_hold a < k
         then (Inl (ErrorfDec ''insufficient held funds: held=%s, required=%s'' [acc_hold a, k]), w)
         else (case update_account (acc_id a) (acc_available a + k) (acc_hold a - k) (w_db w) of
                 Inl e \<Rightarrow> (Inl (ErrorfWrap ''failed to update account balance''
                              (ErrorfWrap ''failed to update account balance'' e)), w)
               | Inr d \<Rightarrow> (Inr (), w\<lparr>w_db := d\<rparr>)))"
  using assms
  by (auto simp: ReleaseHold_def account_of_def io_bind_def io_wrap_def io_not_found_def io_error_def
      GetAccountByUserIDAndCurrency_def UpdateAccountBalance_def split: option.splits sum.splits)

lemma TransferFunds_works:
  assumes "w_faults w = []" "0 < k" "account_at (w_db w) from = Some a" "account_at (w_db w) to = Some b"
    and "k \<le> acc_available a" and "journal_total (transfer_entries jid from to k c rt ri) = 0"
    and "fold_result (db_apply (w_now w))
          [InsertEntry (mk_entry jid from (- k) c rt ri), InsertEntry (mk_entry jid to k c rt ri),
           UpdateAccount from (acc_available a - k) (acc_hold a),
           UpdateAccount to (acc_available b + k) (acc_hold b)] (w_db w) = Inr d"
  shows "TransferFunds jid from to k c rt ri w = (Inr (), w\<lparr>w_db := d\<rparr>)"
  using assms
  by (auto simp: TransferFunds_def account_at_def io_bind_def io_wrap_def io_not_found_def io_return_def
      CreateJournal_def transfer_entries_def GetAccountByID_def UpdateAccountBalance_def
      split: option.splits sum.splits)

lemma update_account_back:
  assumes "db_wf d" "account_at d i = Some a" "update_account i x y d = Inr d'"
  shows "update_account i (acc_available a) (acc_hold a) d' = Inr d"
proof -
  have at: "a \<in> set (db_accounts d)" "acc_id a = i"
    using assms(2) by (auto simp: account_at_def find_Some_iff)
  then have "to_numeric (acc_available a) = Inr (acc_available a)" "to_numeric (acc_hold a) = Inr (acc_hold a)"
    using assms(1) by (auto simp: db_wf_def stored_def)
  moreover have "map (\<lambda>b. if acc_id b = i then set_balances (acc_available a) (acc_hold a) b else b)
      (map (\<lambda>b. if acc_id b = i then set_balances (numeric_round x) (numeric_round y) b else b) (db_accounts d))
      = db_accounts d"
    unfolding map_map
  proof (rule map_idI, unfold o_apply)
    fix b assume "b \<in> set (db_accounts d)"
    then have "acc_id b = i \<Longrightarrow> b = a" using at assms(1) by (auto simp: db_wf_def distinct_map inj_on_def)
    then show "(if acc_id (if acc_id b = i then set_balances (numeric_round x) (numeric_round y) b else b) = i
      then set_balances (acc_available a) (acc_hold a)
        (if acc_id b = i then set_balances (numeric_round x) (numeric_round y) b else b)
      else (if acc_id b = i then set_balances (numeric_round x) (numeric_round y) b else b)) = b"
      by (auto simp: set_balances_def)
  qed
  ultimately show ?thesis
    unfolding update_account_Inr [OF assms(3)] by (simp add: update_account_def del: map_map)
qed

lemma account_of_update:
  assumes "db_wf d" "account_of d u c = Some a" "update_account (acc_id a) x y d = Inr d'"
  shows "account_of d' u c = Some (set_balances (numeric_round x) (numeric_round y) a)"
  using assms(2) unfolding update_account_Inr [OF assms(3)]
  by (simp add: account_of_def find_map_upd set_balances_def)

lemma update_account_ok:
  assumes "stored x" "stored y"
  shows "\<exists>d'. update_account i x y d = Inr d'"
  using assms by (simp add: update_account_def stored_def)

lemma insert_entry_ok:
  assumes "stored x" "has_account d a"
  shows "\<exists>d'. insert_entry now (mk_entry j a x c rt ri) d = Inr d'"
  using assms by (simp add: insert_entry_def stored_def mk_entry_def)

lemma journal_total_pair [simp]: "journal_total [mk_entry j a x c rt ri, mk_entry j b y c rt ri] = x + y"
  by (simp add: journal_total_def mk_entry_def)

lemma stored_minus: "stored k \<Longrightarrow> stored (- k)"
  by (simp add: stored_iff is_numeric_minus)

lemma stored_between: "stored x \<Longrightarrow> stored k \<Longrightarrow> 0 \<le> k \<Longrightarrow> k \<le> x \<Longrightarrow> stored (x - k)"
  by (simp add: stored_iff is_numeric_diff)

lemma stored_sum: "stored x \<Longrightarrow> stored k \<Longrightarrow> 0 \<le> x \<Longrightarrow> 0 \<le> k \<Longrightarrow> x + k < 10 ^ 20 \<Longrightarrow> stored (x + k)"
  by (simp add: stored_iff is_numeric_add)

lemma account_stored:
  "db_wf d \<Longrightarrow> account_at d i = Some a \<Longrightarrow> stored (acc_available a) \<and> stored (acc_hold a)"
  by (auto simp: db_wf_def account_at_def find_Some_iff)

lemma account_at_has: "account_at d i = Some a \<Longrightarrow> has_account d i"
  by (auto simp: account_at_def has_account_def find_Some_iff)

lemma transfer_works:
  assumes "w_faults w = []" and "ledger_ok (w_db w)"
    and "account_at (w_db w) from = Some a" and "account_at (w_db w) to = Some b"
    and "stored k" and "0 < k" and "k \<le> acc_available a" and "acc_available b + k < 10 ^ 20"
  shows "\<exists>w'. TransferFunds jid from to k c rt ri w = (Inr (), w')"
proof -
  have wf: "db_wf (w_db w)" and nn: "nonneg_balances (w_db w)" using assms(2) by (auto simp: ledger_ok_def)
  note st = account_stored [OF wf assms(3)] account_stored [OF wf assms(4)]
  note nonneg = account_nonneg(1) [OF nn assms(3)] account_nonneg(1) [OF nn assms(4)]
  obtain d1 where i1: "insert_entry (w_now w) (mk_entry jid from (- k) c rt ri) (w_db w) = Inr d1"
    using insert_entry_ok [OF stored_minus [OF assms(5)] account_at_has [OF assms(3)]] by blast
  then have "has_account d1 to"
    using account_at_has [OF assms(4)] insert_entry_frame(4) by (fastforce simp: has_account_def)
  then obtain d2 where i2: "insert_entry (w_now w) (mk_entry jid to k c rt ri) d1 = Inr d2"
    using insert_entry_ok [OF assms(5)] by blast
  obtain d3 where u1: "update_account from (acc_available a - k) (acc_hold a) d2 = Inr d3"
    using update_account_ok stored_between st assms(5,6,7) by (metis less_imp_le)
  obtain d4 where u2: "update_account to (acc_available b + k) (acc_hold b) d3 = Inr d4"
    using update_account_ok stored_sum st nonneg assms(5,6,8) by (metis less_imp_le)
  have "TransferFunds jid from to k c rt ri w = (Inr (), w\<lparr>w_db := d4\<rparr>)"
    by (rule TransferFunds_works [OF assms(1,6,3,4,7)]) (simp_all add: transfer_entries_def i1 i2 u1 u2)
  then show ?thesis by blast
qed

lemma TopUpUser_works:
  assumes "w_faults w = []" and "ledger_ok (w_db w)" and "account_of (w_db w) u CurrencyUSD = Some a"
    and "has_account (w_db w) uuid_nil" and "stored k" and "0 < k" and "acc_available a + k < 10 ^ 20"
  shows "\<exists>d. TopUpUser jid u k w = (Inr (a\<lparr>acc_available := acc_available a + k\<rparr>), w\<lparr>w_db := d\<rparr>)"
proof -
  have wf: "db_wf (w_db w)" and nn: "nonneg_balances (w_db w)" using assms(2) by (auto simp: ledger_ok_def)
  have at: "account_at (w_db w) (acc_id a) = Some a" by (rule account_of_wf(1) [OF wf assms(3)])
  note st = account_stored [OF wf at]
  note nonneg = account_nonneg(1) [OF nn at]
  obtain d1 where i1: "insert_entry (w_now w) (mk_entry jid (acc_id a) k CurrencyUSD ''TOPUP'' jid) (w_db w) = Inr d1"
    using insert_entry_ok [OF assms(5) account_at_has [OF at]] by blast
  then have "has_account d1 uuid_nil"
    using assms(4) insert_entry_frame(4) by (fastforce simp: has_account_def)
  then obtain d2 where i2: "insert_entry (w_now w) (mk_entry jid uuid_nil (- k) CurrencyUSD ''TOPUP'' jid) d1 = Inr d2"
    using insert_entry_ok [OF stored_minus [OF assms(5)]] by blast
  obtain d3 where u1: "update_account (acc_id a) (acc_available a + k) (acc_hold a) d2 = Inr d3"
    using update_account_ok stored_sum st nonneg assms(5,6,7) by (metis less_imp_le)
  show ?thesis
    using assms(1,3,6) i1 i2 u1
    by (auto simp: TopUpUser_def account_of_def io_bind_def io_wrap_def io_not_found_def io_return_def
        CreateJournal_def topup_entries_def GetAccountByUserIDAndCurrency_def UpdateAccountBalance_def Let_def
        split: option.splits sum.splits)
qed

lemma journal_total_sum: "journal_total es = sum_list (map le_amount es)"
proof -
  have "foldl (\<lambda>t e. t + le_amount e) x es = x + sum_list (map le_amount es)" for x
    by (induction es arbitrary: x) (simp_all add: add.assoc)
  then show ?thesis by (simp add: journal_total_def)
qed

lemma insert_entries_works:
  assumes "w_faults w = []" and "fold_result (db_apply (w_now w)) t (w_db w) = Inr d"
  shows "fst (insert_entries t es w) =
    (case fold_result (insert_entry (w_now w)) es d of
       Inl e \<Rightarrow> Inl (ErrorfWrap ''failed to create ledger entry'' e)
     | Inr d' \<Rightarrow> Inr (t @ map InsertEntry es))"
  using assms(2)
proof (induction es arbitrary: t d)
  case (Cons e es)
  then show ?case
    using Cons.IH [of "t @ [InsertEntry e]"] assms(1)
    by (auto simp: io_bind_def io_wrap_def fold_result_append split: sum.splits)
qed (simp add: io_return_def)

section \<open>What the ledger never does to a hold\<close>

lemma ledger_writes:
  "io_steps writes (TopUpUser jid u k)" "io_steps writes (HoldFunds u c k)" "io_steps writes (ReleaseHold u c k)"
  "io_steps writes (TransferFunds jid from to k c rt ri)"
proof -
  have ie: "io_steps writes (insert_entries t es)" for t es
    by (induction es arbitrary: t) (simp_all add: writes.steps writes_prims)
  then have "io_steps writes (CreateJournal t es)" for t es
    by (simp add: CreateJournal_def writes.steps)
  then show "io_steps writes (TopUpUser jid u k)" "io_steps writes (HoldFunds u c k)"
    "io_steps writes (ReleaseHold u c k)" "io_steps writes (TransferFunds jid from to k c rt ri)"
    unfolding TopUpUser_def HoldFunds_def ReleaseHold_def TransferFunds_def Let_def
    by (intro writes.steps writes_prims writes_repo; assumption?)+
qed

text \<open>A step that keeps the books and lowers no hold: transfers and new holds are such steps.\<close>

definition holds_kept :: "db \<Rightarrow> db \<Rightarrow> bool" where
  "holds_kept d d' \<longleftrightarrow>
     (\<forall>i x y. balances d i = Some (x, y) \<longrightarrow> (\<exists>x' y'. balances d' i = Some (x', y') \<and> y \<le> y'))"

definition trading :: "world \<Rightarrow> world \<Rightarrow> bool" where
  "trading w w' \<longleftrightarrow> (ledger_ok (w_db w) \<longrightarrow> ledger_ok (w_db w') \<and> holds_kept (w_db w) (w_db w'))"

lemma holds_kept_refl [simp]: "holds_kept d d"
  by (simp add: holds_kept_def)

lemma holds_kept_trans: "holds_kept d d' \<Longrightarrow> holds_kept d' d'' \<Longrightarrow> holds_kept d d''"
  unfolding holds_kept_def by (meson order_trans)

interpretation trading: table_relation trading
  by unfold_locales (auto simp: trading_def intro: holds_kept_trans)

lemma holds_kept_update:
  assumes "update_account i x y d = Inr d'" "balances d i = Some (x0, y0)" "y0 \<le> numeric_round y"
  shows "holds_kept d d'"
  using assms(2,3) unfolding holds_kept_def acct.put_bal [OF assms(1)] by auto

lemma hold_trading: "io_steps trading (HoldFunds u c k)"
proof (rule trading.steps_atomic [OF HoldFunds_atomic])
  fix w x w' assume h: "HoldFunds u c k w = (Inr x, w')"
  show "trading w w'" unfolding trading_def
  proof
    assume ok: "ledger_ok (w_db w)"
    obtain a where a: "account_of (w_db w) u c = Some a" "0 < k"
      and up: "update_account (acc_id a) (acc_available a - k) (acc_hold a + k) (w_db w) = Inr (w_db w')"
      using HoldFunds_Inr [OF h] by blast
    have wf: "db_wf (w_db w)" using ok by (simp add: ledger_ok_def)
    have bal: "balances (w_db w) (acc_id a) = Some (acc_available a, acc_hold a)"
      by (rule account_of_wf(4) [OF wf a(1)])
    have "acc_hold a \<le> numeric_round (acc_hold a + k)"
      using balances_numeric [OF wf bal] numeric_round_mono_pos [of "acc_hold a" "acc_hold a + k"]
        account_nonneg(2) [OF _ wf a(1)] ok a(2) by (simp add: is_numeric_def ledger_ok_def)
    then show "ledger_ok (w_db w') \<and> holds_kept (w_db w) (w_db w')"
      using hold_keeps_ok [OF h ok] holds_kept_update [OF up bal] by blast
  qed
qed

lemma transfer_trading: "io_steps trading (TransferFunds jid from to k c rt ri)"
proof (rule trading.steps_atomic [OF TransferFunds_atomic])
  fix w x w' assume tf: "TransferFunds jid from to k c rt ri w = (Inr x, w')"
  show "trading w w'" unfolding trading_def
  proof
    assume ok: "ledger_ok (w_db w)"
    then have wf: "db_wf (w_db w)" by (simp add: ledger_ok_def)
    obtain a b d1 d2 d3 where a: "account_at (w_db w) from = Some a" "account_at (w_db w) to = Some b"
      and i1: "insert_entry (w_now w) (mk_entry jid from (- k) c rt ri) (w_db w) = Inr d1"
      and i2: "insert_entry (w_now w) (mk_entry jid to k c rt ri) d1 = Inr d2"
      and u1: "update_account from (acc_available a - k) (acc_hold a) d2 = Inr d3"
      and u2: "update_account to (acc_available b + k) (acc_hold b) d3 = Inr (w_db w')"
      using TransferFunds_Inr [OF tf] by blast
    have bal: "balances (w_db w) from = Some (acc_available a, acc_hold a)"
        "balances (w_db w) to = Some (acc_available b, acc_hold b)"
      using a by (simp_all add: balances_def)
    then have num: "numeric_round (acc_hold a) = acc_hold a" "numeric_round (acc_hold b) = acc_hold b"
      using balances_numeric [OF wf] by (auto simp: is_numeric_def)
    have "balances d2 = balances (w_db w)" using journal_pair(2) [OF i1] i2 by simp
    then have "holds_kept (w_db w) (w_db w')"
      using bal num unfolding holds_kept_def acct.put_bal [OF u1] acct.put_bal [OF u2] by auto
    then show "ledger_ok (w_db w') \<and> holds_kept (w_db w) (w_db w')"
      using transfer_keeps_ok [OF tf ok] by blast
  qed
qed

lemma ledger_calm:
  "io_steps calm (HoldFunds u c k)" "io_steps calm (TransferFunds jid from to k c rt ri)"
  "io_steps calm (ReleaseHold u c k)" "io_steps calm (TopUpUser jid u k)"
proof -
  have ie: "io_steps calm (insert_entries t es)" for t es
    by (induction es arbitrary: t) (simp_all add: calm.steps calm_prims)
  then have "io_steps calm (CreateJournal t es)" for t es
    by (simp add: CreateJournal_def calm.steps)
  then show "io_steps calm (HoldFunds u c k)" "io_steps calm (TransferFunds jid from to k c rt ri)"
    "io_steps calm (ReleaseHold u c k)" "io_steps calm (TopUpUser jid u k)"
    unfolding HoldFunds_def TransferFunds_def ReleaseHold_def TopUpUser_def Let_def
    by (intro calm.steps calm_prims calm_repo; assumption?)+
qed

lemma self_transfer:
  assumes "w_faults w = []" and "ledger_ok (w_db w)" and "account_at (w_db w) i = Some a"
    and "stored k" and "0 < k" and "k \<le> acc_available a" and "acc_available a + k < 10 ^ 20"
  shows "\<exists>w'. TransferFunds jid i i k c rt ri w = (Inr (), w') \<and>
    balances (w_db w') = (balances (w_db w))(i \<mapsto> (acc_available a + k, acc_hold a))"
proof -
  have wf: "db_wf (w_db w)" using assms(2) by (simp add: ledger_ok_def)
  have bal: "balances (w_db w) i = Some (acc_available a, acc_hold a)" using assms(3) by (simp add: balances_def)
  obtain w' where tf: "TransferFunds jid i i k c rt ri w = (Inr (), w')"
    using transfer_works [OF assms(1-3,3-7)] by blast
  obtain d1 d2 d3 where
      i1: "insert_entry (w_now w) (mk_entry jid i (- k) c rt ri) (w_db w) = Inr d1"
    and i2: "insert_entry (w_now w) (mk_entry jid i k c rt ri) d1 = Inr d2"
    and u1: "update_account i (acc_available a - k) (acc_hold a) d2 = Inr d3"
    and u2: "update_account i (acc_available a + k) (acc_hold a) d3 = Inr (w_db w')"
    using TransferFunds_Inr [OF tf] assms(3) by auto
  have b2: "balances d2 = balances (w_db w)"
    using journal_pair(2) [OF i1] i2 by simp
  have num: "is_numeric (acc_available a + k)" "is_numeric (acc_hold a)"
    using balances_numeric [OF wf bal] stored_numeric [OF assms(4)] by (auto intro: is_numeric_add)
  have b3: "balances d3 i \<noteq> None" using acct.put_bal [OF u1] by (simp add: b2 bal)
  have "balances (w_db w') = (balances d3)(i \<mapsto> (acc_available a + k, acc_hold a))"
    by (rule put_exact [OF u2 b3 num])
  then have "balances (w_db w') = (balances (w_db w))(i \<mapsto> (acc_available a + k, acc_hold a))"
    using acct.put_bal [OF u1] by (simp add: b2 bal)
  with tf show ?thesis by blast
qed

text \<open>One leg of a settlement, as a change of the balances.\<close>

lemma transfer_leg:
  assumes "w_faults w = []" and "ledger_ok (w_db w)" and "from \<noteq> to"
    and "balances (w_db w) from = Some (x, h)" and "balances (w_db w) to = Some (y, g)"
    and "stored k" and "0 < k" and "k \<le> x" and "y + k < 10 ^ 20"
  shows "\<exists>w'. TransferFunds jid from to k c rt ri w = (Inr (), w') \<and> w_faults w' = [] \<and> ledger_ok (w_db w') \<and>
    balances (w_db w') = (balances (w_db w))(from \<mapsto> (x - k, h), to \<mapsto> (y + k, g))"
proof -
  obtain a b where a: "account_at (w_db w) from = Some a" "acc_available a = x" "acc_hold a = h"
    and b: "account_at (w_db w) to = Some b" "acc_available b = y" "acc_hold b = g"
    using assms(4,5) by (auto simp: balances_def)
  have wf: "db_wf (w_db w)" using assms(2) by (simp add: ledger_ok_def)
  obtain w' where tf: "TransferFunds jid from to k c rt ri w = (Inr (), w')"
    using transfer_works [OF assms(1,2) a(1) b(1) assms(6,7)] a(2) b(2) assms(8,9) by blast
  have "w_faults w' = []" using io_stepsD [OF ledger_calm(2) tf] assms(1) by (simp add: calm_def)
  moreover have "ledger_ok (w_db w')" by (rule transfer_keeps_ok [OF tf assms(2)])
  moreover have "balances (w_db w') = (balances (w_db w))(from \<mapsto> (x - k, h), to \<mapsto> (y + k, g))"
    using transfer_balances [OF tf wf stored_numeric [OF assms(6)] assms(3)] a b by auto
  ultimately show ?thesis using tf by blast
qed

lemma self_leg:
  assumes "w_faults w = []" and "ledger_ok (w_db w)"
    and "balances (w_db w) i = Some (x, h)"
    and "stored k" and "0 < k" and "k \<le> x" and "x + k < 10 ^ 20"
  shows "\<exists>w'. TransferFunds jid i i k c rt ri w = (Inr (), w') \<and> w_faults w' = [] \<and> ledger_ok (w_db w') \<and>
    balances (w_db w') = (balances (w_db w))(i \<mapsto> (x + k, h))"
proof -
  obtain a where a: "account_at (w_db w) i = Some a" "acc_available a = x" "acc_hold a = h"
    using assms(3) by (auto simp: balances_def)
  obtain w' where tf: "TransferFunds jid i i k c rt ri w = (Inr (), w')"
    "balances (w_db w') = (balances (w_db w))(i \<mapsto> (x + k, h))"
    using self_transfer [OF assms(1,2) a(1) assms(4,5)] a(2,3) assms(6,7) by blast
  moreover have "w_faults w' = []" using io_stepsD [OF ledger_calm(2) tf(1)] assms(1) by (simp add: calm_def)
  moreover have "ledger_ok (w_db w')" by (rule transfer_keeps_ok [OF tf(1) assms(2)])
  ultimately show ?thesis by blast
qed

lemma uncovered_leg:
  assumes "w_faults w = []" and "balances (w_db w) from = Some (x, h)" and "balances (w_db w) to = Some (y, g)"
    and "0 < k" and "x < k"
  shows "TransferFunds jid from to k c rt ri w =
    (Inl (ErrorfDec ''insufficient funds in from account: available=%s, required=%s'' [x, k]), w)"
proof -
  obtain a b where "account_at (w_db w) from = Some a" "acc_available a = x" "account_at (w_db w) to = Some b"
    using assms(2,3) by (auto simp: balances_def)
  then show ?thesis using assms(1,4,5)
    by (simp add: TransferFunds_def account_at_def io_bind_def io_wrap_def io_not_found_def io_error_def
        GetAccountByID_def)
qed

lemma hold_works:
  assumes "w_faults w = []" and "ledger_ok (w_db w)" and "account_of (w_db w) u c = Some a"
    and "stored k" and "0 < k" and "k \<le> acc_available a" and "acc_hold a + k < 10 ^ 20"
  shows "\<exists>as. HoldFunds u c k w = (Inr (), w\<lparr>w_db := (w_db w)\<lparr>db_accounts := as\<rparr>\<rparr>) \<and>
    ledger_ok ((w_db w)\<lparr>db_accounts := as\<rparr>) \<and>
    balances ((w_db w)\<lparr>db_accounts := as\<rparr>) =
      (balances (w_db w))(acc_id a \<mapsto> (acc_available a - k, acc_hold a + k))"
proof -
  have wf: "db_wf (w_db w)" and nn: "nonneg_balances (w_db w)" using assms(2) by (auto simp: ledger_ok_def)
  have st: "stored (acc_available a)" "stored (acc_hold a)"
    using account_stored [OF wf account_of_wf(1) [OF wf assms(3)]] by auto
  have nonneg: "0 \<le> acc_hold a" using account_nonneg(2) [OF nn wf assms(3)] by simp
  obtain d where up: "update_account (acc_id a) (acc_available a - k) (acc_hold a + k) (w_db w) = Inr d"
    using update_account_ok [OF stored_between [OF st(1) assms(4) _ assms(6)]
        stored_sum [OF st(2) assms(4) nonneg _ assms(7)]] assms(5) by auto
  then obtain as where d: "d = (w_db w)\<lparr>db_accounts := as\<rparr>" using update_account_Inr by blast
  have run: "HoldFunds u c k w = (Inr (), w\<lparr>w_db := d\<rparr>)"
    using assms(3,6) up by (simp add: HoldFunds_works [OF assms(1,5)])
  have "ledger_ok d" using hold_keeps_ok [OF run assms(2)] by simp
  moreover have "balances d = (balances (w_db w))(acc_id a \<mapsto> (acc_available a - k, acc_hold a + k))"
    using hold_balances [OF run wf stored_numeric [OF assms(4)]] assms(3) by auto
  ultimately show ?thesis using run d by blast
qed

lemma account_of_distinct:
  assumes "db_wf d" "account_of d u c = Some a" "account_of d u' c' = Some b" "u \<noteq> u' \<or> c \<noteq> c'"
  shows "acc_id a \<noteq> acc_id b"
proof
  assume "acc_id a = acc_id b"
  then have "Some a = Some b"
    using account_of_wf(1) [OF assms(1,2)] account_of_wf(1) [OF assms(1,3)] by metis
  then show False
    using account_of_wf(2,3) [OF assms(1,2)] account_of_wf(2,3) [OF assms(1,3)] assms(4) by blast
qed

section \<open>Properties\<close>


text \<open>
  C5: every ledger operation, whatever its arguments and whatever the driver does, keeps the schema
  constraints, the non-negativity of every balance, and the zero sum of every journal.
\<close>

theorem ledger_operations_keep_books:
  "io_keeps ledger_ok (TopUpUser jid u k) \<and> io_keeps ledger_ok (HoldFunds u c k) \<and>
   io_keeps ledger_ok (ReleaseHold u c k) \<and> io_keeps ledger_ok (TransferFunds jid from to k c rt ri)"
  by (intro conjI ledger_keeps)


text \<open>
  A transfer of a ten-decimal amount between two accounts debits one and credits the other by
  that amount, in the available balances, and touches no other balance.
\<close>

theorem transfer_moves_funds:
  assumes "TransferFunds jid from to k c rt ri w = (Inr (), w')" and "db_wf (w_db w)"
    and "is_numeric k" and "from \<noteq> to"
  shows "\<exists>a b. account_at (w_db w) from = Some a \<and> account_at (w_db w) to = Some b \<and>
    0 < k \<and> k \<le> acc_available a \<and>
    balances (w_db w') = (balances (w_db w))(from \<mapsto> (acc_available a - k, acc_hold a),
                                            to \<mapsto> (acc_available b + k, acc_hold b))"
  using transfer_balances [OF assms] by blast

text \<open>
  C12: releasing a ten-decimal hold right after it was placed brings back exactly the tables from
  before it.
\<close>

theorem hold_release_roundtrip:
  assumes "w_faults w = []" and "ledger_ok (w_db w)" and "is_numeric k"
    and "HoldFunds u c k w = (Inr (), w')"
  shows "ReleaseHold u c k w' = (Inr (), w)"
proof -
  have wf: "db_wf (w_db w)" using assms(2) by (simp add: ledger_ok_def)
  obtain a where a: "account_of (w_db w) u c = Some a" "0 < k" "k \<le> acc_available a"
    and up: "update_account (acc_id a) (acc_available a - k) (acc_hold a + k) (w_db w) = Inr (w_db w')"
    using HoldFunds_Inr [OF assms(4)] by blast
  have w': "w' = w\<lparr>w_db := w_db w'\<rparr>" using assms(1,4) a(2) up a by (auto simp: HoldFunds_works)
  have faults: "w_faults w' = []" by (subst w') (simp add: assms(1))
  have num: "is_numeric (acc_available a)" "is_numeric (acc_hold a)"
    using balances_numeric [OF wf account_of_wf(4) [OF wf a(1)]] by auto
  have a': "account_of (w_db w') u c = Some (set_balances (acc_available a - k) (acc_hold a + k) a)"
    using account_of_update [OF wf a(1) up] is_numeric_add [OF num(2) assms(3)]
      is_numeric_diff [OF num(1) assms(3)] by (simp add: is_numeric_def)
  have "0 \<le> acc_hold a" using account_nonneg(2) [OF _ wf a(1)] assms(2) by (simp add: ledger_ok_def)
  moreover have "update_account (acc_id a) (acc_available a) (acc_hold a) (w_db w') = Inr (w_db w)"
    by (rule update_account_back [OF wf account_of_wf(1) [OF wf a(1)] up])
  moreover have "w'\<lparr>w_db := w_db w\<rparr> = w" by (subst w') simp
  ultimately show ?thesis using faults a' a(2) by (simp add: ReleaseHold_works)
qed

text \<open>
  A top-up cannot succeed, and changes nothing, as long as no account has the nil UUID: the
  entry for the \<open>system equity account\<close> violates the foreign key of \<open>ledger_entries\<close>.
\<close>

theorem topup_needs_system_account:
  assumes "\<not> has_account (w_db w) uuid_nil"
  shows "\<exists>e w'. TopUpUser jid u k w = (Inl e, w') \<and> w_db w' = w_db w"
proof (cases "TopUpUser jid u k w")
  case (Pair r w')
  have "r \<noteq> Inr a" for a
  proof
    assume "r = Inr a"
    then obtain b d1 d2 where
      "insert_entry (w_now w) (mk_entry jid b k CurrencyUSD ''TOPUP'' jid) (w_db w) = Inr d1"
      "insert_entry (w_now w) (mk_entry jid uuid_nil (- k) CurrencyUSD ''TOPUP'' jid) d1 = Inr d2"
      using TopUpUser_Inr Pair by meson
    then have "has_account (w_db w) uuid_nil"
      using insert_entry_Inr(1) insert_entry_frame(4) by (fastforce simp: has_account_def mk_entry_def)
    with assms show False ..
  qed
  then obtain e where "r = Inl e" by (cases r) auto
  with Pair show ?thesis using TopUpUser_atomic by (auto simp: io_atomic_def)
qed

text \<open>
  Holding an amount that the account covers moves the account's total by at most one unit of
  the tenth decimal, the rounding of the two columns.
\<close>

theorem hold_total_within_a_unit:
  assumes "HoldFunds u c k w = (Inr (), w')" and "db_wf (w_db w)"
  shows "\<exists>a x y. account_of (w_db w) u c = Some a \<and> balances (w_db w') (acc_id a) = Some (x, y) \<and>
    \<bar>(x + y) - (acc_available a + acc_hold a)\<bar> \<le> 1 / 10 ^ 10"
proof -
  obtain a where a: "account_of (w_db w) u c = Some a"
    and up: "update_account (acc_id a) (acc_available a - k) (acc_hold a + k) (w_db w) = Inr (w_db w')"
    using HoldFunds_Inr [OF assms(1)] by blast
  then show ?thesis
    using acct.move_close [OF assms(2) account_of_wf(4) [OF assms(2) a], of "- k"] by simp
qed

text \<open>
  \<open>CreateJournal\<close> adds its entries exactly when there is one, the amounts sum to zero, and every
  entry can be inserted; otherwise it is an error. It never drops or reorders an entry.
\<close>

theorem journal_accepted_iff:
  assumes "w_faults w = []"
  shows "fst (CreateJournal [] es w) =
    (if es = [] then Inl (Errorf ''journal must have at least one entry'')
     else if sum_list (map le_amount es) \<noteq> 0
     then Inl (ErrorfDec ''journal is not balanced: total = %s'' [sum_list (map le_amount es)])
     else (case fold_result (insert_entry (w_now w)) es (w_db w) of
             Inl e \<Rightarrow> Inl (ErrorfWrap ''failed to create ledger entry'' e)
           | Inr d \<Rightarrow> Inr (map InsertEntry es)))"
  using insert_entries_works [OF assms, of "[]" "w_db w" es]
  by (simp add: CreateJournal_def journal_total_sum io_error_def split: sum.split)

text \<open>
  In a database the ledger operations have kept, \<open>ValidateJournalBalance\<close> accepts every journal.
\<close>

lemma journals_validate:
  assumes "w_faults w = []" and "ledger_ok (w_db w)"
  shows "ValidateJournalBalance j w = (Inr True, w)"
  using assms by (simp add: ValidateJournalBalance_def io_wrap_def io_bind_def io_return_def
      ledger_ok_def journals_balanced_def)

text \<open>
  \<open>GetLedgerEntriesByAccountID\<close> never returns an entry: it succeeds on an empty page only, and a
  page with entries is an error, because \<open>Scan\<close> gets nine destinations for eight columns.
\<close>

theorem entries_by_account_never_returned:
  assumes "w_faults w = []" and "0 \<le> limit" and "0 \<le> offset"
  shows "GetLedgerEntriesByAccountID i limit offset w =
    (if nat limit = 0 \<or> length (filter (\<lambda>e. le_account e = i) (db_entries (w_db w))) \<le> nat offset
     then (Inr [], w)
     else (Inl (ErrorfWrap ''failed to scan ledger entry'' ScanArity), w))"
  using assms
  by (cases "take (nat limit) (drop (nat offset) (sort_key (\<lambda>e. - le_created_at e)
        (filter (\<lambda>e. le_account e = i) (db_entries (w_db w)))))")
     (auto simp: GetLedgerEntriesByAccountID_def io_bind_def io_wrap_def db_page_def db_call_def
       io_error_def io_return_def by_account_columns_def by_account_dests_def)

section \<open>A sample database\<close>

definition sample_user :: "uuid \<Rightarrow> string \<Rightarrow> user" where
  "sample_user i email = \<lparr>usr_id = i, usr_email = email, usr_password_hash = ''h'', usr_created_at = 0\<rparr>"

definition sample_account :: "uuid \<Rightarrow> uuid \<Rightarrow> currency \<Rightarrow> decimal \<Rightarrow> decimal \<Rightarrow> account" where
  "sample_account i u c x y =
     \<lparr>acc_id = i, acc_user = u, acc_currency = c, acc_available = x, acc_hold = y\<rparr>"

text \<open>
  Users 1 and 2, and user 3 whose USD account has the nil UUID. User 1 was credited 1000 USD, user 2
  has 5 BTC of which 2 are on hold.
\<close>

definition sample_db :: db where
  "sample_db = \<lparr>
     db_users = [sample_user 1 ''a'', sample_user 2 ''b'', sample_user 3 ''c''],
     db_accounts =
       [sample_account 11 1 CurrencyUSD 1000 0, sample_account 12 1 CurrencyBTC 1 0,
        sample_account 13 1 CurrencyETH 0 0,
        sample_account 21 2 CurrencyUSD 0 0, sample_account 22 2 CurrencyBTC 3 2,
        sample_account 23 2 CurrencyETH 0 0,
        sample_account 0 3 CurrencyUSD 0 0, sample_account 32 3 CurrencyBTC 0 0,
        sample_account 33 3 CurrencyETH 0 0],
     db_entries =
       [mk_entry 41 11 1000 CurrencyUSD ''TOPUP'' 41, mk_entry 41 0 (- 1000) CurrencyUSD ''TOPUP'' 41,
        mk_entry 42 22 5 CurrencyBTC ''TOPUP'' 42, mk_entry 42 0 (- 5) CurrencyBTC ''TOPUP'' 42,
        mk_entry 43 12 1 CurrencyBTC ''TOPUP'' 43, mk_entry 43 0 (- 1) CurrencyBTC ''TOPUP'' 43],
     db_orders = [], db_idem = []\<rparr>"

definition sample_world :: world where
  "sample_world = \<lparr>w_db = sample_db, w_now = 7, w_faults = []\<rparr>"

lemma sample_world_sel [simp]: "w_db sample_world = sample_db" "w_faults sample_world = []"
  by (simp_all add: sample_world_def)

lemma is_numeric_of_int: "is_numeric (of_int k)"
  unfolding is_numeric_iff by (rule exI [of _ "k * 10 ^ 10"]) simp

lemma stored_numeral [simp]: "stored (numeral n) \<longleftrightarrow> (numeral n :: rat) < 10 ^ 20"
  "stored (- numeral n) \<longleftrightarrow> (numeral n :: rat) < 10 ^ 20" "stored 1" "stored (- 1)" "stored 0"
  using is_numeric_of_int [of "numeral n"] is_numeric_of_int [of "- numeral n"] is_numeric_of_int [of 1]
    is_numeric_of_int [of "- 1"]
  by (simp_all add: stored_iff)

lemma sample_db_wf: "db_wf sample_db"
  by (auto simp: db_wf_def sample_db_def sample_user_def sample_account_def acc_key_def mk_entry_def
      has_user_def has_account_def)

lemma sample_balances:
  "balances sample_db 11 = Some (1000, 0)" "balances sample_db 12 = Some (1, 0)"
  "balances sample_db 21 = Some (0, 0)" "balances sample_db 22 = Some (3, 2)"
  by (simp_all add: balances_def account_at_def sample_db_def sample_account_def)

lemma sample_account_of:
  "account_of sample_db 1 CurrencyUSD = Some (sample_account 11 1 CurrencyUSD 1000 0)"
  "account_of sample_db 1 CurrencyBTC = Some (sample_account 12 1 CurrencyBTC 1 0)"
  "account_of sample_db 2 CurrencyUSD = Some (sample_account 21 2 CurrencyUSD 0 0)"
  "account_of sample_db 2 CurrencyBTC = Some (sample_account 22 2 CurrencyBTC 3 2)"
  by (simp_all add: account_of_def sample_db_def sample_account_def)

lemma sample_account_sel [simp]:
  "acc_id (sample_account i u c x y) = i" "acc_available (sample_account i u c x y) = x"
  "acc_hold (sample_account i u c x y) = y"
  by (simp_all add: sample_account_def)

lemma sample_db_ok: "ledger_ok sample_db"
proof -
  have "nonneg_balances sample_db"
    by (auto simp: nonneg_balances_def balances_def account_at_def sample_db_def sample_account_def
        split: if_splits)
  moreover have "journals_balanced sample_db"
    by (auto simp: journals_balanced_def journal_sum_def sample_db_def mk_entry_def)
  ultimately show ?thesis using sample_db_wf by (simp add: ledger_ok_def)
qed

section \<open>The properties on the sample database\<close>


lemma transfer_moves_witness:
  "\<exists>w'. TransferFunds 99 11 21 5 CurrencyUSD ''TRADE'' 98 sample_world = (Inr (), w') \<and>
     balances (w_db w') = (balances sample_db)(11 \<mapsto> (995, 0), 21 \<mapsto> (5, 0))"
proof -
  have at: "account_at sample_db 11 = Some (sample_account 11 1 CurrencyUSD 1000 0)"
      "account_at sample_db 21 = Some (sample_account 21 2 CurrencyUSD 0 0)"
    by (simp_all add: account_at_def sample_db_def sample_account_def)
  obtain w' where w': "TransferFunds 99 11 21 5 CurrencyUSD ''TRADE'' 98 sample_world = (Inr (), w')"
    using transfer_works [of sample_world 11 _ 21 _ 5] sample_db_ok at by fastforce
  show ?thesis
    using transfer_moves_funds [OF w'] sample_db_wf at w' by (auto simp: stored_numeric)
qed

lemma hold_release_witness:
  "\<exists>w'. HoldFunds 1 CurrencyUSD 5 sample_world = (Inr (), w') \<and>
     ReleaseHold 1 CurrencyUSD 5 w' = (Inr (), sample_world)"
proof -
  obtain w' where w': "HoldFunds 1 CurrencyUSD 5 sample_world = (Inr (), w')"
    using hold_works [of sample_world 1 CurrencyUSD _ 5] sample_db_ok sample_account_of by fastforce
  show ?thesis
    using hold_release_roundtrip [OF _ _ _ w'] sample_db_ok w' by (auto simp: stored_numeric)
qed

text \<open>A database in which one user has registered.\<close>

definition fresh_db :: db where
  "fresh_db = \<lparr>db_users = [sample_user 1 ''a''],
     db_accounts = [new_account 11 1 CurrencyUSD, new_account 12 1 CurrencyBTC, new_account 13 1 CurrencyETH],
     db_entries = [], db_orders = [], db_idem = []\<rparr>"

lemma fresh_db_insert: "insert_user (sample_user 1 ''a'') 11 12 13 db_empty = Inr fresh_db"
  by (simp add: insert_user_def db_empty_def fresh_db_def has_user_def has_account_def sample_user_def)

lemma topup_needs_witness:
  "\<exists>e w'. TopUpUser 99 1 100 \<lparr>w_db = fresh_db, w_now = 0, w_faults = []\<rparr> = (Inl e, w') \<and> w_db w' = fresh_db"
  using topup_needs_system_account [of "\<lparr>w_db = fresh_db, w_now = 0, w_faults = []\<rparr>" 99 1 100]
  by (simp add: fresh_db_def has_account_def uuid_nil_def new_account_def)

text \<open>
  A hold of half a unit of the tenth decimal: the available balance rounds back to what it was, the
  held balance rounds up, and the account has gained a unit.
\<close>

definition tiny_hold :: decimal where
  "tiny_hold = 1 / (2 * 10 ^ 10)"

lemma hold_total_witness:
  "\<exists>w' x y. HoldFunds 1 CurrencyUSD tiny_hold sample_world = (Inr (), w') \<and>
     balances (w_db w') 11 = Some (x, y) \<and> x + y = 1000 + 1 / 10 ^ 10 \<and>
     \<bar>(x + y) - 1000\<bar> \<le> 1 / 10 ^ 10"
proof -
  let ?a = "sample_account 11 1 CurrencyUSD 1000 0"
  have r: "numeric_round (1000 - tiny_hold) = 1000" "numeric_round tiny_hold = 1 / 10 ^ 10"
    by (simp_all add: numeric_round_pos tiny_hold_def floor_eq_iff)
  then have "\<exists>d. update_account 11 (1000 - tiny_hold) tiny_hold sample_db = Inr d"
    by (simp add: update_account_def to_numeric_def Let_def)
  then obtain d where up: "update_account 11 (1000 - tiny_hold) tiny_hold sample_db = Inr d" by blast
  have pos: "0 < tiny_hold" "tiny_hold \<le> 1000" by (simp_all add: tiny_hold_def)
  have run: "HoldFunds 1 CurrencyUSD tiny_hold sample_world = (Inr (), sample_world\<lparr>w_db := d\<rparr>)"
    using HoldFunds_works [OF _ pos(1), of sample_world] sample_account_of up pos by simp
  have "balances d 11 = Some (1000, 1 / 10 ^ 10)"
    using acct.put_bal [OF up] sample_balances r by simp
  then show ?thesis
    using hold_total_within_a_unit [OF run] run sample_db_wf sample_account_of by auto
qed

lemma journal_accepted_witness:
  "fst (CreateJournal [] (transfer_entries 99 11 21 5 CurrencyUSD ''TRADE'' 98) sample_world) =
     Inr (map InsertEntry (transfer_entries 99 11 21 5 CurrencyUSD ''TRADE'' 98))"
proof -
  have "\<exists>d. fold_result (insert_entry 7) (transfer_entries 99 11 21 5 CurrencyUSD ''TRADE'' 98) sample_db = Inr d"
    using stored_numeral(1) [of "num.Bit1 (num.Bit0 num.One)"] stored_numeral(2) [of "num.Bit1 (num.Bit0 num.One)"]
    by (simp add: transfer_entries_def mk_entry_def insert_entry_def stored_def has_account_def sample_db_def
        sample_account_def)
  then show ?thesis
    using journal_accepted_iff [of sample_world "transfer_entries 99 11 21 5 CurrencyUSD ''TRADE'' 98"]
    by (auto simp: sample_world_def transfer_entries_def mk_entry_def)
qed

lemma entries_by_account_witness:
  "GetLedgerEntriesByAccountID 11 10 0 sample_world =
     (Inl (ErrorfWrap ''failed to scan ledger entry'' ScanArity), sample_world)"
  using entries_by_account_never_returned [of sample_world 10 0 11]
  by (simp add: sample_db_def mk_entry_def)

end
