(* ===== verification/Quotes.thy ===== *)
theory Quotes
  imports Models
begin

text \<open>
  \<open>internal/quotes/quotes.go\<close>: the latest quote of each symbol, the subscribers' channels, and the
  mock generator.

  A channel is an address into the list of channels made so far; it holds the buffered quotes, has
  room for ten, and may be closed. A send on a closed channel is a run-time panic. Redis carries
  quotes between \<open>publishQuote\<close> and \<open>subscribeToQuotes\<close>; decoding a message is the parameter
  \<open>unmarshal\<close>.
\<close>

section \<open>State\<close>

record quote_chan =
  ch_buf :: "quote list"
  ch_closed :: bool

type_synonym cref = nat

record quotes_service =
  qs_quotes :: "symbol \<rightharpoonup> quote"
  qs_subs :: "symbol \<Rightarrow> cref list"
  qs_chans :: "quote_chan list"

definition NewQuotesService :: quotes_service where
  "NewQuotesService = \<lparr>qs_quotes = (\<lambda>_. None), qs_subs = (\<lambda>_. []), qs_chans = []\<rparr>"

definition chan_cap :: nat where
  "chan_cap = 10"

section \<open>Operations\<close>

definition GetQuote :: "symbol \<Rightarrow> quotes_service \<Rightarrow> go_error + quote" where
  "GetQuote sy s =
     (case qs_quotes s sy of
        None \<Rightarrow> Inl (ErrorfStr ''no quote available for symbol %s'' sy)
      | Some q \<Rightarrow> Inr q)"

definition Subscribe :: "symbol \<Rightarrow> quotes_service \<Rightarrow> cref \<times> quotes_service" where
  "Subscribe sy s =
     (let c = length (qs_chans s) in
      (c, s\<lparr>qs_chans := qs_chans s @ [\<lparr>ch_buf = [], ch_closed = False\<rparr>],
            qs_subs := (qs_subs s)(sy := qs_subs s sy @ [c])\<rparr>))"

definition close_chan :: "cref \<Rightarrow> quote_chan list \<Rightarrow> panic + quote_chan list" where
  "close_chan c chans =
     (if ch_closed (chans ! c) then Inl ClosedChannel
      else Inr (chans[c := (chans ! c)\<lparr>ch_closed := True\<rparr>]))"

text \<open>The loop of \<open>Unsubscribe\<close> leaves at the first subscriber that is the channel.\<close>

fun index_of :: "cref \<Rightarrow> cref list \<Rightarrow> nat option" where
  "index_of c [] = None"
| "index_of c (d # ds) = (if d = c then Some 0 else map_option Suc (index_of c ds))"

definition Unsubscribe :: "symbol \<Rightarrow> cref \<Rightarrow> quotes_service \<Rightarrow> panic + quotes_service" where
  "Unsubscribe sy c s =
     (case index_of c (qs_subs s sy) of
        None \<Rightarrow> Inr s
      | Some i \<Rightarrow>
          (let s1 = s\<lparr>qs_subs := (qs_subs s)(sy := take i (qs_subs s sy) @ drop (Suc i) (qs_subs s sy))\<rparr> in
           map_sum id (\<lambda>cs. s1\<lparr>qs_chans := cs\<rparr>) (close_chan c (qs_chans s))))"

text \<open>\<open>select { case ch <- quote: default: }\<close>\<close>

definition try_send :: "quote \<Rightarrow> cref \<Rightarrow> quote_chan list \<Rightarrow> panic + quote_chan list" where
  "try_send q c chans =
     (if ch_closed (chans ! c) then Inl ClosedChannel
      else if length (ch_buf (chans ! c)) < chan_cap
      then Inr (chans[c := (chans ! c)\<lparr>ch_buf := ch_buf (chans ! c) @ [q]\<rparr>])
      else Inr chans)"

text \<open>
  \<open>updateQuote\<close> in the two steps between which other goroutines may run: it stores the quote and
  reads the subscribers under the locks, then sends without them.
\<close>

definition uq_store :: "quote \<Rightarrow> quotes_service \<Rightarrow> cref list \<times> quotes_service" where
  "uq_store q s = (qs_subs s (q_symbol q), s\<lparr>qs_quotes := (qs_quotes s)(q_symbol q \<mapsto> q)\<rparr>)"

definition uq_notify :: "quote \<Rightarrow> cref list \<Rightarrow> quotes_service \<Rightarrow> panic + quotes_service" where
  "uq_notify q subs s =
     map_sum id (\<lambda>cs. s\<lparr>qs_chans := cs\<rparr>) (fold_result (try_send q) subs (qs_chans s))"

definition updateQuote :: "quote \<Rightarrow> quotes_service \<Rightarrow> panic + quotes_service" where
  "updateQuote q s = (case uq_store q s of (subs, s1) \<Rightarrow> uq_notify q subs s1)"

text \<open>One message of the loop in \<open>subscribeToQuotes\<close>: a payload that does not decode is skipped.\<close>

definition on_message :: "(string \<Rightarrow> go_error + quote) \<Rightarrow> string \<Rightarrow> quotes_service \<Rightarrow> panic + quotes_service" where
  "on_message unmarshal payload s =
     (case unmarshal payload of Inl _ \<Rightarrow> Inr s | Inr q \<Rightarrow> updateQuote q s)"

text \<open>A receive by the subscriber.\<close>

definition chan_recv :: "cref \<Rightarrow> quotes_service \<Rightarrow> quote option \<times> quotes_service" where
  "chan_recv c s =
     (case ch_buf (qs_chans s ! c) of
        [] \<Rightarrow> (None, s)
      | q # qs \<Rightarrow> (Some q, s\<lparr>qs_chans := (qs_chans s)[c := (qs_chans s ! c)\<lparr>ch_buf := qs\<rparr>]\<rparr>))"

section \<open>The mock generator\<close>

text \<open>
  One tick: \<open>n\<close> is \<open>time.Now().UnixNano()\<close>, whose remainder has the sign of the dividend in Go; the
  clock is not negative.
\<close>

definition price_change :: "int \<Rightarrow> decimal" where
  "price_change n = 1 / 1000 * of_int (n mod 100 - 50)"

definition next_price :: "decimal \<Rightarrow> int \<Rightarrow> decimal \<Rightarrow> decimal" where
  "next_price reset n p =
     (let p' = p + price_change n in if p' < 0 then reset else p')"

definition mock_spread :: decimal where
  "mock_spread = 1 / 10000"

definition mock_quote :: "symbol \<Rightarrow> timestamp \<Rightarrow> decimal \<Rightarrow> quote" where
  "mock_quote sy ts p =
     \<lparr>q_symbol = sy, q_bid = p - p * mock_spread, q_ask = p + p * mock_spread, q_ts = ts\<rparr>"

definition mock_tick :: "int \<Rightarrow> int \<Rightarrow> timestamp \<Rightarrow> decimal \<times> decimal \<Rightarrow> quote list \<times> (decimal \<times> decimal)" where
  "mock_tick n1 n2 ts ps =
     (case ps of (btc, eth) \<Rightarrow>
        let btc' = next_price 60000 n1 btc; eth' = next_price 3000 n2 eth in
        ([mock_quote SymbolBTCUSD ts btc', mock_quote SymbolETHUSD ts eth'], (btc', eth')))"

fun mock_run :: "(int \<times> int \<times> timestamp) list \<Rightarrow> decimal \<times> decimal \<Rightarrow> quote list" where
  "mock_run [] ps = []"
| "mock_run ((n1, n2, ts) # ticks) ps =
     (case mock_tick n1 n2 ts ps of (qs, ps') \<Rightarrow> qs @ mock_run ticks ps')"

definition generateMockQuotes :: "(int \<times> int \<times> timestamp) list \<Rightarrow> quote list" where
  "generateMockQuotes ticks = mock_run ticks (60000, 3000)"

section \<open>Invariant\<close>

text \<open>Subscribers are open channels, each subscribed once and to one symbol; no buffer overflows.\<close>

definition qs_wf :: "quotes_service \<Rightarrow> bool" where
  "qs_wf s \<longleftrightarrow>
     (\<forall>sy. distinct (qs_subs s sy)) \<and>
     (\<forall>sy. \<forall>c \<in> set (qs_subs s sy). c < length (qs_chans s) \<and> \<not> ch_closed (qs_chans s ! c)) \<and>
     (\<forall>sy sy'. sy \<noteq> sy' \<longrightarrow> set (qs_subs s sy) \<inter> set (qs_subs s sy') = {}) \<and>
     (\<forall>ch \<in> set (qs_chans s). length (ch_buf ch) \<le> chan_cap)"

lemma NewQuotesService_wf: "qs_wf NewQuotesService"
  by (simp add: qs_wf_def NewQuotesService_def)

lemma Subscribe_wf:
  assumes "qs_wf s"
  shows "qs_wf (snd (Subscribe sy s))"
proof -
  let ?n = "length (qs_chans s)"
  have new: "?n \<notin> set (qs_subs s sy')" for sy' using assms by (force simp: qs_wf_def)
  have old: "c < ?n" "\<not> ch_closed (qs_chans s ! c)" if "c \<in> set (qs_subs s sy')" for c sy'
    using assms that by (auto simp: qs_wf_def)
  have "distinct (qs_subs s sy')" "sy' \<noteq> sy'' \<Longrightarrow> set (qs_subs s sy') \<inter> set (qs_subs s sy'') = {}" for sy' sy''
    using assms by (simp_all add: qs_wf_def)
  then show ?thesis
    using assms new old
    by (auto simp: qs_wf_def Subscribe_def Let_def nth_append less_SucI chan_cap_def
        split: if_split_asm dest: order_less_imp_le)
qed

lemma index_of_Some: "index_of c cs = Some i \<Longrightarrow> i < length cs \<and> cs ! i = c"
  by (induction cs arbitrary: i) (auto split: if_splits)

lemma index_of_None: "index_of c cs = None \<longleftrightarrow> c \<notin> set cs"
  by (induction cs) auto

lemma take_drop_remove1:
  "index_of c cs = Some i \<Longrightarrow> take i cs @ drop (Suc i) cs = remove1 c cs"
  by (induction cs arbitrary: i) (auto split: if_splits)

lemma Unsubscribe_alt:
  "Unsubscribe sy c s =
     (if c \<notin> set (qs_subs s sy) then Inr s
      else map_sum id (\<lambda>cs. s\<lparr>qs_subs := (qs_subs s)(sy := remove1 c (qs_subs s sy)), qs_chans := cs\<rparr>)
             (close_chan c (qs_chans s)))"
  using index_of_None [of c "qs_subs s sy"]
  by (cases "index_of c (qs_subs s sy)") (auto simp: Unsubscribe_def Let_def take_drop_remove1)

text \<open>What sending to a list of distinct open channels does to each channel.\<close>

definition chan_push :: "quote \<Rightarrow> quote_chan \<Rightarrow> quote_chan" where
  "chan_push q ch = (if length (ch_buf ch) < chan_cap then ch\<lparr>ch_buf := ch_buf ch @ [q]\<rparr> else ch)"

lemma chan_push_simps [simp]:
  "ch_closed (chan_push q ch) = ch_closed ch" "length (ch_buf ch) \<le> chan_cap \<Longrightarrow> length (ch_buf (chan_push q ch)) \<le> chan_cap"
  by (simp_all add: chan_push_def)

lemma try_send_open:
  "\<not> ch_closed (chans ! c) \<Longrightarrow> c < length chans \<Longrightarrow> try_send q c chans = Inr (chans[c := chan_push q (chans ! c)])"
  by (simp add: try_send_def chan_push_def)

lemma notify_all:
  assumes "distinct subs" and "\<forall>c \<in> set subs. c < length chans \<and> \<not> ch_closed (chans ! c)"
  shows "\<exists>chans'. fold_result (try_send q) subs chans = Inr chans' \<and> length chans' = length chans \<and>
    (\<forall>c < length chans. chans' ! c = (if c \<in> set subs then chan_push q (chans ! c) else chans ! c))"
  using assms
proof (induction subs arbitrary: chans)
  case (Cons c cs)
  let ?chans = "chans[c := chan_push q (chans ! c)]"
  have "\<forall>d \<in> set cs. d < length ?chans \<and> \<not> ch_closed (?chans ! d)"
    using Cons.prems by (auto simp: nth_list_update)
  then obtain chans' where "fold_result (try_send q) cs ?chans = Inr chans'" "length chans' = length ?chans"
    "\<forall>d < length ?chans. chans' ! d = (if d \<in> set cs then chan_push q (?chans ! d) else ?chans ! d)"
    using Cons.IH [of ?chans] Cons.prems(1) by auto
  then show ?case using Cons.prems by (auto simp: try_send_open nth_list_update)
qed simp

lemma Unsubscribe_wf:
  assumes "qs_wf s" and "c \<in> set (qs_subs s sy)"
  shows "\<exists>s'. Unsubscribe sy c s = Inr s' \<and> qs_wf s' \<and> qs_subs s' = (qs_subs s)(sy := remove1 c (qs_subs s sy)) \<and>
    ch_closed (qs_chans s' ! c)"
proof -
  have c: "c < length (qs_chans s)" "\<not> ch_closed (qs_chans s ! c)" using assms by (auto simp: qs_wf_def)
  have others: "c \<notin> set (qs_subs s sy')" if "sy' \<noteq> sy" for sy'
    using assms that unfolding qs_wf_def by blast
  have d: "distinct (qs_subs s sy')" "sy' \<noteq> sy'' \<Longrightarrow> set (qs_subs s sy') \<inter> set (qs_subs s sy'') = {}" for sy' sy''
    using assms(1) by (simp_all add: qs_wf_def)
  let ?s = "s\<lparr>qs_subs := (qs_subs s)(sy := remove1 c (qs_subs s sy)),
              qs_chans := (qs_chans s)[c := (qs_chans s ! c)\<lparr>ch_closed := True\<rparr>]\<rparr>"
  have "Unsubscribe sy c s = Inr ?s"
    using assms(2) c by (simp add: Unsubscribe_alt close_chan_def)
  moreover have "length (ch_buf ch) \<le> chan_cap" if "ch \<in> set (qs_chans ?s)" for ch
  proof -
    have "ch = (qs_chans s ! c)\<lparr>ch_closed := True\<rparr> \<or> ch \<in> set (qs_chans s)"
      using that set_update_subset_insert [of "qs_chans s" c] by auto
    then show ?thesis using assms(1) nth_mem [OF c(1)] by (auto simp: qs_wf_def)
  qed
  moreover have "x < length (qs_chans ?s) \<and> \<not> ch_closed (qs_chans ?s ! x)" if x: "x \<in> set (qs_subs ?s sy')" for x sy'
  proof -
    have "x \<noteq> c" "x \<in> set (qs_subs s sy')"
      using x others [of sy'] d(1) [of sy] by (auto split: if_splits)
    then show ?thesis using assms(1) by (auto simp: qs_wf_def)
  qed
  moreover have "set (qs_subs ?s sy') \<inter> set (qs_subs ?s sy'') = {}" if "sy' \<noteq> sy''" for sy' sy''
    using d(2) [OF that] d(1) [of sy] by (auto split: if_splits)
  ultimately show ?thesis using d(1) c by (auto simp: qs_wf_def)
qed

lemma updateQuote_wf:
  assumes "qs_wf s"
  shows "\<exists>s'. updateQuote q s = Inr s' \<and> qs_wf s' \<and> qs_subs s' = qs_subs s \<and>
    qs_quotes s' = (qs_quotes s)(q_symbol q \<mapsto> q) \<and> length (qs_chans s') = length (qs_chans s) \<and>
    (\<forall>c < length (qs_chans s). qs_chans s' ! c =
       (if c \<in> set (qs_subs s (q_symbol q)) then chan_push q (qs_chans s ! c) else qs_chans s ! c))"
proof -
  obtain cs where cs: "fold_result (try_send q) (qs_subs s (q_symbol q)) (qs_chans s) = Inr cs"
    "length cs = length (qs_chans s)"
    "\<forall>c < length (qs_chans s). cs ! c =
       (if c \<in> set (qs_subs s (q_symbol q)) then chan_push q (qs_chans s ! c) else qs_chans s ! c)"
    using notify_all [of "qs_subs s (q_symbol q)" "qs_chans s" q] assms by (auto simp: qs_wf_def)
  have cap: "length (ch_buf ch) \<le> chan_cap" if ch: "ch \<in> set cs" for ch
  proof -
    obtain c where "c < length cs" "ch = cs ! c" using ch by (auto simp: in_set_conv_nth)
    then show ?thesis using cs(2,3) assms by (auto simp: qs_wf_def)
  qed
  have opn: "c < length (qs_chans s) \<and> \<not> ch_closed (cs ! c)" if "c \<in> set (qs_subs s sy)" for c sy
    using that assms cs(2,3) by (auto simp: qs_wf_def)
  have "qs_wf (s\<lparr>qs_quotes := (qs_quotes s)(q_symbol q \<mapsto> q), qs_chans := cs\<rparr>)"
    using assms cap opn cs(2) by (simp add: qs_wf_def)
  then show ?thesis using cs by (auto simp: updateQuote_def uq_store_def uq_notify_def)
qed

lemma next_price_nonneg: "0 \<le> reset \<Longrightarrow> 0 \<le> next_price reset n p"
  by (simp add: next_price_def Let_def)

lemma mock_quote_spread: "q_ask (mock_quote sy ts p) - q_bid (mock_quote sy ts p) = p * (2 / 10000)"
  by (simp add: mock_quote_def mock_spread_def field_simps)

definition mock_priced :: "quote \<Rightarrow> bool" where
  "mock_priced qt \<longleftrightarrow>
     (\<exists>p ts sy. 0 \<le> p \<and> qt = mock_quote sy ts p \<and> (sy = SymbolBTCUSD \<or> sy = SymbolETHUSD))"

lemma mock_pricedI:
  "0 \<le> p \<Longrightarrow> mock_priced (mock_quote ''BTC-USD'' ts p)" "0 \<le> p \<Longrightarrow> mock_priced (mock_quote ''ETH-USD'' ts p)"
  by (auto simp: mock_priced_def)

lemma mock_run_quotes: "\<forall>qt \<in> set (mock_run ticks ps). mock_priced qt"
proof (induction ticks ps rule: mock_run.induct)
  case (2 n1 n2 ts ticks ps)
  then show ?case
    by (cases ps) (simp add: mock_tick_def Let_def mock_pricedI next_price_nonneg)
qed simp

text \<open>
  \<open>append(subscribers[:i], subscribers[i+1:]...)\<close> deletes inside the array that a running
  \<open>updateQuote\<close> ranges over: what the other goroutine then sees.
\<close>

definition unsub_array :: "cref \<Rightarrow> cref list \<Rightarrow> cref list" where
  "unsub_array c subs =
     (case index_of c subs of
        None \<Rightarrow> subs
      | Some i \<Rightarrow> take i subs @ drop (Suc i) subs @ [last subs])"

lemma unsub_array_last:
  assumes "distinct subs" "subs \<noteq> []"
  shows "unsub_array (last subs) subs = subs"
proof -
  obtain i where i: "index_of (last subs) subs = Some i"
    using index_of_None [of "last subs" subs] assms(2) by (cases "index_of (last subs) subs") auto
  then have "i = length subs - 1"
    using index_of_Some [OF i] nth_eq_iff_index_eq [OF assms(1), of i "length subs - 1"] assms(2)
    by (simp add: last_conv_nth)
  with i assms(2) show ?thesis
    using append_butlast_last_id [OF assms(2)] butlast_conv_take [of subs] by (simp add: unsub_array_def)
qed

lemma notify_closed:
  assumes "c \<in> set subs" "ch_closed (chans ! c)" "c < length chans"
  shows "fold_result (try_send q) subs chans = Inl ClosedChannel"
  using assms
proof (induction subs arbitrary: chans)
  case (Cons d ds)
  show ?case
  proof (cases "ch_closed (chans ! d)")
    case False
    then have "d \<noteq> c" using Cons.prems(2) by auto
    then show ?thesis using Cons False by (auto simp: try_send_def nth_list_update split: sum.splits)
  qed (simp add: try_send_def)
qed simp

section \<open>Properties\<close>

text \<open>
  As long as updates, subscriptions and unsubscriptions do not overlap, publishing a quote never
  panics: it becomes the quote \<open>GetQuote\<close> returns, every subscriber of its symbol with room in its
  buffer gets it last, a full subscriber is skipped, and no other channel changes.
\<close>

theorem update_reaches_subscribers:
  assumes "qs_wf s"
  shows "\<exists>s'. updateQuote q s = Inr s' \<and> qs_wf s' \<and> GetQuote (q_symbol q) s' = Inr q \<and>
    (\<forall>sy. sy \<noteq> q_symbol q \<longrightarrow> GetQuote sy s' = GetQuote sy s) \<and>
    (\<forall>c < length (qs_chans s). ch_buf (qs_chans s' ! c) =
       (if c \<in> set (qs_subs s (q_symbol q)) \<and> length (ch_buf (qs_chans s ! c)) < 10
        then ch_buf (qs_chans s ! c) @ [q] else ch_buf (qs_chans s ! c)))"
proof -
  obtain s' where "updateQuote q s = Inr s'" "qs_wf s'" "qs_quotes s' = (qs_quotes s)(q_symbol q \<mapsto> q)"
    "\<forall>c < length (qs_chans s). qs_chans s' ! c =
       (if c \<in> set (qs_subs s (q_symbol q)) then chan_push q (qs_chans s ! c) else qs_chans s ! c)"
    using updateQuote_wf [OF assms] by blast
  then show ?thesis by (auto simp: GetQuote_def chan_push_def chan_cap_def)
qed

text \<open>
  C29: when the last subscriber unsubscribes after \<open>updateQuote\<close> has read the subscribers and before
  it sends, the deletion leaves it in the array \<open>updateQuote\<close> ranges over, and the send on its
  closed channel panics the process.
\<close>

theorem unsubscribe_during_update_panics:
  assumes "qs_wf s" and "qs_subs s (q_symbol q) \<noteq> []" and "c = last (qs_subs s (q_symbol q))"
  shows "\<exists>subs s1 s2. uq_store q s = (subs, s1) \<and> Unsubscribe (q_symbol q) c s1 = Inr s2 \<and>
    uq_notify q (unsub_array c subs) s2 = Inl ClosedChannel"
proof -
  let ?s1 = "s\<lparr>qs_quotes := (qs_quotes s)(q_symbol q \<mapsto> q)\<rparr>"
  have wf1: "qs_wf ?s1" using assms(1) by (simp add: qs_wf_def)
  have c: "c \<in> set (qs_subs ?s1 (q_symbol q))" using assms(2,3) by simp
  obtain s2 where s2: "Unsubscribe (q_symbol q) c ?s1 = Inr s2" "ch_closed (qs_chans s2 ! c)"
    using Unsubscribe_wf [OF wf1 c] by blast
  have "length (qs_chans s2) = length (qs_chans ?s1)" "c < length (qs_chans ?s1)"
    using s2(1) c wf1 by (auto simp: Unsubscribe_alt close_chan_def qs_wf_def split: if_splits)
  moreover have "unsub_array c (qs_subs s (q_symbol q)) = qs_subs s (q_symbol q)"
    using unsub_array_last assms by (simp add: qs_wf_def)
  ultimately show ?thesis
    using s2 c notify_closed [of c "qs_subs s (q_symbol q)" "qs_chans s2" q]
    by (auto simp: uq_store_def uq_notify_def)
qed

text \<open>
  Every quote the mock generator publishes has a bid that is not above its ask, neither is
  negative, and their distance is 0.02% of the price (twice what the comment on \<open>spread\<close> says).
\<close>

theorem mock_quotes_sane:
  assumes "qt \<in> set (generateMockQuotes ticks)"
  shows "\<exists>p. 0 \<le> q_bid qt \<and> q_bid qt \<le> p \<and> p \<le> q_ask qt \<and> q_ask qt - q_bid qt = p * (2 / 10000) \<and>
    (q_symbol qt = SymbolBTCUSD \<or> q_symbol qt = SymbolETHUSD)"
proof -
  obtain p ts sy where "0 \<le> p" "qt = mock_quote sy ts p" "sy = SymbolBTCUSD \<or> sy = SymbolETHUSD"
    using mock_run_quotes [of ticks "(60000, 3000)"] assms
    unfolding generateMockQuotes_def mock_priced_def by blast
  then show ?thesis
    using mock_quote_spread [of sy ts p] by (intro exI [of _ p]) (auto simp: mock_quote_def mock_spread_def)
qed

section \<open>The properties on a sample service\<close>

definition sample_quotes :: quotes_service where
  "sample_quotes = snd (Subscribe SymbolBTCUSD NewQuotesService)"

definition sample_quote :: quote where
  "sample_quote = mock_quote SymbolBTCUSD 0 60000"

lemma sample_quotes_wf: "qs_wf sample_quotes"
  unfolding sample_quotes_def by (rule Subscribe_wf [OF NewQuotesService_wf])

lemma sample_quotes_simps:
  "qs_subs sample_quotes SymbolBTCUSD = [0]" "length (qs_chans sample_quotes) = 1"
  "ch_buf (qs_chans sample_quotes ! 0) = []" "q_symbol sample_quote = SymbolBTCUSD"
  by (simp_all add: sample_quotes_def Subscribe_def NewQuotesService_def Let_def sample_quote_def mock_quote_def)

lemma update_reaches_witness:
  "\<exists>s'. updateQuote sample_quote sample_quotes = Inr s' \<and> GetQuote SymbolBTCUSD s' = Inr sample_quote \<and>
     ch_buf (qs_chans s' ! 0) = [sample_quote]"
  using update_reaches_subscribers [OF sample_quotes_wf, of sample_quote] sample_quotes_simps by auto

lemma unsubscribe_race_witness:
  "\<exists>subs s1 s2. uq_store sample_quote sample_quotes = (subs, s1) \<and> Unsubscribe SymbolBTCUSD 0 s1 = Inr s2 \<and>
     uq_notify sample_quote (unsub_array 0 subs) s2 = Inl ClosedChannel"
  using unsubscribe_during_update_panics [OF sample_quotes_wf, of sample_quote 0] sample_quotes_simps by simp

lemma mock_quotes_witness:
  "\<exists>qt p. qt \<in> set (generateMockQuotes [(1, 2, 3)]) \<and> 0 \<le> q_bid qt \<and> q_bid qt \<le> p \<and> p \<le> q_ask qt"
proof -
  obtain qt where qt: "qt \<in> set (generateMockQuotes [(1, 2, 3)])"
    by (simp add: generateMockQuotes_def mock_tick_def Let_def) blast
  then show ?thesis using mock_quotes_sane [OF qt] by blast
qed

end
