(* ===== verification/Orders.thy ===== *)
theory Orders
  imports Matching Ledger Quotes
begin

text \<open>
  \<open>internal/orders/service.go\<close>: validation, the hold on the funds, the matching of the new order, the
  settlement of its trades, and the books' start-up load.

  The state of the service is the database world, the map of books, the book orders allocated so
  far, and the quotes service. A call returns, panics, or never returns (\<open>Diverges\<close> has the state
  it has reached, but for the book it is still matching in, whose lock it holds forever). What \<open>uuid.New\<close> and
  \<open>time.Now\<close> yield during a call, \<open>Decimal.String\<close> and \<open>Decimal.Div\<close> come with the environment.
\<close>

section \<open>State and outcomes\<close>

record env =
  ev_order_id :: uuid
  ev_now :: timestamp
  ev_trade_id :: "nat \<Rightarrow> uuid"
  ev_trade_now :: "nat \<Rightarrow> timestamp"
  ev_journal1 :: "nat \<Rightarrow> uuid"
  ev_journal2 :: "nat \<Rightarrow> uuid"
  ev_str :: "decimal \<Rightarrow> string"
  ev_div :: "decimal \<Rightarrow> decimal \<Rightarrow> decimal"

record ostate =
  os_world :: world
  os_books :: "symbol \<rightharpoonup> order_book"
  os_mem :: omem
  os_quotes :: quotes_service

datatype 'a outcome =
    Returns "go_error + 'a" ostate
  | Panics panic ostate
  | Diverges ostate

section \<open>Checks and amounts\<close>

definition validateOrderRequest :: "create_order_request \<Rightarrow> go_error option" where
  "validateOrderRequest req =
     (if req_qty req \<le> 0 then Some (Errorf ''quantity must be positive'')
      else if req_type req = OrderTypeLimit \<and>
              (case req_price req of None \<Rightarrow> True | Some p \<Rightarrow> p \<le> 0)
      then Some (Errorf ''limit orders must have a positive price'')
      else if req_symbol req \<noteq> SymbolBTCUSD \<and> req_symbol req \<noteq> SymbolETHUSD
      then Some (ErrorfStr ''invalid symbol: %s'' (req_symbol req))
      else None)"

text \<open>The quote is only asked for when the order is a market order.\<close>

definition market_price :: "create_order_request \<Rightarrow> quotes_service \<Rightarrow> go_error + decimal option" where
  "market_price req qs =
     (if req_type req = OrderTypeMarket
      then (case GetQuote (req_symbol req) qs of
              Inl e \<Rightarrow> Inl (ErrorfWrap ''failed to get quote'' e)
            | Inr q \<Rightarrow> Inr (Some (if req_side req = OrderSideBuy then q_ask q else q_bid q)))
      else Inr None)"

text \<open>Any other type than \<open>MARKET\<close> dereferences the request's price.\<close>

definition calculateRequiredAmount ::
  "create_order_request \<Rightarrow> decimal option \<Rightarrow> panic + (go_error + decimal)" where
  "calculateRequiredAmount req fillPrice =
     (let amount = (\<lambda>price. if req_side req = OrderSideBuy then price * req_qty req else req_qty req) in
      if req_type req = OrderTypeMarket
      then (case fillPrice of
              None \<Rightarrow> Inr (Inl (Errorf ''fill price required for market orders''))
            | Some p \<Rightarrow> Inr (Inr (amount p)))
      else (case req_price req of
              None \<Rightarrow> Inl NilDereference
            | Some p \<Rightarrow> Inr (Inr (amount p))))"

definition holdFunds :: "uuid \<Rightarrow> create_order_request \<Rightarrow> decimal \<Rightarrow> unit io" where
  "holdFunds userID req amount =
     (if req_side req = OrderSideBuy then HoldFunds userID CurrencyUSD amount
      else if req_symbol req = SymbolBTCUSD then HoldFunds userID CurrencyBTC amount
      else if req_symbol req = SymbolETHUSD then HoldFunds userID CurrencyETH amount
      else io_error (ErrorfStr ''invalid symbol: %s'' (req_symbol req)))"

section \<open>Settlement\<close>

definition base_currency :: "symbol \<Rightarrow> currency" where
  "base_currency sy = (if sy = SymbolBTCUSD then CurrencyBTC else CurrencyETH)"

definition base_name :: "symbol \<Rightarrow> string" where
  "base_name sy = (if sy = SymbolBTCUSD then ''BTC'' else ''ETH'')"

definition processTrade :: "uuid \<Rightarrow> uuid \<Rightarrow> trade \<Rightarrow> unit io" where
  "processTrade j1 j2 t =
     (let base = base_currency (tr_symbol t); name = base_name (tr_symbol t);
          tradeValue = tr_price t * tr_qty t in
      io_bind (io_wrap ''failed to begin transaction'' db_Begin) (\<lambda>tx.
      io_bind (io_wrap ''failed to get taker USD account'' (GetAccountByUserIDAndCurrency (tr_taker t) CurrencyUSD)) (\<lambda>takerUSD.
      io_bind (io_wrap ''failed to get maker USD account'' (GetAccountByUserIDAndCurrency (tr_maker t) CurrencyUSD)) (\<lambda>makerUSD.
      io_bind (io_wrap (''failed to get taker '' @ name @ '' account'') (GetAccountByUserIDAndCurrency (tr_taker t) base)) (\<lambda>takerBase.
      io_bind (io_wrap (''failed to get maker '' @ name @ '' account'') (GetAccountByUserIDAndCurrency (tr_maker t) base)) (\<lambda>makerBase.
      io_bind
        (if tr_side t = OrderSideBuy
         then io_bind (io_wrap ''failed to transfer USD''
                        (TransferFunds j1 (acc_id takerUSD) (acc_id makerUSD) tradeValue CurrencyUSD ''TRADE'' (tr_id t))) (\<lambda>_.
              io_wrap (''failed to transfer '' @ name)
                (TransferFunds j2 (acc_id makerBase) (acc_id takerBase) (tr_qty t) base ''TRADE'' (tr_id t)))
         else io_bind (io_wrap (''failed to transfer '' @ name)
                        (TransferFunds j1 (acc_id takerBase) (acc_id makerBase) (tr_qty t) base ''TRADE'' (tr_id t))) (\<lambda>_.
              io_wrap ''failed to transfer USD''
                (TransferFunds j2 (acc_id makerUSD) (acc_id takerUSD) tradeValue CurrencyUSD ''TRADE'' (tr_id t)))) (\<lambda>_.
      io_wrap ''failed to commit transaction'' (tx_Commit tx))))))))"

text \<open>The loop over the trades: a trade that fails is logged and left out of the totals.\<close>

fun process_trades ::
  "env \<Rightarrow> nat \<Rightarrow> trade list \<Rightarrow> decimal \<times> decimal \<Rightarrow> world \<Rightarrow> (decimal \<times> decimal) \<times> world" where
  "process_trades ev n [] tot w = (tot, w)"
| "process_trades ev n (t # ts) tot w =
     (case processTrade (ev_journal1 ev n) (ev_journal2 ev n) t w of
        (Inl e, w') \<Rightarrow> process_trades ev (Suc n) ts tot w'
      | (Inr _, w') \<Rightarrow>
          process_trades ev (Suc n) ts (fst tot + tr_qty t, snd tot + tr_price t * tr_qty t) w')"

section \<open>Orders\<close>

definition convertToBookOrder :: "order \<Rightarrow> book_order" where
  "convertToBookOrder r =
     \<lparr>bo_id = ord_id r, bo_user = ord_user r, bo_symbol = ord_symbol r, bo_side = ord_side r,
      bo_type = ord_type r, bo_price = ord_price r, bo_qty = ord_qty r, bo_filled = ord_filled r,
      bo_status = ord_status r, bo_created_at = ord_created_at r\<rparr>"

definition new_order :: "env \<Rightarrow> uuid \<Rightarrow> create_order_request \<Rightarrow> order" where
  "new_order ev userID req =
     \<lparr>ord_id = ev_order_id ev, ord_user = userID, ord_symbol = req_symbol req, ord_side = req_side req,
      ord_type = req_type req, ord_price = req_price req, ord_qty = req_qty req, ord_filled = 0,
      ord_status = OrderStatusNew, ord_created_at = ev_now ev\<rparr>"

definition filled_order :: "order \<Rightarrow> decimal \<Rightarrow> order" where
  "filled_order r q =
     (let r' = r\<lparr>ord_filled := q\<rparr> in
      if q = ord_qty r then r'\<lparr>ord_status := OrderStatusFilled\<rparr>
      else if q > 0 then r'\<lparr>ord_status := OrderStatusPartiallyFilled\<rparr>
      else r')"

definition save_fill :: "order \<Rightarrow> unit io" where
  "save_fill r =
     io_bind (io_wrap ''failed to begin transaction'' db_Begin) (\<lambda>t.
     io_bind (io_wrap ''failed to update order'' (UpdateOrder t r)) (\<lambda>t.
     io_wrap ''failed to commit transaction'' (tx_Commit t)))"

text \<open>
  The part of \<open>CreateOrder\<close> after the order row is saved: match, settle, update the row, and rest
  what is not filled.
\<close>

definition fill_order :: "env \<Rightarrow> order \<Rightarrow> ostate \<Rightarrow> create_order_response outcome" where
  "fill_order ev r s =
     (case os_books s (ord_symbol r) of
        None \<Rightarrow> Panics NilDereference s
      | Some ob \<Rightarrow>
     (case MatchOrder (ev_trade_id ev) (ev_trade_now ev) (os_mem s) (convertToBookOrder r) ob of
        None \<Rightarrow> Diverges s
      | Some m \<Rightarrow>
          (let r1 = length (mr_mem m);
               mem1 = mr_mem m @ [mr_order m];
               s1 = s\<lparr>os_mem := mem1, os_books := (os_books s)(ord_symbol r \<mapsto> mr_book m)\<rparr> in
           case mr_panic m of Some p \<Rightarrow> Panics p s1
           | None \<Rightarrow>
          (case process_trades ev 0 (mr_trades m) (0, 0) (os_world s) of
             ((totalFillQty, totalFillValue), w1) \<Rightarrow>
          (let r' = filled_order r totalFillQty in
           case save_fill r' w1 of
             (Inl e, w2) \<Rightarrow> Returns (Inl e) (s1\<lparr>os_world := w2\<rparr>)
           | (Inr _, w2) \<Rightarrow>
               (let s2 = s1\<lparr>os_world := w2\<rparr>;
                    resp = \<lparr>resp_order_id = ord_id r', resp_status = ord_status r',
                            resp_filled = totalFillQty,
                            resp_avg_price =
                              (if totalFillQty > 0 then Some (ev_div ev totalFillValue totalFillQty) else None)\<rparr> in
                if ord_status r' = OrderStatusNew \<or> ord_status r' = OrderStatusPartiallyFilled
                then (case ob_AddOrder (ev_str ev) mem1 r1 (mr_book m) of
                        Inl p \<Rightarrow> Panics p s2
                      | Inr ob' \<Rightarrow> Returns (Inr resp) (s2\<lparr>os_books := (os_books s2)(ord_symbol r \<mapsto> ob')\<rparr>))
                else Returns (Inr resp) s2))))))"

definition CreateOrder :: "env \<Rightarrow> uuid \<Rightarrow> create_order_request \<Rightarrow> ostate \<Rightarrow> create_order_response outcome" where
  "CreateOrder ev userID req s =
     (case validateOrderRequest req of
        Some e \<Rightarrow> Returns (Inl e) s
      | None \<Rightarrow>
     (case market_price req (os_quotes s) of
        Inl e \<Rightarrow> Returns (Inl e) s
      | Inr fillPrice \<Rightarrow>
     (case calculateRequiredAmount req fillPrice of
        Inl p \<Rightarrow> Panics p s
      | Inr (Inl e) \<Rightarrow> Returns (Inl e) s
      | Inr (Inr amount) \<Rightarrow>
     (case holdFunds userID req amount (os_world s) of
        (Inl e, w1) \<Rightarrow> Returns (Inl e) (s\<lparr>os_world := w1\<rparr>)
      | (Inr _, w1) \<Rightarrow>
     (let r = new_order ev userID req in
      case io_wrap ''failed to create order'' (CreateOrderRow r) w1 of
        (Inl e, w2) \<Rightarrow> Returns (Inl e) (s\<lparr>os_world := w2\<rparr>)
      | (Inr _, w2) \<Rightarrow> fill_order ev r (s\<lparr>os_world := w2\<rparr>))))))"

definition GetOrder :: "uuid \<Rightarrow> order io" where
  "GetOrder i = GetOrderByID i"

definition svc_GetOrdersByUserID :: "uuid \<Rightarrow> int \<Rightarrow> int \<Rightarrow> order list io" where
  "svc_GetOrdersByUserID u limit offset = GetOrdersByUserID u limit offset"

section \<open>Start-up\<close>

fun load_book :: "(decimal \<Rightarrow> string) \<Rightarrow> order list \<Rightarrow> omem \<times> order_book \<Rightarrow> panic + omem \<times> order_book" where
  "load_book str [] (mem, ob) = Inr (mem, ob)"
| "load_book str (r # rs) (mem, ob) =
     (let mem' = mem @ [convertToBookOrder r] in
      case ob_AddOrder str mem' (length mem) ob of
        Inl p \<Rightarrow> Inl p
      | Inr ob' \<Rightarrow> load_book str rs (mem', ob'))"

text \<open>\<open>symbols\<close> is the order in which \<open>range\<close> visits the map; a query that fails is logged and skipped.\<close>

fun loadOrdersIntoBooks :: "(decimal \<Rightarrow> string) \<Rightarrow> symbol list \<Rightarrow> ostate \<Rightarrow> unit outcome" where
  "loadOrdersIntoBooks str [] s = Returns (Inr ()) s"
| "loadOrdersIntoBooks str (sy # sys) s =
     (case GetActiveOrdersBySymbol sy (os_world s) of
        (Inl e, w') \<Rightarrow> loadOrdersIntoBooks str sys (s\<lparr>os_world := w'\<rparr>)
      | (Inr rows, w') \<Rightarrow>
          (case os_books s sy of
             None \<Rightarrow> (if rows = [] then loadOrdersIntoBooks str sys (s\<lparr>os_world := w'\<rparr>)
                       else Panics NilDereference (s\<lparr>os_world := w'\<rparr>))
           | Some ob \<Rightarrow>
               (case load_book str rows (os_mem s, ob) of
                  Inl p \<Rightarrow> Panics p (s\<lparr>os_world := w'\<rparr>)
                | Inr (mem', ob') \<Rightarrow>
                    loadOrdersIntoBooks str sys
                      (s\<lparr>os_world := w', os_mem := mem', os_books := (os_books s)(sy \<mapsto> ob')\<rparr>))))"

definition NewService :: "(decimal \<Rightarrow> string) \<Rightarrow> symbol list \<Rightarrow> world \<Rightarrow> quotes_service \<Rightarrow> unit outcome" where
  "NewService str syms w qs =
     loadOrdersIntoBooks str syms
       \<lparr>os_world = w,
        os_books = [SymbolBTCUSD \<mapsto> NewOrderBook SymbolBTCUSD, SymbolETHUSD \<mapsto> NewOrderBook SymbolETHUSD],
        os_mem = [], os_quotes = qs\<rparr>"

section \<open>What every call does to the books and the holds\<close>

lemma tx_Commit_empty: "io_reads (tx_Commit [])"
  by (auto simp: io_reads_def tx_Commit_def db_call_def Let_def split: list.splits)

lemma processTrade_trading: "io_steps trading (processTrade j1 j2 t)"
  unfolding processTrade_def Let_def
  by (intro trading.steps_begin trading.steps transfer_trading trading.steps_reads tx_Commit_empty io_rules)

lemma processTrade_calm: "io_steps calm (processTrade j1 j2 t)"
  unfolding processTrade_def Let_def
  by (intro calm.steps calm_prims calm_repo ledger_calm)

lemma holdFunds_trading: "io_steps trading (holdFunds u req k)"
  unfolding holdFunds_def by (intro trading.steps hold_trading)

text \<open>Writes to the order table leave the books as they were.\<close>

lemma order_write_frame:
  assumes "db_apply now wr d = Inr d'" and "wr = InsertOrder r \<or> wr = UpdateOrderRow i f st"
  shows "balances d' = balances d" and "journal_sum d' = journal_sum d" and "account_sum d' = account_sum d"
    and "db_accounts d' = db_accounts d"
proof -
  have "db_accounts d' = db_accounts d \<and> db_entries d' = db_entries d"
    using assms insert_order_Inr(3) [of r d d'] by (auto simp: update_order_def split: sum.splits)
  then show "balances d' = balances d" "journal_sum d' = journal_sum d" "account_sum d' = account_sum d"
    "db_accounts d' = db_accounts d"
    by (auto simp: balances_def account_at_def journal_sum_def account_sum_def fun_eq_iff)
qed

lemma order_write_trading:
  assumes "db_apply now wr (w_db w) = Inr (w_db w')" and "wr = InsertOrder r \<or> wr = UpdateOrderRow i f st"
  shows "trading w w'"
  using order_write_frame [OF assms] db_apply_wf [OF assms(1)]
  by (auto simp: trading_def ledger_ok_def nonneg_balances_def journals_balanced_def holds_kept_def)

lemma CreateOrderRow_atomic: "io_atomic (CreateOrderRow r)"
  unfolding CreateOrderRow_def by (intro io_rules)

lemma CreateOrderRow_trading: "io_steps trading (CreateOrderRow r)"
proof (rule trading.steps_atomic [OF CreateOrderRow_atomic])
  fix w x w' assume "CreateOrderRow r w = (Inr x, w')"
  then have "db_apply (w_now w) (InsertOrder r) (w_db w) = Inr (w_db w')"
    unfolding CreateOrderRow_def by (elim io_wrapE db_ExecE)
  then show "trading w w'" using order_write_trading by blast
qed

lemma save_fill_trading: "io_steps trading (save_fill r)"
proof (rule trading.steps_atomic)
  show "io_atomic (save_fill r)"
    unfolding save_fill_def by (intro io_atomic_bind_reads io_rules)
  fix w x w' assume "save_fill r w = (Inr x, w')"
  then have "db_apply (w_now w) (UpdateOrderRow (ord_id r) (ord_filled r) (ord_status r)) (w_db w)
      = Inr (w_db w')"
    by (auto simp: save_fill_def split: sum.split_asm elim!: io_elims)
  then show "trading w w'" using order_write_trading by blast
qed

lemma holdFunds_writes: "io_steps writes (holdFunds u req k)"
  unfolding holdFunds_def by (intro writes.steps ledger_writes)

lemma processTrade_writes: "io_steps writes (processTrade j1 j2 t)"
  unfolding processTrade_def Let_def
  by (intro writes.steps writes_prims writes_repo ledger_writes)

lemma save_fill_writes: "io_steps writes (save_fill r)"
  unfolding save_fill_def by (intro writes.steps writes_prims writes_repo)

text \<open>Every book of the service is well formed.\<close>

definition books_wf :: "(decimal \<Rightarrow> string) \<Rightarrow> ostate \<Rightarrow> bool" where
  "books_wf str s \<longleftrightarrow> (\<forall>sy ob. os_books s sy = Some ob \<longrightarrow> ob_wf str (os_mem s) ob)"

fun outcome_all :: "(ostate \<Rightarrow> bool) \<Rightarrow> 'a outcome \<Rightarrow> bool" where
  "outcome_all P (Returns r s) = P s"
| "outcome_all P (Panics p s) = P s"
| "outcome_all P (Diverges s) = P s"

lemma MatchOrder_mem:
  assumes "MatchOrder newid now mem r ob = Some m" and "ob_wf str mem ob"
  shows "length (mr_mem m) = length mem"
    and "q < length mem \<Longrightarrow> bo_price (mr_mem m ! q) = bo_price (mem ! q)"
    and "bo_price (mr_order m) = bo_price r" and "bo_side (mr_order m) = bo_side r"
proof -
  obtain side st where
    post: "loop_post str (bo_side r = OrderSideBuy) (opposite r ob) (start_st mem r) (mr_panic m, side, st)"
    and mem: "mr_mem m = ms_mem st"
    and o1: "mr_panic m = None \<Longrightarrow> mr_order m = final_status (ms_order st)"
    and o2: "mr_panic m \<noteq> None \<Longrightarrow> mr_order m = ms_order st"
    using MatchOrder_post [OF assms] by metis
  obtain lp S ts where rel: "match_rel lp S ts (start_st mem r) st" using loop_post_rel [OF post] by metis
  show "length (mr_mem m) = length mem" using rel mem by (simp add: match_rel_def)
  show "q < length mem \<Longrightarrow> bo_price (mr_mem m ! q) = bo_price (mem ! q)"
    using match_rel_price [OF rel] mem by simp
  have "bo_price (ms_order st) = bo_price r" "bo_side (ms_order st) = bo_side r"
    using rel by (auto simp: match_rel_def)
  then show "bo_price (mr_order m) = bo_price r" "bo_side (mr_order m) = bo_side r"
    using o1 o2 by (cases "mr_panic m", auto)+
qed

lemma bs_wf_grow: "bs_wf str mem bs \<Longrightarrow> bs_wf str (mem @ xs) bs"
  unfolding bs_wf_def price_key_def by (fastforce simp: nth_append)

lemma ob_wf_grow: "ob_wf str mem ob \<Longrightarrow> ob_wf str (mem @ xs) ob"
  by (simp add: ob_wf_def bs_wf_grow)

lemma ob_wf_mem_cong:
  assumes "length mem' = length mem" and "\<And>q. q < length mem \<Longrightarrow> bo_price (mem' ! q) = bo_price (mem ! q)"
  shows "ob_wf str mem' ob \<longleftrightarrow> ob_wf str mem ob"
  using bs_wf_mem_cong [OF assms] by (simp add: ob_wf_def)

text \<open>The books after matching, with the taker allocated behind the other orders.\<close>

lemma books_wf_match:
  assumes "books_wf str s" "os_books s sy = Some ob"
    and m: "MatchOrder newid now (os_mem s) r ob = Some m"
  shows "books_wf str (s\<lparr>os_mem := mr_mem m @ [mr_order m], os_books := (os_books s)(sy \<mapsto> mr_book m)\<rparr>)"
proof -
  have wf: "ob_wf str (os_mem s) ob" using assms(1,2) by (simp add: books_wf_def)
  have "ob_wf str (mr_mem m) (mr_book m)" using MatchOrder_wf [OF m wf] by blast
  moreover have "ob_wf str (mr_mem m) ob'" if "os_books s sy' = Some ob'" for sy' ob'
    using that assms(1) ob_wf_mem_cong [OF MatchOrder_mem(1,2) [OF m wf]] by (auto simp: books_wf_def)
  ultimately show ?thesis by (auto simp: books_wf_def intro: ob_wf_grow)
qed

lemma books_wf_world [simp]: "books_wf str (s\<lparr>os_world := w\<rparr>) = books_wf str s"
  by (simp add: books_wf_def)

lemma ob_add_wf:
  assumes "ob_AddOrder str mem r ob = Inr ob'" "ob_wf str mem ob" "r < length mem"
  shows "ob_wf str mem ob'"
proof (cases "bo_price (mem ! r)")
  case None
  then show ?thesis using assms(1) by (auto simp: ob_AddOrder_def bs_AddOrder_def split: if_splits)
next
  case (Some p)
  then show ?thesis using book_add_appends [OF assms(2,3) Some] assms(1) by auto
qed

lemma fill_order_books:
  assumes bw: "books_wf (ev_str ev) s"
  shows "outcome_all (books_wf (ev_str ev)) (fill_order ev r s)"
proof (cases "os_books s (ord_symbol r)")
  case None
  then show ?thesis using bw by (simp add: fill_order_def)
next
  case ob: (Some ob)
  show ?thesis
  proof (cases "MatchOrder (ev_trade_id ev) (ev_trade_now ev) (os_mem s) (convertToBookOrder r) ob")
    case None
    then show ?thesis using bw by (simp add: fill_order_def ob)
  next
    case m: (Some m)
    let ?s1 = "s\<lparr>os_mem := mr_mem m @ [mr_order m], os_books := (os_books s)(ord_symbol r \<mapsto> mr_book m)\<rparr>"
    have bw1: "books_wf (ev_str ev) ?s1" by (rule books_wf_match [OF bw ob m])
    have add: "books_wf (ev_str ev) (?s1\<lparr>os_world := w2, os_books := (os_books ?s1)(ord_symbol r \<mapsto> ob')\<rparr>)"
      if "ob_AddOrder (ev_str ev) (mr_mem m @ [mr_order m]) (length (mr_mem m)) (mr_book m) = Inr ob'" for ob' w2
    proof -
      have "ob_wf (ev_str ev) (os_mem ?s1) (mr_book m)"
        using bw1 [unfolded books_wf_def, rule_format, of "ord_symbol r" "mr_book m"] by simp
      then have "ob_wf (ev_str ev) (os_mem ?s1) ob'"
        using ob_add_wf [OF that] by simp
      moreover have "ob_wf (ev_str ev) (os_mem ?s1) ob1" if "os_books s sy = Some ob1" "sy \<noteq> ord_symbol r" for sy ob1
        using bw1 [unfolded books_wf_def, rule_format, of sy ob1] that by simp
      ultimately show ?thesis by (auto simp: books_wf_def)
    qed
    show ?thesis using bw1 add
      by (auto simp: fill_order_def ob m Let_def split: sum.split option.split prod.split)
  qed
qed

lemma CreateOrder_books:
  assumes "books_wf (ev_str ev) s"
  shows "outcome_all (books_wf (ev_str ev)) (CreateOrder ev u req s)"
  unfolding CreateOrder_def Let_def using assms fill_order_books
  by (auto split: option.split sum.split prod.split)

text \<open>
  What an order does to the world is what its four operations on the database do: a step relation all
  four keep is kept by the order, whatever its outcome. The two that write an order row need to keep it
  for the rows in \<open>ok\<close> only, of which the new order is one.
\<close>

locale order_steps = step_relation +
  fixes ok :: "order \<Rightarrow> bool"
  assumes hold_step: "io_steps R (holdFunds u req k)"
    and row_step: "ok r \<Longrightarrow> io_steps R (CreateOrderRow r)"
    and trade_step: "io_steps R (processTrade j1 j2 t)"
    and fill_step: "ok r \<Longrightarrow> io_steps R (save_fill (filled_order r q))"
begin

lemma process_trades_step: "R w (snd (process_trades ev n ts tot w))"
proof (induction ts arbitrary: n tot w)
  case (Cons t ts)
  show ?case
  proof (cases "processTrade (ev_journal1 ev n) (ev_journal2 ev n) t w")
    case (Pair r w')
    from step_trans [OF io_stepsD [OF trade_step Pair] Cons.IH] show ?thesis
      by (simp add: Pair split: sum.split)
  qed
qed (simp add: step_refl)

lemma fill_order_step:
  assumes "ok r"
  shows "outcome_all (\<lambda>s'. R (os_world s) (os_world s')) (fill_order ev r s)"
proof -
  have step: "R (os_world s) w2"
    if "process_trades ev 0 ts (0, 0) (os_world s) = (qv, w1)" "save_fill (filled_order r q) w1 = (res, w2)"
    for ts qv w1 q res w2
  proof -
    have "R (os_world s) w1" using process_trades_step [of "os_world s" ev 0 ts "(0, 0)"] that(1) by simp
    from step_trans [OF this io_stepsD [OF fill_step [OF assms] that(2)]] show ?thesis .
  qed
  show ?thesis using step
    by (auto simp: fill_order_def Let_def step_refl split: option.split prod.split sum.split)
qed

lemma CreateOrder_step:
  assumes "ok (new_order ev u req)"
  shows "outcome_all (\<lambda>s'. R (os_world s) (os_world s')) (CreateOrder ev u req s)"
proof -
  have held: "R (os_world s) w1" if "holdFunds u req k (os_world s) = (x, w1)" for k x w1
    by (rule io_stepsD [OF hold_step that])
  have saved: "R (os_world s) w2"
    if "holdFunds u req k (os_world s) = (y, w1)" "io_wrap msg (CreateOrderRow (new_order ev u req)) w1 = (x, w2)" for k y w1 msg x w2
    using step_trans [OF held [OF that(1)] io_stepsD [OF steps_wrap [OF row_step [OF assms]] that(2)]] .
  have filled: "outcome_all (\<lambda>s'. R (os_world s) (os_world s')) 
      (fill_order ev (new_order ev u req) (s\<lparr>os_world := w2\<rparr>))"
    if "R (os_world s) w2" for w2
    using fill_order_step [OF assms, of "s\<lparr>os_world := w2\<rparr>" ev] step_trans [OF that]
    by (cases "fill_order ev (new_order ev u req) (s\<lparr>os_world := w2\<rparr>)") auto
  show ?thesis
    unfolding CreateOrder_def Let_def
    using step_refl held saved filled by (auto split: option.split sum.split prod.split)
qed

end

interpretation trading_order: order_steps trading "\<lambda>_. True"
  by unfold_locales (rule holdFunds_trading CreateOrderRow_trading processTrade_trading save_fill_trading)+

interpretation writes_order: order_steps writes "\<lambda>_. True"
  by unfold_locales (rule holdFunds_writes writes_repo(5) processTrade_writes save_fill_writes)+

definition step_ok :: "(decimal \<Rightarrow> string) \<Rightarrow> ostate \<Rightarrow> ostate \<Rightarrow> bool" where
  "step_ok str s s' \<longleftrightarrow> trading (os_world s) (os_world s') \<and> books_wf str s'"

lemma CreateOrder_ok:
  assumes "books_wf (ev_str ev) s"
  shows "outcome_all (step_ok (ev_str ev) s) (CreateOrder ev u req s)"
  using CreateOrder_books [OF assms, of u req] trading_order.CreateOrder_step [OF TrueI, of s ev u req]
  by (cases "CreateOrder ev u req s") (simp_all add: step_ok_def)

section \<open>Settlement of one trade\<close>

text \<open>The four accounts of a trade: the buyer pays USD for the seller's base currency.\<close>

definition tr_buyer :: "trade \<Rightarrow> uuid" where
  "tr_buyer t = (if tr_side t = OrderSideBuy then tr_taker t else tr_maker t)"

definition tr_seller :: "trade \<Rightarrow> uuid" where
  "tr_seller t = (if tr_side t = OrderSideBuy then tr_maker t else tr_taker t)"

definition tr_value :: "trade \<Rightarrow> decimal" where
  "tr_value t = tr_price t * tr_qty t"

definition usd_leg :: "uuid \<Rightarrow> trade \<Rightarrow> account \<Rightarrow> account \<Rightarrow> unit io" where
  "usd_leg jid t buyer seller =
     TransferFunds jid (acc_id buyer) (acc_id seller) (tr_value t) CurrencyUSD ''TRADE'' (tr_id t)"

definition base_leg :: "uuid \<Rightarrow> trade \<Rightarrow> account \<Rightarrow> account \<Rightarrow> unit io" where
  "base_leg jid t seller buyer =
     TransferFunds jid (acc_id seller) (acc_id buyer) (tr_qty t) (base_currency (tr_symbol t)) ''TRADE'' (tr_id t)"

lemma leg_calm: "io_steps calm (usd_leg j t a b)" "io_steps calm (base_leg j t a b)"
  by (simp_all add: usd_leg_def base_leg_def ledger_calm)

lemma get_account:
  "w_faults w = [] \<Longrightarrow> account_of (w_db w) u c = Some a \<Longrightarrow> GetAccountByUserIDAndCurrency u c w = (Inr a, w)"
  by (simp add: GetAccountByUserIDAndCurrency_def account_of_def io_not_found_def)

lemma bind_commit:
  assumes "w_faults w = []" "io_steps calm X"
  shows "io_bind X (\<lambda>_. io_wrap msg (tx_Commit [])) w = X w"
proof (cases "X w")
  case (Pair r w')
  then have "w_faults w' = []" using io_stepsD [OF assms(2)] assms(1) by (auto simp: calm_def)
  then show ?thesis using Pair by (cases r) (simp_all add: io_bind_def io_wrap_def)
qed

lemma bind_ok: "m w = (Inr x, w') \<Longrightarrow> io_bind m f w = f x w'"
  and wrap_ok: "m w = (Inr x, w') \<Longrightarrow> io_wrap msg m w = (Inr x, w')"
  and bind_err: "m w = (Inl e, w') \<Longrightarrow> io_bind m f w = (Inl e, w')"
  and wrap_err: "m w = (Inl e, w') \<Longrightarrow> io_wrap msg m w = (Inl (ErrorfWrap msg e), w')"
  by (simp_all add: io_bind_def io_wrap_def)

lemma processTrade_legs:
  assumes nf: "w_faults w = []"
    and bu: "account_of (w_db w) (tr_buyer t) CurrencyUSD = Some bu"
    and su: "account_of (w_db w) (tr_seller t) CurrencyUSD = Some su"
    and bb: "account_of (w_db w) (tr_buyer t) (base_currency (tr_symbol t)) = Some bb"
    and sb: "account_of (w_db w) (tr_seller t) (base_currency (tr_symbol t)) = Some sb"
  shows "processTrade j1 j2 t w =
    (let name = ''failed to transfer '' @ base_name (tr_symbol t) in
     if tr_side t = OrderSideBuy
     then io_bind (io_wrap ''failed to transfer USD'' (usd_leg j1 t bu su))
            (\<lambda>_. io_wrap name (base_leg j2 t sb bb)) w
     else io_bind (io_wrap name (base_leg j1 t sb bb))
            (\<lambda>_. io_wrap ''failed to transfer USD'' (usd_leg j2 t bu su)) w)"
proof -
  have bg: "io_wrap m db_Begin w = (Inr [], w)" for m using nf by (simp add: io_wrap_def)
  have get: "io_wrap m (GetAccountByUserIDAndCurrency u c) w = (Inr a, w)"
    if "account_of (w_db w) u c = Some a" for m u c a
    using get_account [OF nf that] by (simp add: io_wrap_def)
  have calm: "io_steps calm
      (if b then io_bind (io_wrap m1 (usd_leg j t x y)) (\<lambda>_. io_wrap m2 (base_leg j' t x' y'))
       else io_bind (io_wrap m3 (base_leg j t x' y')) (\<lambda>_. io_wrap m4 (usd_leg j' t x y)))"
    for b m1 m2 m3 m4 j j' x y x' y'
    by (intro calm.steps leg_calm)
  show ?thesis
  proof (cases "tr_side t = OrderSideBuy")
    case True
    have "processTrade j1 j2 t w =
        io_bind (if tr_side t = OrderSideBuy
          then io_bind (io_wrap ''failed to transfer USD'' (usd_leg j1 t bu su))
                (\<lambda>_. io_wrap (''failed to transfer '' @ base_name (tr_symbol t)) (base_leg j2 t sb bb))
          else io_bind (io_wrap (''failed to transfer '' @ base_name (tr_symbol t)) (base_leg j1 t bb sb))
                (\<lambda>_. io_wrap ''failed to transfer USD'' (usd_leg j2 t su bu)))
          (\<lambda>_. io_wrap ''failed to commit transaction'' (tx_Commit [])) w"
      using True bu su bb sb
      by (simp add: processTrade_def Let_def bind_ok bg get tr_buyer_def tr_seller_def
          usd_leg_def base_leg_def tr_value_def)
    then show ?thesis using True bind_commit [OF nf calm [of True]] by simp
  next
    case False
    have "processTrade j1 j2 t w =
        io_bind (if tr_side t = OrderSideBuy
          then io_bind (io_wrap ''failed to transfer USD'' (usd_leg j1 t su bu))
                (\<lambda>_. io_wrap (''failed to transfer '' @ base_name (tr_symbol t)) (base_leg j2 t bb sb))
          else io_bind (io_wrap (''failed to transfer '' @ base_name (tr_symbol t)) (base_leg j1 t sb bb))
                (\<lambda>_. io_wrap ''failed to transfer USD'' (usd_leg j2 t bu su)))
          (\<lambda>_. io_wrap ''failed to commit transaction'' (tx_Commit [])) w"
      using False bu su bb sb
      by (simp add: processTrade_def Let_def bind_ok bg get tr_buyer_def tr_seller_def
          usd_leg_def base_leg_def tr_value_def)
    then show ?thesis using False bind_commit [OF nf calm [of False]] by simp
  qed
qed

lemma base_currency_neq [simp]: "base_currency sy \<noteq> CurrencyUSD" "CurrencyUSD \<noteq> base_currency sy"
  by (simp_all add: base_currency_def)

lemma buyer_seller: "tr_taker t \<noteq> tr_maker t \<Longrightarrow> tr_buyer t \<noteq> tr_seller t"
  by (simp add: tr_buyer_def tr_seller_def)

section \<open>Placing an order\<close>

definition hold_currency :: "create_order_request \<Rightarrow> currency" where
  "hold_currency req =
     (if req_side req = OrderSideBuy then CurrencyUSD else base_currency (req_symbol req))"

lemma holdFunds_eq:
  "validateOrderRequest req = None \<Longrightarrow> holdFunds u req k = HoldFunds u (hold_currency req) k"
  by (auto simp: holdFunds_def hold_currency_def base_currency_def validateOrderRequest_def split: if_splits)

lemma insert_order_ok:
  assumes "order_row d r" "ord_id r \<notin> ord_id ` set (db_orders d)"
    and "pred_option stored (ord_price r)" "stored (ord_qty r)" "stored (ord_filled r)"
  shows "insert_order r d = Inr (d\<lparr>db_orders := db_orders d @ [r]\<rparr>)"
  using assms
  by (cases "ord_price r") (auto simp: insert_order_def order_row_def to_numeric_opt_def stored_def)

lemma CreateOrderRow_works:
  "w_faults w = [] \<Longrightarrow> insert_order r (w_db w) = Inr d \<Longrightarrow> CreateOrderRow r w = (Inr (), w\<lparr>w_db := d\<rparr>)"
  by (simp add: CreateOrderRow_def io_wrap_def)

lemma save_fill_works:
  "w_faults w = [] \<Longrightarrow> update_order (ord_id r) (ord_filled r) (ord_status r) (w_db w) = Inr d \<Longrightarrow>
   save_fill r w = (Inr (), w\<lparr>w_db := d\<rparr>)"
  by (simp add: save_fill_def io_bind_def io_wrap_def UpdateOrder_def)

lemma update_order_same:
  assumes "\<And>r'. r' \<in> set (db_orders d) \<Longrightarrow> ord_id r' = ord_id r \<Longrightarrow> r' = r" and "stored (ord_filled r)"
  shows "update_order (ord_id r) (ord_filled r) (ord_status r) d = Inr d"
proof -
  have "map (\<lambda>r'. if ord_id r' = ord_id r then r'\<lparr>ord_filled := ord_filled r, ord_status := ord_status r\<rparr> else r')
      (db_orders d) = db_orders d"
  proof (rule map_idI)
    fix x assume "x \<in> set (db_orders d)"
    then have "ord_id x = ord_id r \<Longrightarrow> x = r" by (rule assms(1))
    then show "(if ord_id x = ord_id r then x\<lparr>ord_filled := ord_filled r, ord_status := ord_status r\<rparr> else x) = x"
      by auto
  qed
  then show ?thesis using assms(2) by (simp add: update_order_def stored_def)
qed

lemma account_has_user: "db_wf d \<Longrightarrow> account_of d u c = Some a \<Longrightarrow> has_user d u"
  by (auto simp: db_wf_def account_of_def find_Some_iff)

text \<open>A request that passes the checks and whose funds are there becomes a stored order.\<close>

lemma CreateOrder_placed:
  assumes nf: "w_faults (os_world s) = []" and ok: "ledger_ok (w_db (os_world s))"
    and v: "validateOrderRequest req = None" and mp: "market_price req (os_quotes s) = Inr fp"
    and am: "calculateRequiredAmount req fp = Inr (Inr k)"
    and a: "account_of (w_db (os_world s)) u (hold_currency req) = Some a"
    and k: "stored k" "0 < k" "k \<le> acc_available a" "acc_hold a + k < 10 ^ 20"
    and side: "req_side req \<in> {''BUY'', ''SELL''}" "req_type req \<in> {''MARKET'', ''LIMIT''}"
    and st: "pred_option stored (req_price req)" "stored (req_qty req)"
    and fresh: "ev_order_id ev \<notin> ord_id ` set (db_orders (w_db (os_world s)))"
  obtains w2 where "CreateOrder ev u req s = fill_order ev (new_order ev u req) (s\<lparr>os_world := w2\<rparr>)"
    "w_faults w2 = []" "ledger_ok (w_db w2)"
    "db_orders (w_db w2) = db_orders (w_db (os_world s)) @ [new_order ev u req]"
    "balances (w_db w2) = (balances (w_db (os_world s)))
       (acc_id a \<mapsto> (acc_available a - k, acc_hold a + k))"
proof -
  let ?w = "os_world s" and ?r = "new_order ev u req"
  obtain as where h: "HoldFunds u (hold_currency req) k ?w = (Inr (), ?w\<lparr>w_db := (w_db ?w)\<lparr>db_accounts := as\<rparr>\<rparr>)"
    and ok1: "ledger_ok ((w_db ?w)\<lparr>db_accounts := as\<rparr>)"
    and b1: "balances ((w_db ?w)\<lparr>db_accounts := as\<rparr>) =
      (balances (w_db ?w))(acc_id a \<mapsto> (acc_available a - k, acc_hold a + k))"
    using hold_works [OF nf ok a k] by blast
  define d where "d = (w_db ?w)\<lparr>db_accounts := as\<rparr>"
  have "has_user d u"
    using account_has_user [OF _ a] ok by (simp add: d_def ledger_ok_def)
  moreover have "req_symbol req \<in> {''BTC-USD'', ''ETH-USD''}"
    using v by (auto simp: validateOrderRequest_def split: if_splits)
  ultimately have row: "order_row d ?r" using side by (simp add: order_row_def new_order_def)
  have ins: "insert_order ?r d = Inr (d\<lparr>db_orders := db_orders d @ [?r]\<rparr>)"
    using row fresh st by (intro insert_order_ok) (simp_all add: new_order_def d_def stored_iff)
  let ?w1 = "?w\<lparr>w_db := d\<rparr>" and ?w2 = "?w\<lparr>w_db := d\<lparr>db_orders := db_orders d @ [?r]\<rparr>\<rparr>"
  have "CreateOrderRow ?r ?w1 = (Inr (), ?w2)"
    using CreateOrderRow_works [of ?w1 ?r] ins nf by simp
  then have run: "CreateOrder ev u req s = fill_order ev ?r (s\<lparr>os_world := ?w2\<rparr>)"
    using v mp am h by (simp add: CreateOrder_def holdFunds_eq Let_def io_wrap_def d_def)
  have ap: "db_apply 0 (InsertOrder ?r) d = Inr (w_db ?w2)" using ins by simp
  have "balances (w_db ?w2) = balances d" using order_write_frame(1) [OF ap] by blast
  moreover have "ledger_ok (w_db ?w2)"
    using order_write_trading [of 0 "InsertOrder ?r" ?w1 ?w2 ?r] ap ok1 by (simp add: trading_def d_def)
  ultimately show thesis using that [OF run] nf b1 by (simp add: d_def)
qed

text \<open>The totals of the settlement loop count some of the trades.\<close>

lemma process_trades_total:
  assumes "\<forall>t \<in> set ts. 0 < tr_qty t"
  shows "fst tot \<le> fst (fst (process_trades ev n ts tot w)) \<and>
    fst (fst (process_trades ev n ts tot w)) \<le> fst tot + trade_total ts"
  using assms
proof (induction ts arbitrary: n tot w)
  case (Cons t ts)
  have pos: "0 < tr_qty t" "0 \<le> trade_total ts"
    using Cons.prems unfolding trade_total_def by (simp, intro sum_list_nonneg) (auto intro: less_imp_le)
  have ih: "fst tot' \<le> fst (fst (process_trades ev n' ts tot' w')) \<and>
      fst (fst (process_trades ev n' ts tot' w')) \<le> fst tot' + trade_total ts" for n' tot' w'
    using Cons by simp
  show ?case
  proof (cases "processTrade (ev_journal1 ev n) (ev_journal2 ev n) t w")
    case (Pair r w')
    show ?thesis
    proof (cases r)
      case (Inl e)
      then show ?thesis using Pair pos ih [of tot "Suc n" w'] by simp
    next
      case (Inr x)
      then show ?thesis
        using Pair pos ih [of "(fst tot + tr_qty t, snd tot + tr_price t * tr_qty t)" "Suc n" w'] by simp
    qed
  qed
qed simp

section \<open>Loading the books\<close>

definition active_orders :: "db \<Rightarrow> symbol \<Rightarrow> order list" where
  "active_orders d sy = sort_key ord_created_at
     (filter (\<lambda>r. ord_symbol r = sy \<and> ord_status r \<in> {OrderStatusNew, OrderStatusPartiallyFilled}) (db_orders d))"

definition book_orders :: "omem \<Rightarrow> order_book \<Rightarrow> bool \<Rightarrow> string \<Rightarrow> book_order list" where
  "book_orders mem ob bid key = map (\<lambda>r. mem ! r) (ob_view ob bid key)"

definition queue_at :: "(decimal \<Rightarrow> string) \<Rightarrow> order list \<Rightarrow> bool \<Rightarrow> string \<Rightarrow> book_order list" where
  "queue_at str rs bid key = map convertToBookOrder
     (filter (\<lambda>r. (ord_side r = OrderSideBuy) = bid \<and> map_option str (ord_price r) = Some key) rs)"

lemma ob_view_range: "ob_wf str mem ob \<Longrightarrow> q \<in> set (ob_view ob bid key) \<Longrightarrow> q < length mem"
proof -
  assume wf: "ob_wf str mem ob" and q: "q \<in> set (ob_view ob bid key)"
  let ?bs = "if bid then ob_bids ob else ob_asks ob"
  have bs: "bs_wf str mem ?bs" "q \<in> set (bs_view ?bs key)"
    using wf q by (auto simp: ob_wf_def ob_view_def)
  obtain l where "l < length (bs_store ?bs)" "bs_view ?bs key = pl_orders (bs_store ?bs ! l)"
    using bs_view_level [OF bs] by blast
  then show "q < length mem" using bs_wfD(7) [OF bs(1), of l q] bs(2) by simp
qed

lemma book_orders_grow:
  "ob_wf str mem ob \<Longrightarrow> book_orders (mem @ xs) ob bid key = book_orders mem ob bid key"
  by (auto simp: book_orders_def nth_append dest: ob_view_range)

lemma load_book_queues:
  assumes "ob_wf str mem ob" and "\<forall>r \<in> set rs. ord_price r \<noteq> None"
  shows "\<exists>ob'. load_book str rs (mem, ob) = Inr (mem @ map convertToBookOrder rs, ob') \<and>
    ob_wf str (mem @ map convertToBookOrder rs) ob' \<and>
    (\<forall>bid key. book_orders (mem @ map convertToBookOrder rs) ob' bid key =
       book_orders mem ob bid key @ queue_at str rs bid key)"
  using assms
proof (induction rs arbitrary: mem ob)
  case (Cons r rs)
  let ?mem = "mem @ [convertToBookOrder r]"
  obtain p where p: "ord_price r = Some p" using Cons.prems(2) by auto
  have new: "?mem ! length mem = convertToBookOrder r" by simp
  have sel: "bo_price (?mem ! length mem) = Some p" "bo_side (?mem ! length mem) = ord_side r"
    using p by (simp_all add: convertToBookOrder_def)
  obtain ob1 where add: "ob_AddOrder str ?mem (length mem) ob = Inr ob1" "ob_wf str ?mem ob1"
    "\<forall>bid k. ob_view ob1 bid k =
        (if bid = (ord_side r = OrderSideBuy) \<and> k = str p then ob_view ob bid k @ [length mem]
         else ob_view ob bid k)"
    using book_add_appends [OF ob_wf_grow [OF Cons.prems(1)] _ sel(1)] sel(2) by auto
  have q1: "book_orders ?mem ob1 bid key = book_orders mem ob bid key @ queue_at str [r] bid key" for bid key
    using add(3) p book_orders_grow [OF Cons.prems(1), of "[convertToBookOrder r]" bid key]
    by (auto simp: book_orders_def queue_at_def)
  obtain ob' where "load_book str rs (?mem, ob1) = Inr (?mem @ map convertToBookOrder rs, ob')"
    "ob_wf str (?mem @ map convertToBookOrder rs) ob'"
    "\<forall>bid key. book_orders (?mem @ map convertToBookOrder rs) ob' bid key =
       book_orders ?mem ob1 bid key @ queue_at str rs bid key"
    using Cons.IH [OF add(2)] Cons.prems(2) by auto
  then show ?case using add(1) q1 by (auto simp: Let_def queue_at_def)
qed (simp add: queue_at_def)

lemma active_query:
  "w_faults w = [] \<Longrightarrow> GetActiveOrdersBySymbol sy w = (Inr (active_orders (w_db w) sy), w)"
  by (simp add: GetActiveOrdersBySymbol_def active_orders_def io_wrap_def)

lemma load_all_queues:
  assumes "w_faults (os_world s) = []" and "books_wf str s" and "distinct syms"
    and "\<forall>sy \<in> set syms. os_books s sy \<noteq> None \<and>
      (\<forall>r \<in> set (active_orders (w_db (os_world s)) sy). ord_price r \<noteq> None)"
  shows "\<exists>s' xs. loadOrdersIntoBooks str syms s = Returns (Inr ()) s' \<and> os_world s' = os_world s \<and>
    books_wf str s' \<and> os_mem s' = os_mem s @ xs \<and>
    (\<forall>sy. sy \<notin> set syms \<longrightarrow> os_books s' sy = os_books s sy) \<and>
    (\<forall>sy \<in> set syms. \<exists>ob ob'. os_books s sy = Some ob \<and> os_books s' sy = Some ob' \<and>
      (\<forall>bid key. book_orders (os_mem s') ob' bid key =
        book_orders (os_mem s) ob bid key @ queue_at str (active_orders (w_db (os_world s)) sy) bid key))"
  using assms
proof (induction syms arbitrary: s)
  case (Cons sy syms)
  let ?rows = "active_orders (w_db (os_world s)) sy"
  let ?mem = "os_mem s @ map convertToBookOrder ?rows"
  obtain ob where ob: "os_books s sy = Some ob" using Cons.prems(4) by auto
  have wf: "ob_wf str (os_mem s) ob" using Cons.prems(2) ob by (simp add: books_wf_def)
  obtain ob1 where ld: "load_book str ?rows (os_mem s, ob) = Inr (?mem, ob1)" "ob_wf str ?mem ob1"
    "\<forall>bid key. book_orders ?mem ob1 bid key = book_orders (os_mem s) ob bid key @ queue_at str ?rows bid key"
    using load_book_queues [OF wf, of ?rows] Cons.prems(4) by fastforce
  define s1 where "s1 = s\<lparr>os_mem := ?mem, os_books := (os_books s)(sy \<mapsto> ob1)\<rparr>"
  have bw1: "books_wf str s1"
    using Cons.prems(2) ld(2) by (auto simp: books_wf_def s1_def intro: ob_wf_grow)
  have others: "\<forall>sy' \<in> set syms. os_books s1 sy' = os_books s sy'"
    using Cons.prems(3) by (auto simp: s1_def)
  obtain s' xs where s': "loadOrdersIntoBooks str syms s1 = Returns (Inr ()) s'" "os_world s' = os_world s"
    "books_wf str s'" "os_mem s' = ?mem @ xs"
    "\<forall>sy. sy \<notin> set syms \<longrightarrow> os_books s' sy = os_books s1 sy"
    "\<forall>sy \<in> set syms. \<exists>ob ob'. os_books s1 sy = Some ob \<and> os_books s' sy = Some ob' \<and>
      (\<forall>bid key. book_orders (os_mem s') ob' bid key =
        book_orders ?mem ob bid key @ queue_at str (active_orders (w_db (os_world s)) sy) bid key)"
    using Cons.IH [of s1] Cons.prems bw1 others by (auto simp: s1_def)
  have run: "loadOrdersIntoBooks str (sy # syms) s = Returns (Inr ()) s'"
    using s'(1) ob ld(1) Cons.prems(1) by (simp add: active_query s1_def)
  have first: "os_books s' sy = Some ob1" "\<forall>bid key. book_orders (os_mem s') ob1 bid key =
      book_orders (os_mem s) ob bid key @ queue_at str ?rows bid key"
    using s'(4,5) Cons.prems(3) ld(3) book_orders_grow [OF ld(2), of xs] by (auto simp: s1_def)
  have rest: "\<exists>ob ob'. os_books s sy' = Some ob \<and> os_books s' sy' = Some ob' \<and>
      (\<forall>bid key. book_orders (os_mem s') ob' bid key =
        book_orders (os_mem s) ob bid key @ queue_at str (active_orders (w_db (os_world s)) sy') bid key)"
    if sy': "sy' \<in> set syms" for sy'
  proof -
    obtain ob2 ob' where "os_books s sy' = Some ob2" "os_books s' sy' = Some ob'"
      "\<forall>bid key. book_orders (os_mem s') ob' bid key =
        book_orders ?mem ob2 bid key @ queue_at str (active_orders (w_db (os_world s)) sy') bid key"
      using s'(6) sy' others by metis
    moreover have "book_orders ?mem ob2 bid key = book_orders (os_mem s) ob2 bid key" for bid key
      using book_orders_grow [of str "os_mem s" ob2] Cons.prems(2) \<open>os_books s sy' = Some ob2\<close>
      by (simp add: books_wf_def)
    ultimately show ?thesis by auto
  qed
  have "os_mem s' = os_mem s @ (map convertToBookOrder ?rows @ xs)" using s'(4) by simp
  moreover have "\<forall>sy'. sy' \<notin> set (sy # syms) \<longrightarrow> os_books s' sy' = os_books s sy'"
    using s'(5) by (auto simp: s1_def)
  ultimately show ?case using run s'(2,3) first rest ob by (intro exI [of _ s']) auto
qed simp

text \<open>An order without a price stops the load, wherever it is in the table.\<close>

lemma ob_AddOrder_priceless:
  "bo_price (mem ! r) = None \<Longrightarrow> ob_AddOrder str mem r ob = Inl NilDereference"
  by (simp add: ob_AddOrder_def bs_AddOrder_def)

lemma ob_AddOrder_priced:
  "bo_price (mem ! r) \<noteq> None \<Longrightarrow> \<exists>ob'. ob_AddOrder str mem r ob = Inr ob'"
  by (auto simp: ob_AddOrder_def bs_AddOrder_def Let_def split: option.split)

lemma load_book_priceless:
  "r \<in> set rs \<Longrightarrow> ord_price r = None \<Longrightarrow> load_book str rs (mem, ob) = Inl NilDereference"
proof (induction rs arbitrary: mem ob)
  case (Cons r' rs)
  let ?mem = "mem @ [convertToBookOrder r']"
  have price: "bo_price (?mem ! length mem) = ord_price r'" by (simp add: convertToBookOrder_def)
  show ?case
  proof (cases "ord_price r'")
    case None
    then show ?thesis using ob_AddOrder_priceless [of ?mem "length mem"] price by (simp add: Let_def)
  next
    case (Some p)
    then obtain ob' where "ob_AddOrder str ?mem (length mem) ob = Inr ob'"
      using ob_AddOrder_priced [of ?mem "length mem"] price by fastforce
    then show ?thesis using Cons Some by (auto simp: Let_def)
  qed
qed simp

lemma load_book_total:
  "\<forall>r \<in> set rs. ord_price r \<noteq> None \<Longrightarrow> \<exists>res. load_book str rs (mem, ob) = Inr res"
proof (induction rs arbitrary: mem ob)
  case (Cons r rs)
  let ?mem = "mem @ [convertToBookOrder r]"
  obtain ob' where "ob_AddOrder str ?mem (length mem) ob = Inr ob'"
    using ob_AddOrder_priced [of ?mem "length mem" str ob] Cons.prems by (auto simp: convertToBookOrder_def)
  then show ?case using Cons by (simp add: Let_def)
qed simp

lemma loadOrders_priceless:
  assumes "w_faults (os_world s) = []" and "\<forall>sy \<in> set syms. os_books s sy \<noteq> None"
    and "sy \<in> set syms" and "r \<in> set (active_orders (w_db (os_world s)) sy)" and "ord_price r = None"
  shows "\<exists>s'. loadOrdersIntoBooks str syms s = Panics NilDereference s'"
  using assms
proof (induction syms arbitrary: s)
  case (Cons sy' syms)
  let ?rows = "active_orders (w_db (os_world s)) sy'"
  obtain ob where ob: "os_books s sy' = Some ob" using Cons.prems(2) by auto
  show ?case
  proof (cases "load_book str ?rows (os_mem s, ob)")
    case (Inl q)
    then have "q = NilDereference"
      using load_book_priceless [of _ ?rows str "os_mem s" ob] load_book_total [of ?rows str "os_mem s" ob] by force
    then show ?thesis using ob Inl Cons.prems(1) by (simp add: active_query)
  next
    case (Inr res)
    obtain mem' ob' where res: "res = (mem', ob')" by (cases res)
    have "sy \<noteq> sy'"
      using Inr load_book_priceless [OF _ Cons.prems(5), of ?rows] Cons.prems(4) by auto
    then show ?thesis
      using Cons.IH [of "s\<lparr>os_mem := mem', os_books := (os_books s)(sy' \<mapsto> ob')\<rparr>"] Cons.prems ob Inr
      by (simp add: active_query res)
  qed
qed simp

lemma load_keeps_quotes:
  "outcome_all (\<lambda>s'. os_quotes s' = os_quotes s) (loadOrdersIntoBooks str syms s)"
proof (induction syms arbitrary: s)
  case (Cons sy syms)
  have step: "outcome_all (\<lambda>s'. os_quotes s' = os_quotes s) (loadOrdersIntoBooks str syms s1)"
    if "os_quotes s1 = os_quotes s" for s1 using Cons.IH [of s1] that by simp
  show ?case using step by (auto split: prod.split sum.split option.split)
qed simp

definition all_priced :: "db \<Rightarrow> bool" where
  "all_priced d \<longleftrightarrow> (\<forall>r \<in> set (active_orders d SymbolBTCUSD) \<union> set (active_orders d SymbolETHUSD). ord_price r \<noteq> None)"

text \<open>The service starts when every active order has a price, and panics otherwise.\<close>

lemma NewService_starts:
  assumes "w_faults w = []" and "set syms = {SymbolBTCUSD, SymbolETHUSD}" and "distinct syms"
    and "all_priced (w_db w)"
  shows "\<exists>s. NewService str syms w qs = Returns (Inr ()) s \<and> os_world s = w \<and> os_quotes s = qs \<and> books_wf str s \<and>
    (\<forall>sy \<in> {SymbolBTCUSD, SymbolETHUSD}. \<exists>ob. os_books s sy = Some ob \<and>
      (\<forall>bid key. book_orders (os_mem s) ob bid key = queue_at str (active_orders (w_db w) sy) bid key))"
proof -
  let ?s = "\<lparr>os_world = w, os_books = [SymbolBTCUSD \<mapsto> NewOrderBook SymbolBTCUSD,
      SymbolETHUSD \<mapsto> NewOrderBook SymbolETHUSD], os_mem = [], os_quotes = qs\<rparr>"
  have empty: "book_orders mem (NewOrderBook sy) bid key = []" for mem sy bid key
    by (simp add: book_orders_def ob_view_def bs_view_def NewOrderBook_def NewBookSide_def)
  have "books_wf str ?s" by (auto simp: books_wf_def)
  moreover have "\<forall>sy \<in> set syms. os_books ?s sy \<noteq> None \<and>
      (\<forall>r \<in> set (active_orders (w_db (os_world ?s)) sy). ord_price r \<noteq> None)"
    using assms(2,4) by (auto simp: all_priced_def)
  ultimately obtain s' where "loadOrdersIntoBooks str syms ?s = Returns (Inr ()) s'" "os_world s' = w"
    "books_wf str s'" "\<forall>sy \<in> set syms. \<exists>ob ob'. os_books ?s sy = Some ob \<and> os_books s' sy = Some ob' \<and>
      (\<forall>bid key. book_orders (os_mem s') ob' bid key =
        book_orders (os_mem ?s) ob bid key @ queue_at str (active_orders (w_db (os_world ?s)) sy) bid key)"
    using load_all_queues [of ?s str syms] assms(1,3) by auto
  moreover have "os_quotes s' = qs" if "loadOrdersIntoBooks str syms ?s = Returns (Inr ()) s'" for s'
    using load_keeps_quotes [of ?s str syms] that by simp
  moreover have "os_books ?s sy = Some ob \<Longrightarrow> book_orders (os_mem ?s) ob bid key = []" for sy ob bid key
    using empty by (auto split: if_splits)
  ultimately show ?thesis
    unfolding NewService_def assms(2) [symmetric] by (intro exI [of _ s']) fastforce
qed

lemma NewService_stops:
  assumes "w_faults w = []" "set syms = {SymbolBTCUSD, SymbolETHUSD}" "\<not> all_priced (w_db w)"
  shows "\<exists>os. NewService str syms w qs = Panics NilDereference os"
proof -
  obtain sy r where "sy \<in> set syms" "r \<in> set (active_orders (w_db w) sy)" "ord_price r = None"
    using assms(2,3) by (auto simp: all_priced_def)
  then show ?thesis
    unfolding NewService_def by (intro loadOrders_priceless) (use assms(1,2) in auto)
qed

section \<open>Properties\<close>


text \<open>
  C23: settlement is not atomic: when the taker of a buy can pay but the seller's available base
  currency (the held part does not count) falls short, the USD moves for good and the trade is
  reported as failed.
\<close>

theorem buyer_pays_for_nothing:
  assumes nf: "w_faults w = []" and ok: "ledger_ok (w_db w)" and diff: "tr_taker t \<noteq> tr_maker t"
    and side: "tr_side t = OrderSideBuy"
    and bu: "account_of (w_db w) (tr_buyer t) CurrencyUSD = Some bu"
    and su: "account_of (w_db w) (tr_seller t) CurrencyUSD = Some su"
    and bb: "account_of (w_db w) (tr_buyer t) (base_currency (tr_symbol t)) = Some bb"
    and sb: "account_of (w_db w) (tr_seller t) (base_currency (tr_symbol t)) = Some sb"
    and v: "stored (tr_value t)" "0 < tr_value t" "tr_value t \<le> acc_available bu"
      "acc_available su + tr_value t < 10 ^ 20"
    and q: "0 < tr_qty t" "acc_available sb < tr_qty t"
  shows "\<exists>e w'. processTrade j1 j2 t w = (Inl e, w') \<and>
    balances (w_db w') = (balances (w_db w))
      (acc_id bu \<mapsto> (acc_available bu - tr_value t, acc_hold bu),
       acc_id su \<mapsto> (acc_available su + tr_value t, acc_hold su))"
proof -
  have wf: "db_wf (w_db w)" using ok by (simp add: ledger_ok_def)
  have ne: "acc_id bu \<noteq> acc_id su" "acc_id bu \<noteq> acc_id sb" "acc_id bu \<noteq> acc_id bb"
      "acc_id su \<noteq> acc_id sb" "acc_id su \<noteq> acc_id bb"
    using account_of_distinct [OF wf bu su] account_of_distinct [OF wf bu sb] account_of_distinct [OF wf bu bb]
      account_of_distinct [OF wf su sb] account_of_distinct [OF wf su bb] buyer_seller [OF diff] by simp_all
  note bal = account_of_wf(4) [OF wf bu] account_of_wf(4) [OF wf su]
    account_of_wf(4) [OF wf bb] account_of_wf(4) [OF wf sb]
  obtain w1 where w1: "usd_leg j1 t bu su w = (Inr (), w1)" "w_faults w1 = []"
    "balances (w_db w1) = (balances (w_db w))(acc_id bu \<mapsto> (acc_available bu - tr_value t, acc_hold bu),
       acc_id su \<mapsto> (acc_available su + tr_value t, acc_hold su))"
    unfolding usd_leg_def using transfer_leg [OF nf ok ne(1) bal(1,2) v] by blast
  have "balances (w_db w1) (acc_id sb) = Some (acc_available sb, acc_hold sb)"
    "balances (w_db w1) (acc_id bb) = Some (acc_available bb, acc_hold bb)" using w1(3) bal ne by simp_all
  then obtain e where w2: "base_leg j2 t sb bb w1 = (Inl e, w1)"
    unfolding base_leg_def using uncovered_leg [OF w1(2) _ _ q] by blast
  then show ?thesis
    using side w1(1,3) w2 by (simp add: processTrade_legs [OF nf bu su bb sb] Let_def io_bind_def io_wrap_def)
qed

text \<open>
  C24: a user who trades with themselves is credited both sides of the trade and debited neither.
\<close>

theorem self_trade_mints:
  assumes nf: "w_faults w = []" and ok: "ledger_ok (w_db w)" and same: "tr_taker t = tr_maker t"
    and u: "account_of (w_db w) (tr_taker t) CurrencyUSD = Some u"
    and b: "account_of (w_db w) (tr_taker t) (base_currency (tr_symbol t)) = Some b"
    and v: "stored (tr_value t)" "0 < tr_value t" "tr_value t \<le> acc_available u"
      "acc_available u + tr_value t < 10 ^ 20"
    and q: "stored (tr_qty t)" "0 < tr_qty t" "tr_qty t \<le> acc_available b"
      "acc_available b + tr_qty t < 10 ^ 20"
  shows "\<exists>w'. processTrade j1 j2 t w = (Inr (), w') \<and>
    balances (w_db w') = (balances (w_db w))
      (acc_id u \<mapsto> (acc_available u + tr_value t, acc_hold u),
       acc_id b \<mapsto> (acc_available b + tr_qty t, acc_hold b))"
proof -
  have wf: "db_wf (w_db w)" using ok by (simp add: ledger_ok_def)
  have ne: "acc_id u \<noteq> acc_id b" using account_of_distinct [OF wf u b] by simp
  have who: "tr_buyer t = tr_taker t" "tr_seller t = tr_taker t"
    using same by (simp_all add: tr_buyer_def tr_seller_def)
  note legs = processTrade_legs [OF nf, of t u u b b j1 j2, unfolded who, OF u u b b]
  note bal = account_of_wf(4) [OF wf u] account_of_wf(4) [OF wf b]
  show ?thesis
  proof (cases "tr_side t = OrderSideBuy")
    case True
    obtain w1 where w1: "usd_leg j1 t u u w = (Inr (), w1)" "w_faults w1 = []" "ledger_ok (w_db w1)"
      "balances (w_db w1) = (balances (w_db w))(acc_id u \<mapsto> (acc_available u + tr_value t, acc_hold u))"
      unfolding usd_leg_def using self_leg [OF nf ok bal(1) v] by blast
    have "balances (w_db w1) (acc_id b) = Some (acc_available b, acc_hold b)" using w1(4) bal ne by simp
    then obtain w2 where w2: "base_leg j2 t b b w1 = (Inr (), w2)"
      "balances (w_db w2) = (balances (w_db w1))(acc_id b \<mapsto> (acc_available b + tr_qty t, acc_hold b))"
      unfolding base_leg_def using self_leg [OF w1(2,3) _ q] by blast
    show ?thesis using True w1(1) w2(1) w2(2) w1(4) by (simp add: legs Let_def io_bind_def io_wrap_def)
  next
    case False
    obtain w1 where w1: "base_leg j1 t b b w = (Inr (), w1)" "w_faults w1 = []" "ledger_ok (w_db w1)"
      "balances (w_db w1) = (balances (w_db w))(acc_id b \<mapsto> (acc_available b + tr_qty t, acc_hold b))"
      unfolding base_leg_def using self_leg [OF nf ok bal(2) q] by blast
    have "balances (w_db w1) (acc_id u) = Some (acc_available u, acc_hold u)" using w1(4) bal ne by simp
    then obtain w2 where w2: "usd_leg j2 t u u w1 = (Inr (), w2)"
      "balances (w_db w2) = (balances (w_db w1))(acc_id u \<mapsto> (acc_available u + tr_value t, acc_hold u))"
      unfolding usd_leg_def using self_leg [OF w1(2,3) _ v] by blast
    show ?thesis using False ne w1(1) w2(1) w2(2) w1(4)
      by (simp add: legs Let_def io_bind_def io_wrap_def fun_upd_twist [OF ne])
  qed
qed

text \<open>
  Whatever a new order does, fail, panic or trade, and whatever the driver does, the schema,
  the non-negative balances and the zero-sum journals are kept, every book stays well formed, and
  no account's hold shrinks.
\<close>

theorem create_order_keeps_books:
  assumes "books_wf (ev_str ev) s" and "ledger_ok (w_db (os_world s))"
  shows "outcome_all (\<lambda>s'. ledger_ok (w_db (os_world s')) \<and> books_wf (ev_str ev) s' \<and>
      holds_kept (w_db (os_world s)) (w_db (os_world s'))) (CreateOrder ev u req s)"
  using CreateOrder_ok [OF assms(1), of u req] assms(2)
  by (cases "CreateOrder ev u req s") (auto simp: step_ok_def trading_def)

lemma CreateOrder_rests:
  assumes nf: "w_faults (os_world s) = []" and ok: "ledger_ok (w_db (os_world s))"
    and bw: "books_wf (ev_str ev) s" and ob: "os_books s (req_symbol req) = Some ob"
    and limit: "req_type req = OrderTypeLimit" and side: "req_side req \<in> {OrderSideBuy, OrderSideSell}"
    and sy: "req_symbol req \<in> {SymbolBTCUSD, SymbolETHUSD}"
    and p: "req_price req = Some p" "0 < p" "stored p" and q: "0 < req_qty req" "stored (req_qty req)"
    and k: "k = (if req_side req = OrderSideBuy then p * req_qty req else req_qty req)"
    and a: "account_of (w_db (os_world s)) u (hold_currency req) = Some a"
    and cov: "stored k" "k \<le> acc_available a" "acc_hold a + k < 10 ^ 20"
    and fresh: "ev_order_id ev \<notin> ord_id ` set (db_orders (w_db (os_world s)))"
    and nc: "\<forall>l. \<not> crosses (convertToBookOrder (new_order ev u req)) ob l"
  shows "\<exists>s' ob'. CreateOrder ev u req s = Returns (Inr \<lparr>resp_order_id = ev_order_id ev,
        resp_status = OrderStatusNew, resp_filled = 0, resp_avg_price = None\<rparr>) s' \<and>
    db_orders (w_db (os_world s')) = db_orders (w_db (os_world s)) @ [new_order ev u req] \<and>
    balances (w_db (os_world s')) = (balances (w_db (os_world s)))
      (acc_id a \<mapsto> (acc_available a - k, acc_hold a + k)) \<and>
    os_books s' = (os_books s)(req_symbol req \<mapsto> ob') \<and>
    os_mem s' = os_mem s @ [convertToBookOrder (new_order ev u req)] \<and>
    (\<forall>bid key. ob_view ob' bid key =
       (if bid = (req_side req = OrderSideBuy) \<and> key = ev_str ev p
        then ob_view ob bid key @ [length (os_mem s)] else ob_view ob bid key))"
proof -
  let ?r = "new_order ev u req" and ?b = "convertToBookOrder (new_order ev u req)"
  have v: "validateOrderRequest req = None" using q p sy by (auto simp: validateOrderRequest_def)
  have mp: "market_price req (os_quotes s) = Inr None" using limit by (simp add: market_price_def)
  have am: "calculateRequiredAmount req None = Inr (Inr k)"
    using limit p k by (simp add: calculateRequiredAmount_def Let_def)
  have kpos: "0 < k" using k p q by simp
  obtain w2 where w2: "CreateOrder ev u req s = fill_order ev ?r (s\<lparr>os_world := w2\<rparr>)"
    "w_faults w2 = []" "ledger_ok (w_db w2)"
    "db_orders (w_db w2) = db_orders (w_db (os_world s)) @ [?r]"
    "balances (w_db w2) = (balances (w_db (os_world s)))(acc_id a \<mapsto> (acc_available a - k, acc_hold a + k))"
    using CreateOrder_placed [OF nf ok v mp am a cov(1) kpos cov(2,3) _ _ _ q(2) fresh] side limit p
    by auto
  have fs: "final_status ?b = ?b" using q by (simp add: final_status_def convertToBookOrder_def new_order_def)
  have fo: "filled_order ?r 0 = ?r" using q by (simp add: filled_order_def new_order_def)
  have m: "MatchOrder (ev_trade_id ev) (ev_trade_now ev) (os_mem s) ?b ob =
     Some \<lparr>mr_panic = None, mr_trades = [], mr_order = ?b, mr_mem = os_mem s, mr_book = ob\<rparr>"
    using MatchOrder_no_cross [of ?b ob] nc fs by simp
  have "update_order (ord_id ?r) (ord_filled ?r) (ord_status ?r) (w_db w2) = Inr (w_db w2)"
    using fresh w2(4) by (intro update_order_same) (auto simp: new_order_def stored_iff image_iff)
  then have sf: "save_fill ?r w2 = (Inr (), w2)" using save_fill_works [OF w2(2), of ?r] by simp
  have bp: "bo_price ((os_mem s @ [?b]) ! length (os_mem s)) = Some p"
      "bo_side ((os_mem s @ [?b]) ! length (os_mem s)) = req_side req"
    using p by (simp_all add: convertToBookOrder_def new_order_def)
  have "ob_wf (ev_str ev) (os_mem s @ [?b]) ob" using bw ob by (auto simp: books_wf_def intro: ob_wf_grow)
  from book_add_appends [OF this _ bp(1)] obtain ob' where
    add: "ob_AddOrder (ev_str ev) (os_mem s @ [?b]) (length (os_mem s)) ob = Inr ob'"
      "\<forall>bid key. ob_view ob' bid key =
         (if bid = (req_side req = OrderSideBuy) \<and> key = ev_str ev p
          then ob_view ob bid key @ [length (os_mem s)] else ob_view ob bid key)"
    using bp(2) by auto
  have sel: "ord_symbol ?r = req_symbol req" "ord_status ?r = OrderStatusNew" "ord_id ?r = ev_order_id ev"
    by (simp_all add: new_order_def)
  let ?s' = "s\<lparr>os_world := w2, os_mem := os_mem s @ [?b], os_books := (os_books s)(req_symbol req \<mapsto> ob')\<rparr>"
  have "CreateOrder ev u req s = Returns (Inr \<lparr>resp_order_id = ev_order_id ev,
        resp_status = OrderStatusNew, resp_filled = 0, resp_avg_price = None\<rparr>) ?s'"
    unfolding w2(1) fill_order_def using ob m sf add(1) by (simp add: sel Let_def fo)
  then show ?thesis using w2(4,5) add(2) by (intro exI [of _ ?s'] exI [of _ ob']) simp
qed

text \<open>
  C7: a limit order with covered funds that no resting order may trade with is accepted as
  \<open>NEW\<close> and unfilled: its row is appended to the table, its funds move from available to hold, and
  it joins the end of the queue of its side and price, with every other queue as it was.
\<close>

theorem limit_order_rests:
  assumes nf: "w_faults (os_world s) = []" and ok: "ledger_ok (w_db (os_world s))"
    and bw: "books_wf (ev_str ev) s" and ob: "os_books s (req_symbol req) = Some ob"
    and limit: "req_type req = OrderTypeLimit" and side: "req_side req \<in> {OrderSideBuy, OrderSideSell}"
    and sy: "req_symbol req \<in> {SymbolBTCUSD, SymbolETHUSD}"
    and p: "req_price req = Some p" "0 < p" "stored p" and q: "0 < req_qty req" "stored (req_qty req)"
    and k: "k = (if req_side req = OrderSideBuy then p * req_qty req else req_qty req)"
    and a: "account_of (w_db (os_world s)) u (hold_currency req) = Some a"
    and cov: "stored k" "k \<le> acc_available a" "acc_hold a + k < 10 ^ 20"
    and fresh: "ev_order_id ev \<notin> ord_id ` set (db_orders (w_db (os_world s)))"
    and nc: "\<forall>l. \<not> crosses (convertToBookOrder (new_order ev u req)) ob l"
  shows "\<exists>s' ob'. CreateOrder ev u req s = Returns (Inr \<lparr>resp_order_id = ev_order_id ev,
        resp_status = OrderStatusNew, resp_filled = 0, resp_avg_price = None\<rparr>) s' \<and>
    db_orders (w_db (os_world s')) = db_orders (w_db (os_world s)) @ [new_order ev u req] \<and>
    balances (w_db (os_world s')) = (balances (w_db (os_world s)))
      (acc_id a \<mapsto> (acc_available a - k, acc_hold a + k)) \<and>
    os_books s' = (os_books s)(req_symbol req \<mapsto> ob') \<and>
    os_mem s' = os_mem s @ [convertToBookOrder (new_order ev u req)] \<and>
    (\<forall>bid key. ob_view ob' bid key =
       (if bid = (req_side req = OrderSideBuy) \<and> key = ev_str ev p
        then ob_view ob bid key @ [length (os_mem s)] else ob_view ob bid key))"
  by (rule CreateOrder_rests [OF nf ok bw ob limit side sy p q k a cov fresh nc])


text \<open>
  A limit order whose \<open>side\<close> is neither \<open>BUY\<close> nor \<open>SELL\<close> passes the checks and holds the user's
  base currency before the database rejects the row: the call fails and the funds stay on hold.
\<close>

theorem unknown_side_loses_funds:
  assumes nf: "w_faults (os_world s) = []" and ok: "ledger_ok (w_db (os_world s))"
    and side: "req_side req \<notin> {OrderSideBuy, OrderSideSell}" and limit: "req_type req = OrderTypeLimit"
    and sy: "req_symbol req \<in> {SymbolBTCUSD, SymbolETHUSD}"
    and p: "req_price req = Some p" "0 < p" and q: "0 < req_qty req" "stored (req_qty req)"
    and a: "account_of (w_db (os_world s)) u (base_currency (req_symbol req)) = Some a"
    and cov: "req_qty req \<le> acc_available a" "acc_hold a + req_qty req < 10 ^ 20"
  shows "\<exists>e s'. CreateOrder ev u req s = Returns (Inl e) s' \<and>
    balances (w_db (os_world s')) = (balances (w_db (os_world s)))
      (acc_id a \<mapsto> (acc_available a - req_qty req, acc_hold a + req_qty req))"
proof -
  have v: "validateOrderRequest req = None" using q p sy by (auto simp: validateOrderRequest_def)
  have c: "hold_currency req = base_currency (req_symbol req)" using side by (simp add: hold_currency_def)
  obtain as where h: "HoldFunds u (base_currency (req_symbol req)) (req_qty req) (os_world s) =
      (Inr (), (os_world s)\<lparr>w_db := (w_db (os_world s))\<lparr>db_accounts := as\<rparr>\<rparr>)"
    and b: "balances ((w_db (os_world s))\<lparr>db_accounts := as\<rparr>) =
      (balances (w_db (os_world s)))(acc_id a \<mapsto> (acc_available a - req_qty req, acc_hold a + req_qty req))"
    using hold_works [OF nf ok a q(2,1) cov] by blast
  let ?w1 = "(os_world s)\<lparr>w_db := (w_db (os_world s))\<lparr>db_accounts := as\<rparr>\<rparr>"
  have "insert_order (new_order ev u req) (w_db ?w1) = Inl InvalidEnum"
    using side by (simp add: insert_order_def new_order_def)
  then have row: "CreateOrderRow (new_order ev u req) ?w1 =
      (Inl (ErrorfWrap ''failed to create order'' InvalidEnum), ?w1)"
    using nf by (simp add: CreateOrderRow_def io_wrap_def)
  have "market_price req (os_quotes s) = Inr None"
      "calculateRequiredAmount req None = Inr (Inr (req_qty req))"
    using limit side p by (simp_all add: market_price_def calculateRequiredAmount_def Let_def)
  then show ?thesis
    using v h row b by (simp add: CreateOrder_def holdFunds_eq c Let_def io_wrap_def)
qed

text \<open>
  C25: a market order without a price that finds nothing to trade with panics when it is put to rest,
  after its funds were held and its row was stored as \<open>NEW\<close>. A restart does not help: from then on
  \<open>NewService\<close> panics while it loads the books from the table, in whatever order it visits the symbols,
  and the process cannot be started again.
\<close>

theorem resting_market_order_panics:
  assumes nf: "w_faults (os_world s) = []" and ok: "ledger_ok (w_db (os_world s))"
    and ob: "os_books s (req_symbol req) = Some ob"
    and market: "req_type req = OrderTypeMarket" "req_price req = None"
    and side: "req_side req \<in> {OrderSideBuy, OrderSideSell}"
    and sy: "req_symbol req \<in> {SymbolBTCUSD, SymbolETHUSD}"
    and quote: "GetQuote (req_symbol req) (os_quotes s) = Inr qt"
    and q: "0 < req_qty req" "stored (req_qty req)"
    and k: "k = (if req_side req = OrderSideBuy then q_ask qt * req_qty req else req_qty req)"
    and a: "account_of (w_db (os_world s)) u (hold_currency req) = Some a"
    and cov: "stored k" "0 < k" "k \<le> acc_available a" "acc_hold a + k < 10 ^ 20"
    and fresh: "ev_order_id ev \<notin> ord_id ` set (db_orders (w_db (os_world s)))"
    and nc: "\<forall>l. \<not> crosses (convertToBookOrder (new_order ev u req)) ob l"
  shows "\<exists>s'. CreateOrder ev u req s = Panics NilDereference s' \<and>
    db_orders (w_db (os_world s')) = db_orders (w_db (os_world s)) @ [new_order ev u req] \<and>
    balances (w_db (os_world s')) = (balances (w_db (os_world s)))
      (acc_id a \<mapsto> (acc_available a - k, acc_hold a + k)) \<and>
    (\<forall>str syms qs. set syms = {SymbolBTCUSD, SymbolETHUSD} \<longrightarrow>
      (\<exists>s''. NewService str syms ((os_world s')\<lparr>w_faults := []\<rparr>) qs = Panics NilDereference s''))"
proof -
  let ?r = "new_order ev u req" and ?b = "convertToBookOrder (new_order ev u req)"
  let ?fp = "Some (if req_side req = OrderSideBuy then q_ask qt else q_bid qt)"
  have v: "validateOrderRequest req = None" using q sy market by (auto simp: validateOrderRequest_def)
  have mp: "market_price req (os_quotes s) = Inr ?fp" using market quote by (simp add: market_price_def)
  have am: "calculateRequiredAmount req ?fp = Inr (Inr k)"
    using market k by (simp add: calculateRequiredAmount_def Let_def)
  obtain w2 where w2: "CreateOrder ev u req s = fill_order ev ?r (s\<lparr>os_world := w2\<rparr>)"
    "w_faults w2 = []"
    "db_orders (w_db w2) = db_orders (w_db (os_world s)) @ [?r]"
    "balances (w_db w2) = (balances (w_db (os_world s)))(acc_id a \<mapsto> (acc_available a - k, acc_hold a + k))"
    using CreateOrder_placed [OF nf ok v mp am a cov _ _ _ q(2) fresh] side market by auto
  have fs: "final_status ?b = ?b" using q by (simp add: final_status_def convertToBookOrder_def new_order_def)
  have fo: "filled_order ?r 0 = ?r" using q by (simp add: filled_order_def new_order_def)
  have m: "MatchOrder (ev_trade_id ev) (ev_trade_now ev) (os_mem s) ?b ob =
     Some \<lparr>mr_panic = None, mr_trades = [], mr_order = ?b, mr_mem = os_mem s, mr_book = ob\<rparr>"
    using MatchOrder_no_cross [of ?b ob] nc fs by simp
  have "update_order (ord_id ?r) (ord_filled ?r) (ord_status ?r) (w_db w2) = Inr (w_db w2)"
    using fresh w2(3) by (intro update_order_same) (auto simp: new_order_def stored_iff image_iff)
  then have sf: "save_fill ?r w2 = (Inr (), w2)" using save_fill_works [OF w2(2), of ?r] by simp
  have "bo_price ?b = None" using market by (simp add: convertToBookOrder_def new_order_def)
  then have add: "ob_AddOrder (ev_str ev) (os_mem s @ [?b]) (length (os_mem s)) ob = Inl NilDereference"
    by (simp add: ob_AddOrder_def bs_AddOrder_def)
  have sel: "ord_symbol ?r = req_symbol req" "ord_status ?r = OrderStatusNew"
    by (simp_all add: new_order_def)
  have "\<exists>s'. CreateOrder ev u req s = Panics NilDereference s' \<and> os_world s' = w2"
    unfolding w2(1) fill_order_def using ob m sf add by (simp add: sel Let_def fo)
  then obtain s' where s': "CreateOrder ev u req s = Panics NilDereference s'" "os_world s' = w2" by blast
  have "?r \<in> set (active_orders (w_db w2) (req_symbol req))" "ord_price ?r = None"
    using w2(3) market(2) by (auto simp: active_orders_def new_order_def)
  then have "\<exists>s''. NewService str syms (w2\<lparr>w_faults := []\<rparr>) qs = Panics NilDereference s''"
    if "set syms = {SymbolBTCUSD, SymbolETHUSD}" for str syms qs
    unfolding NewService_def by (intro loadOrders_priceless) (use sy that in auto)
  then show ?thesis using s' w2(3,4) by auto
qed



section \<open>The properties on sample states\<close>

definition sample_trade :: "uuid \<Rightarrow> decimal \<Rightarrow> trade" where
  "sample_trade maker q =
     \<lparr>tr_id = 500, tr_symbol = SymbolBTCUSD, tr_side = OrderSideBuy, tr_price = 100, tr_qty = q,
      tr_taker = 1, tr_maker = maker, tr_created_at = 0\<rparr>"

lemma sample_trade_sel [simp]:
  "tr_taker (sample_trade m q) = 1" "tr_maker (sample_trade m q) = m" "tr_qty (sample_trade m q) = q"
  "tr_value (sample_trade m q) = 100 * q" "tr_buyer (sample_trade m q) = 1" "tr_seller (sample_trade m q) = m"
  "base_currency (tr_symbol (sample_trade m q)) = CurrencyBTC" "tr_side (sample_trade m q) = ''BUY''"
  by (simp_all add: sample_trade_def tr_value_def tr_buyer_def tr_seller_def base_currency_def)


lemma buyer_pays_witness:
  "\<exists>e w'. processTrade 90 91 (sample_trade 2 4) sample_world = (Inl e, w') \<and>
     balances (w_db w') = (balances sample_db)(11 \<mapsto> (600, 0), 21 \<mapsto> (400, 0))"
  using buyer_pays_for_nothing [of sample_world "sample_trade 2 4" "sample_account 11 1 CurrencyUSD 1000 0"
      "sample_account 21 2 CurrencyUSD 0 0" "sample_account 12 1 CurrencyBTC 1 0"
      "sample_account 22 2 CurrencyBTC 3 2" 90 91] sample_db_ok
  by (auto simp: sample_account_of)

lemma self_trade_witness:
  "\<exists>w'. processTrade 90 91 (sample_trade 1 1) sample_world = (Inr (), w') \<and>
     balances (w_db w') = (balances sample_db)(11 \<mapsto> (1100, 0), 12 \<mapsto> (2, 0))"
  using self_trade_mints [of sample_world "sample_trade 1 1" "sample_account 11 1 CurrencyUSD 1000 0"
      "sample_account 12 1 CurrencyBTC 1 0" 90 91] sample_db_ok
  by (auto simp: sample_account_of)

definition sample_env :: env where
  "sample_env = \<lparr>ev_order_id = 600, ev_now = 8, ev_trade_id = sample_ids, ev_trade_now = (\<lambda>_. 8),
     ev_journal1 = (\<lambda>n. 700 + of_nat n), ev_journal2 = (\<lambda>n. 800 + of_nat n), ev_str = sample_str,
     ev_div = (/)\<rparr>"

lemma sample_env_sel [simp]: "ev_order_id sample_env = 600" "ev_str sample_env = sample_str"
  by (simp_all add: sample_env_def)

text \<open>The Bitcoin book of the sample orders, an empty Ether book, and a quote for Bitcoin.\<close>

definition sample_state :: ostate where
  "sample_state = \<lparr>os_world = sample_world,
     os_books = [SymbolBTCUSD \<mapsto> sample_book, SymbolETHUSD \<mapsto> NewOrderBook SymbolETHUSD],
     os_mem = sample_mem,
     os_quotes = NewQuotesService\<lparr>qs_quotes := [SymbolBTCUSD \<mapsto> mock_quote SymbolBTCUSD 0 500,
                                               SymbolETHUSD \<mapsto> mock_quote SymbolETHUSD 0 500]\<rparr>\<rparr>"

lemma sample_state_sel [simp]:
  "os_world sample_state = sample_world" "os_mem sample_state = sample_mem"
  "os_books sample_state ''BTC-USD'' = Some sample_book"
  "os_books sample_state ''ETH-USD'' = Some (NewOrderBook ''ETH-USD'')"
  by (simp_all add: sample_state_def)

lemma sample_state_wf: "books_wf sample_str sample_state"
  using sample_book_wf by (auto simp: books_wf_def sample_state_def)

definition sample_req :: "symbol \<Rightarrow> order_side \<Rightarrow> order_type \<Rightarrow> decimal option \<Rightarrow> decimal \<Rightarrow> create_order_request" where
  "sample_req sy sd ty p q = \<lparr>req_symbol = sy, req_side = sd, req_type = ty, req_price = p, req_qty = q\<rparr>"

lemma sample_req_sel [simp]:
  "req_symbol (sample_req sy sd ty p q) = sy" "req_side (sample_req sy sd ty p q) = sd"
  "req_type (sample_req sy sd ty p q) = ty" "req_price (sample_req sy sd ty p q) = p"
  "req_qty (sample_req sy sd ty p q) = q"
  by (simp_all add: sample_req_def)

lemma create_keeps_books_witness:
  "outcome_all (\<lambda>s'. ledger_ok (w_db (os_world s')) \<and> books_wf sample_str s')
     (CreateOrder sample_env 1 (sample_req SymbolBTCUSD OrderSideBuy OrderTypeLimit (Some 105) 2) sample_state)"
  using create_order_keeps_books [of sample_env sample_state 1
      "sample_req SymbolBTCUSD OrderSideBuy OrderTypeLimit (Some 105) 2"] sample_state_wf sample_db_ok
  by (cases "CreateOrder sample_env 1 (sample_req SymbolBTCUSD OrderSideBuy OrderTypeLimit (Some 105) 2)
      sample_state") auto

text \<open>A buy of 2 at 50, below the best ask of 100.\<close>

definition low_bid :: create_order_request where
  "low_bid = sample_req SymbolBTCUSD OrderSideBuy OrderTypeLimit (Some 50) 2"

lemma low_bid_crosses_none: "\<not> crosses (convertToBookOrder (new_order sample_env 1 low_bid)) sample_book l"
  by (cases "l = 0") (auto simp: crosses_def convertToBookOrder_def new_order_def low_bid_def opposite_def
      price_blocks_def bs_GetBestLevel_def ph_top_def ph_Len_def sample_book_def price_at_def)

lemma low_bid_hyps:
  "w_faults (os_world sample_state) = []" "ledger_ok (w_db (os_world sample_state))"
  "books_wf (ev_str sample_env) sample_state" "os_books sample_state (req_symbol low_bid) = Some sample_book"
  "req_type low_bid = OrderTypeLimit" "req_side low_bid \<in> {OrderSideBuy, OrderSideSell}"
  "req_symbol low_bid \<in> {SymbolBTCUSD, SymbolETHUSD}"
  "req_price low_bid = Some 50" "(0::decimal) < 50" "stored 50" "0 < req_qty low_bid" "stored (req_qty low_bid)"
  "100 = (if req_side low_bid = OrderSideBuy then 50 * req_qty low_bid else req_qty low_bid)"
  "account_of (w_db (os_world sample_state)) 1 (hold_currency low_bid) =
     Some (sample_account 11 1 CurrencyUSD 1000 0)"
  "stored 100" "100 \<le> acc_available (sample_account 11 1 CurrencyUSD 1000 0)"
  "acc_hold (sample_account 11 1 CurrencyUSD 1000 0) + 100 < 10 ^ 20"
  "ev_order_id sample_env \<notin> ord_id ` set (db_orders (w_db (os_world sample_state)))"
  "\<forall>l. \<not> crosses (convertToBookOrder (new_order sample_env 1 low_bid)) sample_book l"
  using sample_db_ok sample_state_wf low_bid_crosses_none sample_account_of
  by (simp_all add: low_bid_def hold_currency_def sample_db_def)

lemma limit_order_rests_witness:
  "\<exists>s' ob'. CreateOrder sample_env 1 low_bid sample_state = Returns (Inr \<lparr>resp_order_id = 600,
        resp_status = OrderStatusNew, resp_filled = 0, resp_avg_price = None\<rparr>) s' \<and>
    balances (w_db (os_world s')) = (balances sample_db)(11 \<mapsto> (900, 100)) \<and>
    os_books s' SymbolBTCUSD = Some ob' \<and> ob_view ob' True (sample_str 50) = [6]"
proof -
  have "ob_view sample_book True (sample_str 50) = []"
    by (simp add: ob_view_def bs_view_def sample_book_def)
  moreover have "length sample_mem = 6" by (simp add: sample_mem_def)
  ultimately show ?thesis
    using limit_order_rests [OF low_bid_hyps] by (auto simp: low_bid_def)
qed

lemma low_bid_run:
  obtains s' where "CreateOrder sample_env 1 low_bid sample_state = Returns (Inr \<lparr>resp_order_id = 600,
        resp_status = OrderStatusNew, resp_filled = 0, resp_avg_price = None\<rparr>) s'"
  using CreateOrder_rests [OF low_bid_hyps] by auto



lemma unknown_side_witness:
  "\<exists>e s'. CreateOrder sample_env 2 (sample_req SymbolBTCUSD ''HOLD'' OrderTypeLimit (Some 50) 3) sample_state
     = Returns (Inl e) s' \<and>
     balances (w_db (os_world s')) = (balances sample_db)(22 \<mapsto> (0, 5))"
  using unknown_side_loses_funds [of sample_state "sample_req SymbolBTCUSD ''HOLD'' OrderTypeLimit (Some 50) 3"
      50 2 "sample_account 22 2 CurrencyBTC 3 2" sample_env] sample_db_ok sample_account_of
  by (auto simp: base_currency_def)

lemma market_order_panics_witness:
  "\<exists>s'. CreateOrder sample_env 1 (sample_req SymbolETHUSD OrderSideBuy OrderTypeMarket None 1) sample_state
     = Panics NilDereference s' \<and>
     balances (w_db (os_world s')) = (balances sample_db)(11 \<mapsto> (49995 / 100, 50005 / 100))"
proof -
  let ?req = "sample_req SymbolETHUSD OrderSideBuy OrderTypeMarket None 1"
  have quote: "GetQuote (req_symbol ?req) (os_quotes sample_state) = Inr (mock_quote SymbolETHUSD 0 500)"
    by (simp add: GetQuote_def sample_state_def)
  have ask: "q_ask (mock_quote SymbolETHUSD 0 500) = 50005 / 100"
    by (simp add: mock_quote_def mock_spread_def)
  have st: "stored (50005 / 100)"
    using is_numeric_iff [of "50005 / 100"] by (auto simp: stored_iff intro!: exI [of _ "50005 * 10 ^ 8"])
  have nc: "\<not> crosses (convertToBookOrder (new_order sample_env 1 ?req)) (NewOrderBook ''ETH-USD'') l" for l
    by (simp add: crosses_def bs_GetBestLevel_def ph_top_def ph_Len_def NewOrderBook_def NewBookSide_def
        NewPriceHeap_def opposite_def)
  show ?thesis
    using resting_market_order_panics [of sample_state ?req "NewOrderBook ''ETH-USD''"
        "mock_quote SymbolETHUSD 0 500" "50005 / 100" 1 "sample_account 11 1 CurrencyUSD 1000 0" sample_env]
      sample_db_ok sample_account_of quote ask st nc
    by (auto simp: hold_currency_def sample_db_def)
qed

text \<open>A world whose order table holds one resting order.\<close>

definition resting_world :: world where
  "resting_world = sample_world\<lparr>w_db := sample_db\<lparr>db_orders := [new_order sample_env 1 low_bid]\<rparr>\<rparr>"


end
