(* ===== verification/Middleware.thy ===== *)
theory Middleware
  imports Auth RateLimiter Orders
begin

text \<open>
  HTTP requests and responses, and the middleware around the handlers:
  \<open>internal/auth/middleware.go\<close>, \<open>internal/rate/middleware.go\<close> and the two of \<open>cmd/monolith/main.go\<close>.

  A handler gets the request, the headers set so far on its response, and the state of the server;
  it replies, or panics (\<open>net/http\<close> then drops the connection), or never returns. Header names are in
  canonical form. A context maps keys to values; a key of the type \<open>contextKey\<close> differs from the
  plain string with the same text.
\<close>

section \<open>Requests and responses\<close>

datatype ctx_key = ContextKey string | PlainKey string

type_synonym header = "string \<rightharpoonup> string"

record http_request =
  rq_method :: string
  rq_path :: string
  rq_header :: "(string \<times> string list) list"
  rq_query :: "(string \<times> string list) list"
  rq_body :: "string option"
  rq_ctx :: "ctx_key \<rightharpoonup> uuid"

record http_response =
  rs_code :: int
  rs_header :: header
  rs_body :: string

datatype 's reply =
    Reply http_response 's
  | Crash panic 's
  | Hang 's

type_synonym 's handler = "http_request \<Rightarrow> header \<Rightarrow> 's \<Rightarrow> 's reply"

record server =
  sv_orders :: ostate
  sv_redis :: redis

text \<open>The first value of a key, as \<open>Header.Get\<close> and \<open>Values.Get\<close> return it.\<close>

definition first_value :: "(string \<times> string list) list \<Rightarrow> string \<Rightarrow> string" where
  "first_value kvs k = (case map_of kvs k of Some (v # vs) \<Rightarrow> v | _ \<Rightarrow> '''')"

definition http_Error :: "header \<Rightarrow> string \<Rightarrow> int \<Rightarrow> 's \<Rightarrow> 's reply" where
  "http_Error hs msg code s =
     Reply \<lparr>rs_code = code,
            rs_header = hs(''Content-Type'' \<mapsto> ''text/plain; charset=utf-8'',
                           ''X-Content-Type-Options'' \<mapsto> ''nosniff''),
            rs_body = msg @ [CHR 0x0A]\<rparr> s"

definition StatusOK :: int where "StatusOK = 200"
definition StatusBadRequest :: int where "StatusBadRequest = 400"
definition StatusUnauthorized :: int where "StatusUnauthorized = 401"
definition StatusNotFound :: int where "StatusNotFound = 404"
definition StatusConflict :: int where "StatusConflict = 409"
definition StatusTooManyRequests :: int where "StatusTooManyRequests = 429"
definition StatusInternalServerError :: int where "StatusInternalServerError = 500"

lemmas status_defs = StatusOK_def StatusBadRequest_def StatusUnauthorized_def StatusNotFound_def
  StatusConflict_def StatusTooManyRequests_def StatusInternalServerError_def

section \<open>Authentication\<close>

definition UserIDKey :: ctx_key where
  "UserIDKey = ContextKey ''user_id''"

definition GetUserIDFromContext :: "(ctx_key \<rightharpoonup> uuid) \<Rightarrow> uuid option" where
  "GetUserIDFromContext ctx = ctx UserIDKey"

definition shouldSkipAuth :: "string \<Rightarrow> bool" where
  "shouldSkipAuth path \<longleftrightarrow> path \<in> set [''/auth/signup'', ''/auth/login'', ''/health'', ''/metrics'']"

text \<open>\<open>strings.SplitN(s, " ", 2)\<close>\<close>

definition split_space :: "string \<Rightarrow> string list" where
  "split_space s =
     (let p = takeWhile (\<lambda>c. c \<noteq> CHR '' '') s; q = dropWhile (\<lambda>c. c \<noteq> CHR '' '') s
      in if q = [] then [s] else [p, tl q])"

definition AuthMiddleware :: "jwt_parse \<Rightarrow> int \<Rightarrow> 's handler \<Rightarrow> 's handler" where
  "AuthMiddleware parse now serve = (\<lambda>r hs s.
     if shouldSkipAuth (rq_path r) then serve r hs s
     else
       (let authHeader = first_value (rq_header r) ''Authorization'';
            parts = split_space authHeader in
        if authHeader = '''' then http_Error hs ''Authorization header required'' StatusUnauthorized s
        else if length parts \<noteq> 2 \<or> parts ! 0 \<noteq> ''Bearer''
        then http_Error hs ''Invalid authorization header format'' StatusUnauthorized s
        else (case ValidateToken parse now (parts ! 1) of
                Inl e \<Rightarrow> http_Error hs ''Invalid token'' StatusUnauthorized s
              | Inr claims \<Rightarrow> serve (r\<lparr>rq_ctx := (rq_ctx r)(UserIDKey \<mapsto> cl_user claims)\<rparr>) hs s)))"

section \<open>Rate limiting\<close>

text \<open>What the calls of one request read from outside: clocks, Redis errors, a fresh ID.\<close>

record rate_env =
  re_now :: int
  re_redis_now :: int
  re_fault :: bool
  re_now2 :: int
  re_redis_now2 :: int
  re_fault2 :: bool
  re_reset :: int
  re_request_id :: string

definition shouldSkipRateLimit :: "string \<Rightarrow> bool" where
  "shouldSkipRateLimit path \<longleftrightarrow> path \<in> set [''/health'', ''/metrics'', ''/auth/signup'', ''/auth/login'']"

text \<open>The reply to a request over the limit; the ID is the text of a UUID.\<close>

definition rate_limit_error :: "string \<Rightarrow> string" where
  "rate_limit_error request_id =
     encode_error \<lparr>er_error =
       \<lparr>ed_code = error_code_text ErrorCodeRateLimit, ed_message = ''Rate limit exceeded'',
        ed_request_id = request_id\<rparr>\<rparr>"

definition RateLimitMiddleware :: "rate_env \<Rightarrow> limiter \<Rightarrow> server handler \<Rightarrow> server handler" where
  "RateLimitMiddleware ev limiter serve = (\<lambda>r hs s.
     if shouldSkipRateLimit (rq_path r) then serve r hs s
     else
       (case GetUserIDFromContext (rq_ctx r) of
          None \<Rightarrow> http_Error hs ''User not authenticated'' StatusUnauthorized s
        | Some userID \<Rightarrow>
       (case Allow limiter (re_fault ev) (re_now ev) (re_redis_now ev) userID (sv_redis s) of
          (Inl e, rd) \<Rightarrow> http_Error hs ''Rate limit check failed'' StatusInternalServerError (s\<lparr>sv_redis := rd\<rparr>)
        | (Inr allowed, rd) \<Rightarrow>
            if \<not> allowed
            then Reply \<lparr>rs_code = StatusTooManyRequests, rs_header = hs(''Content-Type'' \<mapsto> ''application/json''),
                        rs_body = rate_limit_error (re_request_id ev)\<rparr> (s\<lparr>sv_redis := rd\<rparr>)
            else
              (let hs' = (case GetRemainingTokens limiter (re_fault2 ev) (re_now2 ev) (re_redis_now2 ev) userID rd of
                            Inl e \<Rightarrow> hs
                          | Inr left \<Rightarrow>
                              hs(''X-RateLimit-Remaining'' \<mapsto> show_int left,
                                 ''X-RateLimit-Reset'' \<mapsto> show_int ((re_reset ev + 60 * 10 ^ 9) div 10 ^ 9)))
               in serve r hs' (s\<lparr>sv_redis := rd\<rparr>)))))"

section \<open>CORS and logging\<close>

definition corsMiddleware :: "'s handler \<Rightarrow> 's handler" where
  "corsMiddleware serve = (\<lambda>r hs s.
     let hs' = hs(''Access-Control-Allow-Origin'' \<mapsto> ''*'',
                  ''Access-Control-Allow-Methods'' \<mapsto> ''GET, POST, PUT, DELETE, OPTIONS'',
                  ''Access-Control-Allow-Headers'' \<mapsto> ''Content-Type, Authorization, Idempotency-Key'') in
     if rq_method r = ''OPTIONS'' then Reply \<lparr>rs_code = StatusOK, rs_header = hs', rs_body = ''''\<rparr> s
     else serve r hs' s)"

text \<open>\<open>loggingMiddleware\<close> writes a line once the handler has returned; the log is not modelled.\<close>

definition loggingMiddleware :: "'s handler \<Rightarrow> 's handler" where
  "loggingMiddleware serve = (\<lambda>r hs s. serve r hs s)"

lemma loggingMiddleware_id [simp]: "loggingMiddleware serve = serve"
  by (simp add: loggingMiddleware_def)

text \<open>The chain \<open>main\<close> installs on every route; the rate limiter only when Redis answered at start-up.\<close>

definition after_auth :: "rate_env \<Rightarrow> limiter option \<Rightarrow> server handler \<Rightarrow> server handler" where
  "after_auth ev limiter handler =
     (case limiter of None \<Rightarrow> id | Some l \<Rightarrow> RateLimitMiddleware ev l) (corsMiddleware (loggingMiddleware handler))"

definition middleware ::
  "jwt_parse \<Rightarrow> int \<Rightarrow> rate_env \<Rightarrow> limiter option \<Rightarrow> server handler \<Rightarrow> server handler" where
  "middleware parse now ev limiter handler = AuthMiddleware parse now (after_auth ev limiter handler)"

section \<open>Properties\<close>

lemma split_space_bearer:
  assumes "length (split_space s) = 2" "split_space s ! 0 = ''Bearer''"
  shows "s = ''Bearer '' @ split_space s ! 1"
proof -
  let ?p = "takeWhile (\<lambda>c. c \<noteq> CHR '' '') s" and ?q = "dropWhile (\<lambda>c. c \<noteq> CHR '' '') s"
  have q: "?q \<noteq> []" using assms(1) by (auto simp: split_space_def Let_def split: if_splits)
  then have "hd ?q = CHR '' ''" using hd_dropWhile [of "\<lambda>c. c \<noteq> CHR '' ''" s] by auto
  then have "?q = CHR '' '' # tl ?q" using q by (cases ?q) auto
  then have "s = ?p @ CHR '' '' # tl ?q" by (metis takeWhile_dropWhile_id)
  moreover have "split_space s = [?p, tl ?q]" using q by (simp add: split_space_def Let_def)
  ultimately show ?thesis using assms(2) by simp
qed

lemma split_space_of_bearer: "split_space (''Bearer '' @ t) = [''Bearer'', t]"
  by (simp add: split_space_def)

text \<open>
  A chain refuses a request with one of the given codes, whatever the handler, or passes it on; either
  way with the orders and the database as they were.
\<close>

definition refuses ::
  "int set \<Rightarrow> (server handler \<Rightarrow> server handler) \<Rightarrow> http_request \<Rightarrow> header \<Rightarrow> server \<Rightarrow> bool" where
  "refuses codes chain r hs s \<longleftrightarrow>
     (\<exists>resp s'. (\<forall>h. chain h r hs s = Reply resp s') \<and> rs_code resp \<in> codes \<and> sv_orders s' = sv_orders s)"

definition passes ::
  "(server handler \<Rightarrow> server handler) \<Rightarrow> http_request \<Rightarrow> header \<Rightarrow> server \<Rightarrow> http_request \<Rightarrow> bool" where
  "passes chain r hs s r' \<longleftrightarrow>
     (\<exists>hs' s'. (\<forall>h. chain h r hs s = h r' hs' s') \<and> sv_orders s' = sv_orders s)"

lemma passesI: "(\<And>h. chain h r hs s = h r' hs' s') \<Longrightarrow> sv_orders s' = sv_orders s \<Longrightarrow> passes chain r hs s r'"
  by (auto simp: passes_def)

lemma rate_step:
  assumes "\<not> shouldSkipRateLimit (rq_path r)" "rq_ctx r UserIDKey = Some u"
  shows "refuses {429, 500} (RateLimitMiddleware ev l) r hs s \<or> passes (RateLimitMiddleware ev l) r hs s r"
proof -
  obtain x rd where a: "Allow l (re_fault ev) (re_now ev) (re_redis_now ev) u (sv_redis s) = (x, rd)"
    by (metis prod.exhaust)
  consider (err) e where "x = Inl e" | (no) "x = Inr False" | (yes) "x = Inr True"
    by (cases x) auto
  then show ?thesis
  proof cases
    case err
    then have "refuses {429, 500} (RateLimitMiddleware ev l) r hs s"
      using assms a by (simp add: refuses_def RateLimitMiddleware_def GetUserIDFromContext_def http_Error_def status_defs)
    then show ?thesis ..
  next
    case no
    then have "refuses {429, 500} (RateLimitMiddleware ev l) r hs s"
      using assms a by (simp add: refuses_def RateLimitMiddleware_def GetUserIDFromContext_def status_defs)
    then show ?thesis ..
  next
    case yes
    then have "passes (RateLimitMiddleware ev l) r hs s r"
      using assms a unfolding passes_def
      by (simp add: RateLimitMiddleware_def GetUserIDFromContext_def Let_def) (intro exI conjI allI, rule refl, simp)
    then show ?thesis ..
  qed
qed

lemma cors_step: "rq_method r = ''OPTIONS'' \<and> refuses {200} corsMiddleware r hs s \<or> passes corsMiddleware r hs s r"
proof (cases "rq_method r = ''OPTIONS''")
  case True
  then have "refuses {200} corsMiddleware r hs s"
    by (simp add: refuses_def corsMiddleware_def Let_def StatusOK_def)
  then show ?thesis using True by simp
next
  case False
  then have "passes corsMiddleware r hs s r"
    by (intro passesI) (simp_all add: corsMiddleware_def Let_def)
  then show ?thesis ..
qed

lemma passes_then:
  assumes "passes f r hs s r'"
    and "\<And>hs' s'. sv_orders s' = sv_orders s \<Longrightarrow> refuses codes g r' hs' s' \<or> passes g r' hs' s' r'"
  shows "refuses codes (\<lambda>h. f (g h)) r hs s \<or> passes (\<lambda>h. f (g h)) r hs s r'"
proof -
  obtain hs' s' where f: "\<And>h. f h r hs s = h r' hs' s'" "sv_orders s' = sv_orders s"
    using assms(1) by (auto simp: passes_def)
  show ?thesis using assms(2) [OF f(2)] f by (auto simp: refuses_def passes_def)
qed

lemma refuses_then: "refuses codes f r hs s \<Longrightarrow> refuses codes (\<lambda>h. f (g h)) r hs s"
  by (auto simp: refuses_def)

lemma refuses_mono: "refuses codes f r hs s \<Longrightarrow> codes \<subseteq> codes' \<Longrightarrow> refuses codes' f r hs s"
  by (auto simp: refuses_def)

lemma middleware_after_auth:
  assumes "\<not> shouldSkipRateLimit (rq_path r)" "rq_ctx r UserIDKey = Some u"
  shows "refuses (if rq_method r = ''OPTIONS'' then {200, 429, 500} else {429, 500}) (after_auth ev limiter) r hs s \<or>
    passes (after_auth ev limiter) r hs s r"
proof -
  let ?codes = "if rq_method r = ''OPTIONS'' then {200, 429, 500} else {429, 500} :: int set"
  have cors: "refuses ?codes corsMiddleware r hs' s' \<or> passes corsMiddleware r hs' s' r" for hs' s'
    using cors_step [of r hs' s'] refuses_mono [of "{200}" corsMiddleware r hs' s' ?codes] by auto
  show ?thesis
  proof (cases limiter)
    case None
    then show ?thesis using cors [of hs s] by (simp add: after_auth_def [abs_def])
  next
    case (Some l)
    have "refuses ?codes (RateLimitMiddleware ev l) r hs s \<or> passes (RateLimitMiddleware ev l) r hs s r"
      using rate_step [OF assms(1,2), of ev l hs s]
        refuses_mono [of "{429, 500}" "RateLimitMiddleware ev l" r hs s ?codes] by auto
    then show ?thesis
      using passes_then [OF _ cors] refuses_then [of ?codes "RateLimitMiddleware ev l" r hs s corsMiddleware]
      unfolding after_auth_def [abs_def] Some option.case loggingMiddleware_id by blast
  qed
qed

text \<open>
  C31: on a path that is not exempt, the installed chain runs the handler only for a request whose
  \<open>Authorization\<close> header is \<open>Bearer\<close> and a token that validates, with the user of that token in the
  context; every other request is refused with a status of its own, whatever the handler, and leaves
  orders and database untouched.
\<close>

theorem protected_paths_need_token:
  assumes "\<not> shouldSkipAuth (rq_path r)"
  shows "refuses {401, 429, 500} (middleware parse now ev limiter) r hs s \<or>
    rq_method r = ''OPTIONS'' \<and> refuses {200} (middleware parse now ev limiter) r hs s \<or>
    (\<exists>token c. first_value (rq_header r) ''Authorization'' = ''Bearer '' @ token \<and>
       ValidateToken parse now token = Inr c \<and>
       passes (middleware parse now ev limiter) r hs s (r\<lparr>rq_ctx := (rq_ctx r)(UserIDKey \<mapsto> cl_user c)\<rparr>))"
proof -
  let ?a = "first_value (rq_header r) ''Authorization''"
  let ?chain = "after_auth ev limiter"
  show ?thesis
  proof (cases "?a \<noteq> '''' \<and> length (split_space ?a) = 2 \<and> split_space ?a ! 0 = ''Bearer''")
    case False
    then have "refuses {401, 429, 500} (middleware parse now ev limiter) r hs s"
      using assms by (cases "?a = ''''")
        (auto simp: refuses_def middleware_def AuthMiddleware_def Let_def http_Error_def status_defs)
    then show ?thesis ..
  next
    case ok: True
    let ?t = "split_space ?a ! 1"
    have tok: "?a = ''Bearer '' @ ?t" using split_space_bearer ok by blast
    show ?thesis
    proof (cases "ValidateToken parse now ?t")
      case (Inl e)
      then have "refuses {401, 429, 500} (middleware parse now ev limiter) r hs s"
        using assms ok by (simp add: refuses_def middleware_def AuthMiddleware_def Let_def http_Error_def status_defs)
      then show ?thesis ..
    next
      case (Inr c)
      let ?r = "r\<lparr>rq_ctx := (rq_ctx r)(UserIDKey \<mapsto> cl_user c)\<rparr>"
      have run: "middleware parse now ev limiter h r hs s = ?chain h ?r hs s" for h
        using assms ok Inr by (simp add: middleware_def AuthMiddleware_def Let_def)
      have skip: "\<not> shouldSkipRateLimit (rq_path ?r)"
        using assms by (auto simp: shouldSkipRateLimit_def shouldSkipAuth_def)
      have "refuses (if rq_method r = ''OPTIONS'' then {200, 429, 500} else {429, 500}) ?chain ?r hs s \<or>
          passes ?chain ?r hs s ?r"
        using middleware_after_auth [OF skip, of "cl_user c" ev limiter hs s] by simp
      then have "refuses {401, 429, 500} (middleware parse now ev limiter) r hs s \<or>
          rq_method r = ''OPTIONS'' \<and> refuses {200} (middleware parse now ev limiter) r hs s \<or>
          passes (middleware parse now ev limiter) r hs s ?r"
        unfolding refuses_def passes_def run by (auto split: if_splits)
      then show ?thesis using tok Inr by blast
    qed
  qed
qed

definition sample_request :: "string \<Rightarrow> string \<Rightarrow> (string \<times> string list) list \<Rightarrow> string \<Rightarrow> http_request" where
  "sample_request meth path header body =
     \<lparr>rq_method = meth, rq_path = path, rq_header = header, rq_query = [], rq_body = Some body,
      rq_ctx = (\<lambda>_. None)\<rparr>"

definition sample_rate_env :: rate_env where
  "sample_rate_env = \<lparr>re_now = 0, re_redis_now = 0, re_fault = False, re_now2 = 0, re_redis_now2 = 0,
     re_fault2 = False, re_reset = 0, re_request_id = ''r''\<rparr>"

definition sample_server :: server where
  "sample_server = \<lparr>sv_orders = sample_state, sv_redis = (\<lambda>_. None)\<rparr>"

theorem protected_paths_need_token_witness:
  "refuses {401, 429, 500} (middleware sample_parse 0 sample_rate_env (Some configured_limiter))
     (sample_request ''GET'' ''/api/portfolio'' [] '''') (\<lambda>_. None) sample_server"
  using protected_paths_need_token [of "sample_request ''GET'' ''/api/portfolio'' [] ''''" sample_parse 0
      sample_rate_env "Some configured_limiter" "\<lambda>_. None" sample_server]
  by (simp add: sample_request_def shouldSkipAuth_def first_value_def)

text \<open>
  With the JWT library as documented, a request that carries the access token of a sign-in, within
  its quarter of an hour, runs the handler as the user who signed in (Redis being down at start-up).
\<close>

theorem access_token_authenticates:
  assumes "jwt_documented sign parse"
    and "GenerateTokens sign clock u email = Inr (access, refresh)"
    and "clock 2 div 10 ^ 9 * 10 ^ 9 \<le> now" "now < (clock 0 div 10 ^ 9 + 15 * 60) * 10 ^ 9"
    and "\<not> shouldSkipAuth (rq_path r)" "rq_method r \<noteq> ''OPTIONS''"
    and "first_value (rq_header r) ''Authorization'' = ''Bearer '' @ access"
  shows "passes (middleware parse now ev None) r hs s (r\<lparr>rq_ctx := (rq_ctx r)(UserIDKey \<mapsto> u)\<rparr>)"
proof -
  let ?r = "r\<lparr>rq_ctx := (rq_ctx r)(UserIDKey \<mapsto> u)\<rparr>"
  have "ValidateToken parse now access = Inr (access_claims clock u email)"
    using token_windows [OF assms(1,2), of now] assms(3,4) by simp
  then have run: "middleware parse now ev None h r hs s = corsMiddleware h ?r hs s" for h
    using assms(5,7) split_space_of_bearer [of access]
    by (simp add: middleware_def AuthMiddleware_def Let_def after_auth_def access_claims_def)
  have "passes corsMiddleware ?r hs s ?r" using cors_step [of ?r hs s] assms(6) by simp
  then show ?thesis unfolding passes_def run .
qed

theorem access_token_authenticates_witness:
  "passes (middleware sample_parse (10 ^ 9) sample_rate_env None)
     (sample_request ''GET'' ''/api/portfolio'' [(''Authorization'', [''Bearer access''])] '''') (\<lambda>_. None) sample_server
     ((sample_request ''GET'' ''/api/portfolio'' [(''Authorization'', [''Bearer access''])] '''')
        \<lparr>rq_ctx := [UserIDKey \<mapsto> 7]\<rparr>)"
  using access_token_authenticates [OF sample_jwt_documented sample_tokens, of "10 ^ 9"
      "sample_request ''GET'' ''/api/portfolio'' [(''Authorization'', [''Bearer access''])] ''''" sample_rate_env
      "\<lambda>_. None" sample_server]
  by (simp add: sample_request_def shouldSkipAuth_def first_value_def)

end
