(* ===== verification/Sha256.thy ===== *)
theory Sha256
  imports Prelude
begin

unbundle bit_operations_syntax

text \<open>
  SHA-256 as \<open>crypto/sha256\<close> computes it and the hexadecimal encoding of \<open>encoding/hex\<close>, which the
  request fingerprints use. A message is a byte string, an HOL string.
\<close>

type_synonym chain = "32 word \<times> 32 word \<times> 32 word \<times> 32 word \<times> 32 word \<times> 32 word \<times> 32 word \<times> 32 word"

section \<open>Padding\<close>

text \<open>The big-endian bytes of a number.\<close>

fun be_bytes :: "nat \<Rightarrow> nat \<Rightarrow> nat list" where
  "be_bytes 0 n = []"
| "be_bytes (Suc k) n = be_bytes k (n div 256) @ [n mod 256]"

definition pad :: "string \<Rightarrow> nat list" where
  "pad m = map of_char m @ 128 # replicate ((119 - length m mod 64) mod 64) 0 @ be_bytes 8 (8 * length m)"

lemma length_be_bytes [simp]: "length (be_bytes k n) = k"
  by (induction k arbitrary: n) auto

text \<open>Padding fills whole blocks of 64 bytes.\<close>

lemma pad_blocks: "64 dvd length (pad m)"
proof -
  let ?q = "length m mod 64"
  have q: "?q < 64" by simp
  have "length (pad m) = 64 * (length m div 64) + (?q + 9 + (119 - ?q) mod 64)"
    by (simp add: pad_def)
  moreover have "64 dvd ?q + 9 + (119 - ?q) mod 64"
  proof (cases "?q \<le> 55")
    case True
    then have "(119 - ?q) mod 64 = 55 - ?q" using mod_add_self2 [of "55 - ?q" 64] by simp
    then show ?thesis using True by simp
  next
    case False
    then have "(119 - ?q) mod 64 = 119 - ?q" by simp
    then have "?q + 9 + (119 - ?q) mod 64 = 128" using False q by simp
    then show ?thesis by simp
  qed
  ultimately show ?thesis by (metis dvd_add dvd_triv_left)
qed

section \<open>Compression\<close>

definition round_constants :: "32 word list" where
  "round_constants =
    [0x428a2f98, 0x71374491, 0xb5c0fbcf, 0xe9b5dba5, 0x3956c25b, 0x59f111f1, 0x923f82a4, 0xab1c5ed5,
     0xd807aa98, 0x12835b01, 0x243185be, 0x550c7dc3, 0x72be5d74, 0x80deb1fe, 0x9bdc06a7, 0xc19bf174,
     0xe49b69c1, 0xefbe4786, 0x0fc19dc6, 0x240ca1cc, 0x2de92c6f, 0x4a7484aa, 0x5cb0a9dc, 0x76f988da,
     0x983e5152, 0xa831c66d, 0xb00327c8, 0xbf597fc7, 0xc6e00bf3, 0xd5a79147, 0x06ca6351, 0x14292967,
     0x27b70a85, 0x2e1b2138, 0x4d2c6dfc, 0x53380d13, 0x650a7354, 0x766a0abb, 0x81c2c92e, 0x92722c85,
     0xa2bfe8a1, 0xa81a664b, 0xc24b8b70, 0xc76c51a3, 0xd192e819, 0xd6990624, 0xf40e3585, 0x106aa070,
     0x19a4c116, 0x1e376c08, 0x2748774c, 0x34b0bcb5, 0x391c0cb3, 0x4ed8aa4a, 0x5b9cca4f, 0x682e6ff3,
     0x748f82ee, 0x78a5636f, 0x84c87814, 0x8cc70208, 0x90befffa, 0xa4506ceb, 0xbef9a3f7, 0xc67178f2]"

definition initial_chain :: chain where
  "initial_chain =
    (0x6a09e667, 0xbb67ae85, 0x3c6ef372, 0xa54ff53a, 0x510e527f, 0x9b05688c, 0x1f83d9ab, 0x5be0cd19)"

definition rotr :: "nat \<Rightarrow> 32 word \<Rightarrow> 32 word" where
  "rotr n x = drop_bit n x OR push_bit (32 - n) x"

fun words_of :: "nat list \<Rightarrow> 32 word list" where
  "words_of (a # b # c # d # bs) =
     of_nat (((a * 256 + b) * 256 + c) * 256 + d) # words_of bs"
| "words_of _ = []"

text \<open>One more word of the message schedule, which is kept latest first.\<close>

definition schedule_step :: "32 word list \<Rightarrow> 32 word list" where
  "schedule_step ws =
     (let v1 = ws ! 1; t1 = rotr 17 v1 XOR rotr 19 v1 XOR drop_bit 10 v1;
          v2 = ws ! 14; t2 = rotr 7 v2 XOR rotr 18 v2 XOR drop_bit 3 v2
      in (t1 + ws ! 6 + t2 + ws ! 15) # ws)"

definition schedule :: "32 word list \<Rightarrow> 32 word list" where
  "schedule block = rev ((schedule_step ^^ 48) (rev block))"

fun compress_step :: "chain \<Rightarrow> 32 word \<times> 32 word \<Rightarrow> chain" where
  "compress_step (a, b, c, d, e, f, g, h) (k, w) =
     (let t1 = h + (rotr 6 e XOR rotr 11 e XOR rotr 25 e) + ((e AND f) XOR (NOT e AND g)) + k + w;
          t2 = (rotr 2 a XOR rotr 13 a XOR rotr 22 a) + ((a AND b) XOR (a AND c) XOR (b AND c))
      in (t1 + t2, a, b, c, d + t1, e, f, g))"

fun add_chain :: "chain \<Rightarrow> chain \<Rightarrow> chain" where
  "add_chain (a, b, c, d, e, f, g, h) (a', b', c', d', e', f', g', h') =
     (a + a', b + b', c + c', d + d', e + e', f + f', g + g', h + h')"

definition compress :: "chain \<Rightarrow> 32 word list \<Rightarrow> chain" where
  "compress ch block = add_chain ch (foldl compress_step ch (zip round_constants (schedule block)))"

function blocks_of :: "32 word list \<Rightarrow> 32 word list list" where
  "blocks_of ws = (if ws = [] then [] else take 16 ws # blocks_of (drop 16 ws))"
  by pat_completeness auto
termination by (relation "measure length") auto

declare blocks_of.simps [simp del]

fun chain_words :: "chain \<Rightarrow> 32 word list" where
  "chain_words (a, b, c, d, e, f, g, h) = [a, b, c, d, e, f, g, h]"

definition Sum256 :: "string \<Rightarrow> nat list" where
  "Sum256 m = concat (map (\<lambda>w. be_bytes 4 (unat w))
     (chain_words (foldl compress initial_chain (blocks_of (words_of (pad m))))))"

section \<open>Hexadecimal\<close>

definition hex_digit :: "nat \<Rightarrow> char" where
  "hex_digit n = (if n < 10 then char_of (n + 48) else char_of (n + 87))"

definition hex_EncodeToString :: "nat list \<Rightarrow> string" where
  "hex_EncodeToString bs = concat (map (\<lambda>b. [hex_digit (b div 16), hex_digit (b mod 16)]) bs)"

definition sha256_hex :: "string \<Rightarrow> string" where
  "sha256_hex m = hex_EncodeToString (Sum256 m)"

lemma length_Sum256 [simp]: "length (Sum256 m) = 32"
proof -
  obtain a b c d e f g h where
    "foldl compress initial_chain (blocks_of (words_of (pad m))) = (a, b, c, d, e, f, g, h)"
    by (metis prod.exhaust)
  then show ?thesis by (simp add: Sum256_def)
qed

lemma length_sha256_hex [simp]: "length (sha256_hex m) = 64"
proof -
  have "length (hex_EncodeToString bs) = 2 * length bs" for bs
    by (induction bs) (simp_all add: hex_EncodeToString_def)
  then show ?thesis by (simp add: sha256_hex_def)
qed

end
