(* ===== verification/Idempotency.thy ===== *)
theory Idempotency
  imports Middleware Sha256
begin

text \<open>
  \<open>internal/idempotency/idempotency.go\<close>: the store of idempotency keys, the fingerprint of a request,
  and the wrapper \<open>IdempotentHandler\<close>.

  Go visits a map in an order of its own at each \<open>range\<close>: the fingerprint takes the headers as the
  list of pairs in the order visited. The column \<open>response_body\<close> has the type \<open>JSONB\<close>: PostgreSQL keeps
  the JSON value, and a read gets its own rendering of the value that was stored as a text, which is the
  parameter \<open>jsonb\<close> (the texts stored are made by \<open>json.Marshal\<close>, so they are JSON).
\<close>

section \<open>The repository\<close>

type_synonym jsonb = "string \<Rightarrow> string"

definition GetIdempotencyKey :: "jsonb \<Rightarrow> uuid \<Rightarrow> string \<Rightarrow> idem_key option io" where
  "GetIdempotencyKey jsonb userID key = (\<lambda>w.
     case db_QueryRow (\<lambda>d. find (\<lambda>k. ik_user k = userID \<and> ik_key k = key) (db_idem d)) w of
       (Inl e, w') \<Rightarrow>
         if e = ErrNoRows then (Inr None, w') else (Inl (ErrorfWrap ''failed to get idempotency key'' e), w')
     | (Inr k, w') \<Rightarrow> (Inr (Some (k\<lparr>ik_body := jsonb (ik_body k)\<rparr>)), w'))"

definition CreateIdempotencyKey :: "tx \<Rightarrow> idem_key \<Rightarrow> tx io" where
  "CreateIdempotencyKey t k = io_wrap ''failed to create idempotency key'' (tx_Exec t (InsertIdem k))"

section \<open>The service\<close>

definition GenerateFingerprint :: "string \<Rightarrow> (string \<times> string) list \<Rightarrow> string" where
  "GenerateFingerprint body headers =
     sha256_hex (foldl (\<lambda>data (key, value).
         if key = ''Authorization'' \<or> key = ''Content-Type'' then data @ key @ '':'' @ value else data)
       body headers)"

definition CheckIdempotency :: "jsonb \<Rightarrow> uuid \<Rightarrow> string \<Rightarrow> string \<Rightarrow> idem_key option io" where
  "CheckIdempotency jsonb userID key fingerprint =
     io_bind (GetIdempotencyKey jsonb userID key) (\<lambda>k. case k of
         None \<Rightarrow> io_return None
       | Some k \<Rightarrow>
           if ik_fingerprint k \<noteq> fingerprint then io_error (Errorf ''idempotency key mismatch'')
           else io_return (Some k))"

definition StoreIdempotency :: "tx \<Rightarrow> uuid \<Rightarrow> string \<Rightarrow> string \<Rightarrow> int \<Rightarrow> string \<Rightarrow> tx io" where
  "StoreIdempotency t userID key fingerprint responseCode responseBody =
     CreateIdempotencyKey t
       \<lparr>ik_user = userID, ik_key = key, ik_fingerprint = fingerprint, ik_code = responseCode,
        ik_body = responseBody, ik_created_at = 0\<rparr>"

section \<open>The handler wrapper\<close>

text \<open>An operation on the database, run on the state of the server.\<close>

definition on_world :: "'a io \<Rightarrow> server \<Rightarrow> (go_error + 'a) \<times> server" where
  "on_world m s =
     (case m (os_world (sv_orders s)) of
        (x, w') \<Rightarrow> (x, s\<lparr>sv_orders := (sv_orders s)\<lparr>os_world := w'\<rparr>\<rparr>))"

text \<open>The first value of every header that has one; a \<open>visit\<close> is the order a \<open>range\<close> takes.\<close>

definition first_headers :: "http_request \<Rightarrow> (string \<times> string) list" where
  "first_headers r =
     map (\<lambda>(k, vs). (k, hd vs)) (filter (\<lambda>(k, vs). vs \<noteq> []) (rq_header r))"

type_synonym visit = "(string \<times> string) list \<Rightarrow> (string \<times> string) list"

definition fingerprint_of :: "visit \<Rightarrow> http_request \<Rightarrow> string \<Rightarrow> string" where
  "fingerprint_of visit r body = GenerateFingerprint body (visit (first_headers r))"

definition IdempotentHandler :: "jsonb \<Rightarrow> visit \<Rightarrow> server handler \<Rightarrow> server handler" where
  "IdempotentHandler jsonb visit handler = (\<lambda>r hs s.
     case rq_ctx r (PlainKey ''user_id'') of
       None \<Rightarrow> http_Error hs ''User not authenticated'' StatusUnauthorized s
     | Some userID \<Rightarrow>
         (let idemKey = first_value (rq_header r) ''Idempotency-Key'' in
          if idemKey = '''' then http_Error hs ''Idempotency-Key header required'' StatusBadRequest s
          else (case rq_body r of
              None \<Rightarrow> http_Error hs ''Failed to read request body'' StatusBadRequest s
            | Some body \<Rightarrow>
                (case on_world (CheckIdempotency jsonb userID idemKey (fingerprint_of visit r body)) s of
                   (Inl e, s') \<Rightarrow> http_Error hs ''Idempotency key mismatch'' StatusConflict s'
                 | (Inr (Some k), s') \<Rightarrow> Reply \<lparr>rs_code = ik_code k, rs_header = hs, rs_body = ik_body k\<rparr> s'
                 | (Inr None, s') \<Rightarrow>
                     (case handler r (\<lambda>_. None) s' of
                        Reply recorded s'' \<Rightarrow>
                          Reply \<lparr>rs_code = rs_code recorded, rs_header = hs, rs_body = rs_body recorded\<rparr> s''
                      | Crash p s'' \<Rightarrow> Crash p s''
                      | Hang s'' \<Rightarrow> Hang s'')))))"

section \<open>Stored keys\<close>

definition key_stored :: "uuid \<Rightarrow> string \<Rightarrow> string \<Rightarrow> int \<Rightarrow> string \<Rightarrow> db \<Rightarrow> bool" where
  "key_stored u key f code body d \<longleftrightarrow>
     (\<exists>k \<in> set (db_idem d). ik_user k = u \<and> ik_key k = key \<and> ik_fingerprint k = f \<and> ik_code k = code \<and>
        ik_body k = body)"

lemma key_stored_mono:
  "key_stored u key f code body d \<Longrightarrow> set (db_idem d) \<subseteq> set (db_idem d') \<Longrightarrow> key_stored u key f code body d'"
  by (auto simp: key_stored_def)

lemma GetIdempotencyKey_reads [io_rules]: "io_reads (GetIdempotencyKey jsonb u key)"
proof -
  have "io_reads (db_QueryRow (\<lambda>d. find (\<lambda>k. ik_user k = u \<and> ik_key k = key) (db_idem d)))"
    by (rule io_rules)
  then show ?thesis unfolding io_reads_def GetIdempotencyKey_def
    by (auto split: prod.splits sum.splits if_splits)
qed

lemma CheckIdempotency_reads [io_rules]: "io_reads (CheckIdempotency jsonb u key f)"
  unfolding CheckIdempotency_def by (intro io_rules; auto split: option.splits intro!: io_rules)

lemma GetIdempotencyKey_found:
  assumes "GetIdempotencyKey jsonb u key w = (Inr (Some k), w')"
  shows "\<exists>k0. find (\<lambda>k. ik_user k = u \<and> ik_key k = key) (db_idem (w_db w)) = Some k0 \<and>
    k = k0\<lparr>ik_body := jsonb (ik_body k0)\<rparr>"
  using assms by (auto simp: GetIdempotencyKey_def split: prod.splits sum.splits if_splits elim!: db_QueryRowE)

text \<open>A key that is found is stored, and its body is read through the JSONB column.\<close>

lemma check_found:
  assumes "CheckIdempotency jsonb u key f w = (Inr (Some k), w')"
  shows "\<exists>body. key_stored u key f (ik_code k) body (w_db w) \<and> ik_body k = jsonb body"
proof -
  obtain w1 where "GetIdempotencyKey jsonb u key w = (Inr (Some k), w1)" and f: "ik_fingerprint k = f"
    using assms by (auto simp: CheckIdempotency_def elim!: io_bindE split: option.splits if_splits)
  then obtain k0 where k0: "find (\<lambda>k. ik_user k = u \<and> ik_key k = key) (db_idem (w_db w)) = Some k0"
    "k = k0\<lparr>ik_body := jsonb (ik_body k0)\<rparr>" using GetIdempotencyKey_found by blast
  then show ?thesis using f find_SomeD [OF k0(1)] by (auto simp: key_stored_def)
qed

lemma check_stored:
  assumes "key_stored u key f code body (w_db w)" and "db_wf (w_db w)" and "w_faults w = []"
  shows "\<exists>k. CheckIdempotency jsonb u key f w = (Inr (Some k), w) \<and> ik_code k = code \<and> ik_body k = jsonb body"
proof -
  obtain k where k: "k \<in> set (db_idem (w_db w))" "ik_user k = u" "ik_key k = key" "ik_fingerprint k = f"
    "ik_code k = code" "ik_body k = body"
    using assms(1) by (auto simp: key_stored_def)
  have "distinct (map (\<lambda>k. (ik_user k, ik_key k)) (db_idem (w_db w)))"
    using assms(2) by (simp add: db_wf_def)
  then have "find (\<lambda>k. ik_user k = u \<and> ik_key k = key) (db_idem (w_db w)) = Some k"
    using k by (intro find_unique_Some) (auto simp: distinct_map inj_on_def)
  then show ?thesis using k assms(3)
    by (auto simp: CheckIdempotency_def GetIdempotencyKey_def io_bind_def db_QueryRow_def db_call_def io_return_def)
qed

end
