(* ===== verification/Server.thy ===== *)
theory Server
  imports Idempotency
begin

text \<open>
  The HTTP handlers of \<open>cmd/monolith/main.go\<close>.

  What the handlers take from outside is an argument: the JSON codec (the types it renders have
  codecs of the decimal and UUID libraries), the texts of errors, \<open>uuid.Parse\<close>, the password and token
  libraries, and what one request draws, fresh UUIDs, random bytes, clock readings, the order in which
  maps are visited. The route a request takes, with its path variable, is what \<open>mux\<close> decided.
\<close>

section \<open>The surroundings of a handler\<close>

record codec =
  cd_error_text :: "go_error \<Rightarrow> string"
  cd_auth_request :: "string \<Rightarrow> auth_request option"
  cd_auth_response :: "auth_response \<Rightarrow> string"
  cd_topup_request :: "string \<Rightarrow> topup_request option"
  cd_topup_response :: "topup_response \<Rightarrow> string option"
  cd_order_request :: "string \<Rightarrow> create_order_request option"
  cd_order_response :: "create_order_response \<Rightarrow> string option"
  cd_order :: "order \<Rightarrow> string"
  cd_quote :: "quote \<Rightarrow> string"
  cd_portfolio :: "portfolio \<Rightarrow> string"
  cd_parse_uuid :: "string \<Rightarrow> uuid option"
  cd_jsonb :: jsonb

record crypto =
  cr_idkey :: idkey
  cr_version :: nat
  cr_sign :: jwt_sign

record draws =
  dr_visit :: visit
  dr_journal :: uuid
  dr_order :: env
  dr_user :: uuid
  dr_accounts :: "uuid \<times> uuid \<times> uuid"
  dr_random :: "nat \<Rightarrow> string option"
  dr_clock :: "nat \<Rightarrow> int"

text \<open>A JSON response: status 200 and its content type.\<close>

definition json_reply :: "header \<Rightarrow> string \<Rightarrow> 's \<Rightarrow> 's reply" where
  "json_reply hs body s =
     Reply \<lparr>rs_code = StatusOK, rs_header = hs(''Content-Type'' \<mapsto> ''application/json''), rs_body = body\<rparr> s"

section \<open>Health, sign-up and login\<close>

definition healthHandler :: "server handler" where
  "healthHandler r hs s = json_reply hs (''{\"status\":\"healthy\"}'' @ [CHR 0x0A]) s"

definition send_tokens :: "codec \<Rightarrow> crypto \<Rightarrow> draws \<Rightarrow> user \<Rightarrow> header \<Rightarrow> server \<Rightarrow> server reply" where
  "send_tokens cd cr dr user hs s =
     (case GenerateTokens (cr_sign cr) (dr_clock dr) (usr_id user) (usr_email user) of
        Inl e \<Rightarrow> http_Error hs ''Failed to generate tokens'' StatusInternalServerError s
      | Inr (accessToken, refreshToken) \<Rightarrow>
          json_reply hs (cd_auth_response cd
            \<lparr>ares_token = accessToken, ares_refresh_token = refreshToken, ares_user = user\<rparr>) s)"

definition signupHandler :: "codec \<Rightarrow> crypto \<Rightarrow> draws \<Rightarrow> server handler" where
  "signupHandler cd cr dr r hs s =
     (case Option.bind (rq_body r) (cd_auth_request cd) of
        None \<Rightarrow> http_Error hs ''Invalid request body'' StatusBadRequest s
      | Some req \<Rightarrow>
     (case HashPassword (cr_idkey cr) (cr_version cr) (dr_random dr) (areq_password req) of
        Inl p \<Rightarrow> Crash p s
      | Inr (Inl e) \<Rightarrow> http_Error hs ''Failed to hash password'' StatusInternalServerError s
      | Inr (Inr passwordHash) \<Rightarrow>
     (case dr_accounts dr of (a1, a2, a3) \<Rightarrow>
     (case on_world (CreateUser (dr_user dr) a1 a2 a3 (areq_email req) passwordHash) s of
        (Inl e, s') \<Rightarrow> http_Error hs ''Failed to create user'' StatusInternalServerError s'
      | (Inr user, s') \<Rightarrow> send_tokens cd cr dr user hs s'))))"

definition loginHandler :: "codec \<Rightarrow> crypto \<Rightarrow> draws \<Rightarrow> server handler" where
  "loginHandler cd cr dr r hs s =
     (case Option.bind (rq_body r) (cd_auth_request cd) of
        None \<Rightarrow> http_Error hs ''Invalid request body'' StatusBadRequest s
      | Some req \<Rightarrow>
     (case on_world (GetUserByEmail (areq_email req)) s of
        (Inl e, s') \<Rightarrow> http_Error hs ''Invalid credentials'' StatusUnauthorized s'
      | (Inr user, s') \<Rightarrow>
     (case VerifyPassword (cr_idkey cr) (cr_version cr) (areq_password req) (usr_password_hash user) of
        Inl p \<Rightarrow> Crash p s'
      | Inr (Inr True) \<Rightarrow> send_tokens cd cr dr user hs s'
      | Inr _ \<Rightarrow> http_Error hs ''Invalid credentials'' StatusUnauthorized s')))"

section \<open>Requests with an idempotency key\<close>

text \<open>
  The part \<open>topupHandler\<close> and \<open>createOrderHandler\<close> have in common: the checks before the operation,
  which \<open>process\<close> performs with the user, the key, the fingerprint and the body, and the storing of the
  key after it.
\<close>

definition keyed_request ::
  "codec \<Rightarrow> draws \<Rightarrow> (uuid \<Rightarrow> string \<Rightarrow> string \<Rightarrow> string \<Rightarrow> header \<Rightarrow> server \<Rightarrow> server reply) \<Rightarrow> server handler" where
  "keyed_request cd dr process r hs s =
     (case GetUserIDFromContext (rq_ctx r) of
        None \<Rightarrow> http_Error hs ''User not authenticated'' StatusUnauthorized s
      | Some userID \<Rightarrow>
     (let idemKey = first_value (rq_header r) ''Idempotency-Key'' in
      if idemKey = '''' then http_Error hs ''Idempotency-Key header required'' StatusBadRequest s
      else (case rq_body r of
          None \<Rightarrow> http_Error hs ''Failed to read request body'' StatusBadRequest s
        | Some body \<Rightarrow>
     (let fingerprint = fingerprint_of (dr_visit dr) r body in
      case on_world (CheckIdempotency (cd_jsonb cd) userID idemKey fingerprint) s of
        (Inl e, s') \<Rightarrow> http_Error hs ''Idempotency key mismatch'' StatusConflict s'
      | (Inr (Some k), s') \<Rightarrow> Reply \<lparr>rs_code = ik_code k, rs_header = hs, rs_body = ik_body k\<rparr> s'
      | (Inr None, s') \<Rightarrow> process userID idemKey fingerprint body hs s'))))"

definition store_and_reply ::
  "uuid \<Rightarrow> string \<Rightarrow> string \<Rightarrow> string \<Rightarrow> header \<Rightarrow> server \<Rightarrow> server reply" where
  "store_and_reply userID idemKey fingerprint responseBody hs s =
     (case on_world db_Begin s of
        (Inl e, s1) \<Rightarrow> http_Error hs ''Failed to begin transaction'' StatusInternalServerError s1
      | (Inr t, s1) \<Rightarrow>
     (case on_world (StoreIdempotency t userID idemKey fingerprint StatusOK responseBody) s1 of
        (Inl e, s2) \<Rightarrow> http_Error hs ''Failed to store idempotency key'' StatusInternalServerError s2
      | (Inr t', s2) \<Rightarrow>
     (case on_world (tx_Commit t') s2 of
        (Inl e, s3) \<Rightarrow> http_Error hs ''Failed to commit transaction'' StatusInternalServerError s3
      | (Inr _, s3) \<Rightarrow> json_reply hs responseBody s3)))"

definition process_topup ::
  "codec \<Rightarrow> draws \<Rightarrow> uuid \<Rightarrow> string \<Rightarrow> string \<Rightarrow> string \<Rightarrow> header \<Rightarrow> server \<Rightarrow> server reply" where
  "process_topup cd dr userID idemKey fingerprint body hs s =
     (case cd_topup_request cd body of
        None \<Rightarrow> http_Error hs ''Invalid request body'' StatusBadRequest s
      | Some req \<Rightarrow>
     (case on_world (TopUpUser (dr_journal dr) userID (treq_amount req)) s of
        (Inl e, s') \<Rightarrow>
          http_Error hs (''Failed to top up: '' @ cd_error_text cd e) StatusInternalServerError s'
      | (Inr account, s') \<Rightarrow>
     (case cd_topup_response cd \<lparr>tres_balance = acc_available account\<rparr> of
        None \<Rightarrow> http_Error hs ''Failed to marshal response'' StatusInternalServerError s'
      | Some responseBody \<Rightarrow> store_and_reply userID idemKey fingerprint responseBody hs s')))"

definition topupHandler :: "codec \<Rightarrow> draws \<Rightarrow> server handler" where
  "topupHandler cd dr = keyed_request cd dr (process_topup cd dr)"

definition process_order ::
  "codec \<Rightarrow> draws \<Rightarrow> uuid \<Rightarrow> string \<Rightarrow> string \<Rightarrow> string \<Rightarrow> header \<Rightarrow> server \<Rightarrow> server reply" where
  "process_order cd dr userID idemKey fingerprint body hs s =
     (case cd_order_request cd body of
        None \<Rightarrow> http_Error hs ''Invalid request body'' StatusBadRequest s
      | Some req \<Rightarrow>
     (case CreateOrder (dr_order dr) userID req (sv_orders s) of
        Panics p os \<Rightarrow> Crash p (s\<lparr>sv_orders := os\<rparr>)
      | Diverges os \<Rightarrow> Hang (s\<lparr>sv_orders := os\<rparr>)
      | Returns (Inl e) os \<Rightarrow>
          http_Error hs (''Failed to create order: '' @ cd_error_text cd e) StatusInternalServerError
            (s\<lparr>sv_orders := os\<rparr>)
      | Returns (Inr response) os \<Rightarrow>
     (case cd_order_response cd response of
        None \<Rightarrow> http_Error hs ''Failed to marshal response'' StatusInternalServerError (s\<lparr>sv_orders := os\<rparr>)
      | Some responseBody \<Rightarrow>
          store_and_reply userID idemKey fingerprint responseBody hs (s\<lparr>sv_orders := os\<rparr>))))"

definition createOrderHandler :: "codec \<Rightarrow> draws \<Rightarrow> server handler" where
  "createOrderHandler cd dr = keyed_request cd dr (process_order cd dr)"

section \<open>Reads\<close>

definition quotesHandler :: "codec \<Rightarrow> server handler" where
  "quotesHandler cd r hs s =
     (let symbol = first_value (rq_query r) ''symbol'' in
      if symbol = '''' then http_Error hs ''Symbol parameter required'' StatusBadRequest s
      else (case GetQuote symbol (os_quotes (sv_orders s)) of
              Inl e \<Rightarrow> http_Error hs (''Failed to get quote: '' @ cd_error_text cd e) StatusInternalServerError s
            | Inr q \<Rightarrow> json_reply hs (cd_quote cd q) s))"

definition getOrderHandler :: "codec \<Rightarrow> string \<Rightarrow> server handler" where
  "getOrderHandler cd id_var r hs s =
     (case cd_parse_uuid cd id_var of
        None \<Rightarrow> http_Error hs ''Invalid order ID'' StatusBadRequest s
      | Some orderID \<Rightarrow>
     (case on_world (GetOrder orderID) s of
        (Inl e, s') \<Rightarrow> http_Error hs ''Order not found'' StatusNotFound s'
      | (Inr order, s') \<Rightarrow> json_reply hs (cd_order cd order) s'))"

definition balance_of :: "account \<Rightarrow> account_balance" where
  "balance_of a =
     \<lparr>bal_currency = acc_currency a, bal_available = acc_available a, bal_hold = acc_hold a,
      bal_total = acc_available a + acc_hold a\<rparr>"

definition portfolio_of :: "account list \<Rightarrow> portfolio" where
  "portfolio_of accounts =
     \<lparr>pf_balances = map balance_of accounts, pf_positions = [],
      pf_pnl = \<lparr>pnl_realized = 0, pnl_unrealized = 0, pnl_total = 0\<rparr>\<rparr>"

definition portfolioHandler :: "codec \<Rightarrow> server handler" where
  "portfolioHandler cd r hs s =
     (case GetUserIDFromContext (rq_ctx r) of
        None \<Rightarrow> http_Error hs ''User not authenticated'' StatusUnauthorized s
      | Some userID \<Rightarrow>
     (case on_world (GetAccountsByUserID userID) s of
        (Inl e, s') \<Rightarrow> http_Error hs ''Failed to get accounts'' StatusInternalServerError s'
      | (Inr accounts, s') \<Rightarrow> json_reply hs (cd_portfolio cd (portfolio_of accounts)) s'))"

section \<open>Routes\<close>

datatype route =
    Health
  | Signup
  | Login
  | TopUp
  | Quotes
  | PlaceOrder
  | ReadOrder string
  | ReadPortfolio

fun handler_of :: "codec \<Rightarrow> crypto \<Rightarrow> draws \<Rightarrow> route \<Rightarrow> server handler" where
  "handler_of cd cr dr Health = healthHandler"
| "handler_of cd cr dr Signup = signupHandler cd cr dr"
| "handler_of cd cr dr Login = loginHandler cd cr dr"
| "handler_of cd cr dr TopUp = topupHandler cd dr"
| "handler_of cd cr dr Quotes = quotesHandler cd"
| "handler_of cd cr dr PlaceOrder = createOrderHandler cd dr"
| "handler_of cd cr dr (ReadOrder i) = getOrderHandler cd i"
| "handler_of cd cr dr ReadPortfolio = portfolioHandler cd"

fun path_of :: "route \<Rightarrow> string" where
  "path_of Health = ''/health''"
| "path_of Signup = ''/auth/signup''"
| "path_of Login = ''/auth/login''"
| "path_of TopUp = ''/api/fund/topup''"
| "path_of Quotes = ''/api/quotes''"
| "path_of PlaceOrder = ''/api/orders''"
| "path_of (ReadOrder i) = ''/api/orders/'' @ i"
| "path_of ReadPortfolio = ''/api/portfolio''"

fun method_of :: "route \<Rightarrow> string" where
  "method_of Health = ''GET''"
| "method_of Signup = ''POST''"
| "method_of Login = ''POST''"
| "method_of TopUp = ''POST''"
| "method_of Quotes = ''GET''"
| "method_of PlaceOrder = ''POST''"
| "method_of (ReadOrder i) = ''GET''"
| "method_of ReadPortfolio = ''GET''"

text \<open>One request on a route, through the middleware.\<close>

definition serve ::
  "codec \<Rightarrow> crypto \<Rightarrow> jwt_parse \<Rightarrow> draws \<Rightarrow> int \<Rightarrow> rate_env \<Rightarrow> limiter option \<Rightarrow> route \<Rightarrow> http_request \<Rightarrow>
     server \<Rightarrow> server reply" where
  "serve cd cr parse dr now ev limiter rt r s =
     middleware parse now ev limiter (handler_of cd cr dr rt) r (\<lambda>_. None) s"

section \<open>Replay\<close>

abbreviation server_db :: "server \<Rightarrow> db" where
  "server_db s \<equiv> w_db (os_world (sv_orders s))"

lemma on_world_eq:
  "on_world m s = (x, s') \<longleftrightarrow> m (os_world (sv_orders s)) = (x, os_world (sv_orders s')) \<and>
     s' = s\<lparr>sv_orders := (sv_orders s)\<lparr>os_world := os_world (sv_orders s')\<rparr>\<rparr>"
  by (auto simp: on_world_def split: prod.splits)

lemma on_worldD: "on_world m s = (x, s') \<Longrightarrow> m (os_world (sv_orders s)) = (x, os_world (sv_orders s'))"
  by (simp add: on_world_eq)

lemma http_Error_iff [simp]:
  "http_Error hs msg code s = Reply resp s' \<longleftrightarrow> s' = s \<and>
     resp = \<lparr>rs_code = code,
            rs_header = hs(''Content-Type'' \<mapsto> ''text/plain; charset=utf-8'',
                           ''X-Content-Type-Options'' \<mapsto> ''nosniff''),
            rs_body = msg @ [CHR 0x0A]\<rparr>"
  by (auto simp: http_Error_def)

lemma store_and_reply_ok:
  assumes "store_and_reply u key f body hs s = Reply resp s'" and "rs_code resp = 200"
  shows "key_stored u key f 200 (rs_body resp) (server_db s')"
proof -
  obtain t s1 t' s2 s3 where steps: "on_world db_Begin s = (Inr t, s1)"
    "on_world (StoreIdempotency t u key f StatusOK body) s1 = (Inr t', s2)"
    "on_world (tx_Commit t') s2 = (Inr (), s3)" and r: "json_reply hs body s3 = Reply resp s'"
    using assms by (auto simp: store_and_reply_def status_defs split: prod.splits sum.splits)
  have t: "t = []" using on_worldD [OF steps(1)]
    by (auto simp: db_Begin_def db_call_def Let_def split: list.splits if_splits)
  let ?k = "\<lparr>ik_user = u, ik_key = key, ik_fingerprint = f, ik_code = StatusOK, ik_body = body, ik_created_at = 0\<rparr>"
  have t': "t' = [InsertIdem ?k]" using on_worldD [OF steps(2)] t
    by (auto simp: StoreIdempotency_def CreateIdempotencyKey_def elim!: io_wrapE tx_ExecE)
  then have "db_apply (w_now (os_world (sv_orders s2))) (InsertIdem ?k) (server_db s2) = Inr (server_db s3)"
    using on_worldD [OF steps(3)] by (auto elim!: tx_CommitE split: sum.splits)
  then have "db_idem (server_db s3) =
      db_idem (server_db s2) @ [?k\<lparr>ik_created_at := w_now (os_world (sv_orders s2))\<rparr>]"
    by (auto simp: insert_idem_def split: if_splits dest!: sym [of _ "server_db s3"])
  moreover have "s' = s3" "rs_body resp = body" using r by (auto simp: json_reply_def)
  ultimately show ?thesis by (auto simp: key_stored_def StatusOK_def bexI)
qed

text \<open>
  A keyed request answered with 200 has its answer stored under its key: the body it sent, or the one
  whose rendering by the database it sent.
\<close>

definition answer_stored :: "codec \<Rightarrow> draws \<Rightarrow> http_request \<Rightarrow> http_response \<Rightarrow> server \<Rightarrow> bool" where
  "answer_stored cd dr r resp s \<longleftrightarrow>
     (\<exists>u body b. GetUserIDFromContext (rq_ctx r) = Some u \<and> rq_body r = Some body \<and>
        first_value (rq_header r) ''Idempotency-Key'' \<noteq> '''' \<and>
        key_stored u (first_value (rq_header r) ''Idempotency-Key'') (fingerprint_of (dr_visit dr) r body) 200
          b (server_db s) \<and> (rs_body resp = b \<or> rs_body resp = cd_jsonb cd b))"

lemma keyed_request_ok:
  assumes "keyed_request cd dr process r hs s = Reply resp s'" and "rs_code resp = 200"
    and proc: "\<And>u key f body hs s resp s'. process u key f body hs s = Reply resp s' \<Longrightarrow> rs_code resp = 200 \<Longrightarrow>
      key_stored u key f 200 (rs_body resp) (server_db s')"
  shows "answer_stored cd dr r resp s'"
proof -
  let ?key = "first_value (rq_header r) ''Idempotency-Key''"
  obtain u where u: "GetUserIDFromContext (rq_ctx r) = Some u"
    using assms(1,2) by (auto simp: keyed_request_def status_defs split: option.splits)
  have key: "?key \<noteq> ''''" using assms(1,2) u by (auto simp: keyed_request_def status_defs Let_def)
  obtain body where body: "rq_body r = Some body"
    using assms(1,2) u key by (auto simp: keyed_request_def status_defs Let_def split: option.splits)
  let ?f = "fingerprint_of (dr_visit dr) r body"
  obtain x s1 where c: "on_world (CheckIdempotency (cd_jsonb cd) u ?key ?f) s = (x, s1)" by (metis prod.exhaust)
  have "\<exists>b. key_stored u ?key ?f 200 b (server_db s') \<and> (rs_body resp = b \<or> rs_body resp = cd_jsonb cd b)"
  proof (cases x)
    case (Inl e)
    then show ?thesis using assms(1,2) u key body c by (auto simp: keyed_request_def status_defs Let_def)
  next
    case (Inr m)
    show ?thesis
    proof (cases m)
      case None
      then have "process u ?key ?f body hs s1 = Reply resp s'"
        using assms(1) u key body c Inr by (simp add: keyed_request_def Let_def)
      from proc [OF this assms(2)] show ?thesis by blast
    next
      case (Some k)
      have "server_db s1 = server_db s"
        using CheckIdempotency_reads [unfolded io_reads_def, rule_format, OF on_worldD [OF c]] .
      moreover have "\<exists>b. key_stored u ?key ?f (ik_code k) b (server_db s) \<and> ik_body k = cd_jsonb cd b"
        using check_found on_worldD [OF c] Inr Some by blast
      moreover have "s' = s1 \<and> rs_code resp = ik_code k \<and> rs_body resp = ik_body k"
        using assms(1) u key body c Inr Some by (auto simp: keyed_request_def Let_def)
      ultimately show ?thesis using assms(2) by auto
    qed
  qed
  then show ?thesis using u key body unfolding answer_stored_def by blast
qed

lemma keyed_request_replays:
  assumes "GetUserIDFromContext (rq_ctx r) = Some u" and "rq_body r = Some body"
    and "first_value (rq_header r) ''Idempotency-Key'' \<noteq> ''''"
    and "key_stored u (first_value (rq_header r) ''Idempotency-Key'') (fingerprint_of (dr_visit dr) r body) code
      b (server_db s)"
    and "db_wf (server_db s)" and "w_faults (os_world (sv_orders s)) = []"
  shows "keyed_request cd dr process r hs s = Reply \<lparr>rs_code = code, rs_header = hs, rs_body = cd_jsonb cd b\<rparr> s"
proof -
  obtain k where "CheckIdempotency (cd_jsonb cd) u (first_value (rq_header r) ''Idempotency-Key'')
      (fingerprint_of (dr_visit dr) r body) (os_world (sv_orders s)) = (Inr (Some k), os_world (sv_orders s))"
    "ik_code k = code" "ik_body k = cd_jsonb cd b"
    using check_stored [OF assms(4-6)] by blast
  then show ?thesis using assms(1-3) by (simp add: keyed_request_def Let_def on_world_def)
qed

lemma topup_stores:
  "topupHandler cd dr r hs s = Reply resp s' \<Longrightarrow> rs_code resp = 200 \<Longrightarrow> answer_stored cd dr r resp s'"
  unfolding topupHandler_def
  by (erule (1) keyed_request_ok)
    (auto simp: process_topup_def status_defs split: option.splits prod.splits sum.splits intro: store_and_reply_ok)

lemma order_stores:
  "createOrderHandler cd dr r hs s = Reply resp s' \<Longrightarrow> rs_code resp = 200 \<Longrightarrow> answer_stored cd dr r resp s'"
  unfolding createOrderHandler_def
  by (erule (1) keyed_request_ok)
    (auto simp: process_order_def status_defs split: option.splits outcome.splits sum.splits intro: store_and_reply_ok)

text \<open>
  A top-up or an order that was answered with 200, sent again in any later state that still holds the
  stored keys, with a fingerprint that comes out the same, gets the same status and the body as the
  database renders it, and changes nothing at all. PostgreSQL renders what it has rendered unchanged.
\<close>

definition jsonb_documented :: "jsonb \<Rightarrow> bool" where
  "jsonb_documented jsonb \<longleftrightarrow> (\<forall>b. jsonb (jsonb b) = jsonb b)"

lemma repeated_post_replays:
  assumes "rt \<in> {TopUp, PlaceOrder}"
    and "handler_of cd cr dr rt r hs s = Reply resp s'" and "rs_code resp = 200"
    and "\<And>body. fingerprint_of (dr_visit dr2) r body = fingerprint_of (dr_visit dr) r body"
    and "set (db_idem (server_db s')) \<subseteq> set (db_idem (server_db s2))" and "db_wf (server_db s2)"
    and "w_faults (os_world (sv_orders s2)) = []" and "jsonb_documented (cd_jsonb cd)"
  shows "handler_of cd cr dr2 rt r hs2 s2 =
    Reply \<lparr>rs_code = 200, rs_header = hs2, rs_body = cd_jsonb cd (rs_body resp)\<rparr> s2"
proof -
  have "answer_stored cd dr r resp s'"
    using assms(1-3) topup_stores [of cd dr r hs s resp s'] order_stores [of cd dr r hs s resp s'] by auto
  then obtain u body b where k: "GetUserIDFromContext (rq_ctx r) = Some u" "rq_body r = Some body"
    "first_value (rq_header r) ''Idempotency-Key'' \<noteq> ''''"
    "key_stored u (first_value (rq_header r) ''Idempotency-Key'') (fingerprint_of (dr_visit dr2) r body) 200
      b (server_db s2)" and b: "rs_body resp = b \<or> rs_body resp = cd_jsonb cd b"
    using key_stored_mono [OF _ assms(5)] unfolding assms(4) answer_stored_def by blast
  have "cd_jsonb cd (rs_body resp) = cd_jsonb cd b" using b assms(8) by (auto simp: jsonb_documented_def)
  then show ?thesis
    using assms(1) keyed_request_replays [OF k assms(6,7)] by (auto simp: topupHandler_def createOrderHandler_def)
qed

section \<open>A first request\<close>

definition with_db :: "db \<Rightarrow> server \<Rightarrow> server" where
  "with_db d s = s\<lparr>sv_orders := (sv_orders s)\<lparr>os_world := (os_world (sv_orders s))\<lparr>w_db := d\<rparr>\<rparr>\<rparr>"

lemma with_db_sel [simp]:
  "server_db (with_db d s) = d" "w_faults (os_world (sv_orders (with_db d s))) = w_faults (os_world (sv_orders s))"
  "with_db d (with_db d2 s) = with_db d s"
  by (simp_all add: with_db_def)

lemma store_and_reply_first:
  assumes "w_faults (os_world (sv_orders s)) = []" and "has_user (server_db s) u"
    and "\<forall>k \<in> set (db_idem (server_db s)). (ik_user k, ik_key k) \<noteq> (u, key)"
  shows "store_and_reply u key f body hs s = json_reply hs body (with_db ((server_db s)\<lparr>db_idem :=
      db_idem (server_db s) @ [\<lparr>ik_user = u, ik_key = key, ik_fingerprint = f, ik_code = StatusOK, ik_body = body,
        ik_created_at = w_now (os_world (sv_orders s))\<rparr>]\<rparr>) s)"
proof -
  have "(u, key) \<notin> (\<lambda>k. (ik_user k, ik_key k)) ` set (db_idem (server_db s))"
    using assms(3) by force
  then show ?thesis
    using assms(1,2)
    by (simp add: store_and_reply_def on_world_def StoreIdempotency_def CreateIdempotencyKey_def io_wrap_def
        insert_idem_def with_db_def)
qed

lemma balances_idem [simp]: "balances (d\<lparr>db_idem := ks\<rparr>) = balances d"
  and account_of_idem [simp]: "account_of (d\<lparr>db_idem := ks\<rparr>) u c = account_of d u c"
  and has_account_idem [simp]: "has_account (d\<lparr>db_idem := ks\<rparr>) i = has_account d i"
  by (simp_all add: balances_def account_at_def account_of_def has_account_def fun_eq_iff)

text \<open>A top-up that is booked continues with storing its answer.\<close>

lemma process_topup_booked:
  assumes "cd_topup_request cd body = Some req"
    and "TopUpUser (dr_journal dr) u (treq_amount req) (os_world (sv_orders s)) =
      (Inr x, (os_world (sv_orders s))\<lparr>w_db := d\<rparr>)"
    and "cd_topup_response cd \<lparr>tres_balance = acc_available x\<rparr> = Some b"
  shows "process_topup cd dr u key f body hs s = store_and_reply u key f b hs (with_db d s)"
  using assms by (simp add: process_topup_def on_world_def with_db_def)

lemma check_fresh:
  assumes "w_faults w = []" and "\<forall>k \<in> set (db_idem (w_db w)). (ik_user k, ik_key k) \<noteq> (u, key)"
  shows "CheckIdempotency jsonb u key f w = (Inr None, w)"
proof -
  have "find (\<lambda>k. ik_user k = u \<and> ik_key k = key) (db_idem (w_db w)) = None"
    using assms(2) by (auto simp: find_None_iff)
  then show ?thesis using assms(1)
    by (simp add: CheckIdempotency_def GetIdempotencyKey_def io_bind_def db_QueryRow_def db_call_def io_return_def)
qed

lemma keyed_request_fresh:
  assumes "GetUserIDFromContext (rq_ctx r) = Some u" and "rq_body r = Some body"
    and "first_value (rq_header r) ''Idempotency-Key'' = key" and "key \<noteq> ''''"
    and "w_faults (os_world (sv_orders s)) = []"
    and "\<forall>k \<in> set (db_idem (server_db s)). (ik_user k, ik_key k) \<noteq> (u, key)"
  shows "keyed_request cd dr process r hs s = process u key (fingerprint_of (dr_visit dr) r body) body hs s"
  using assms(1-4) check_fresh [OF assms(5,6)] by (simp add: keyed_request_def Let_def on_world_def)

text \<open>A top-up with a new key credits the account, stores its answer and sends it.\<close>

lemma topup_runs:
  assumes "GetUserIDFromContext (rq_ctx r) = Some u" and "rq_body r = Some body"
    and "first_value (rq_header r) ''Idempotency-Key'' = key" and "key \<noteq> ''''"
    and "w_faults (os_world (sv_orders s)) = []" and "ledger_ok (server_db s)"
    and "\<forall>k \<in> set (db_idem (server_db s)). (ik_user k, ik_key k) \<noteq> (u, key)"
    and "cd_topup_request cd body = Some req" and "stored (treq_amount req)" and "0 < treq_amount req"
    and "account_of (server_db s) u CurrencyUSD = Some a" and "has_account (server_db s) uuid_nil"
    and "acc_available a + treq_amount req < 10 ^ 20"
    and "cd_topup_response cd \<lparr>tres_balance = acc_available a + treq_amount req\<rparr> = Some b"
  shows "\<exists>s'. topupHandler cd dr r hs s = json_reply hs b s' \<and> w_faults (os_world (sv_orders s')) = [] \<and>
    balances (server_db s') =
      (balances (server_db s))(acc_id a \<mapsto> (acc_available a + treq_amount req, acc_hold a))"
proof -
  let ?w = "os_world (sv_orders s)" and ?k = "treq_amount req"
  obtain d where t: "TopUpUser (dr_journal dr) u ?k ?w =
      (Inr (a\<lparr>acc_available := acc_available a + ?k\<rparr>), ?w\<lparr>w_db := d\<rparr>)"
    using TopUpUser_works [OF assms(5,6,11,12,9,10,13)] by blast
  have wf: "db_wf (server_db s)" using assms(6) by (simp add: ledger_ok_def)
  have bal: "balances d = (balances (server_db s))(acc_id a \<mapsto> (acc_available a + ?k, acc_hold a))"
    using topup_balances [OF t wf] assms(9,11) by (auto simp: stored_numeric)
  obtain d1 d2 e1 e2 where i: "insert_entry (w_now ?w) e1 (server_db s) = Inr d1"
      "insert_entry (w_now ?w) e2 d1 = Inr d2"
      "update_account (acc_id a) (acc_available a + ?k) (acc_hold a) d2 = Inr d"
    using TopUpUser_Inr [OF t] assms(11) by auto
  have rows: "db_users d = db_users (server_db s)" "db_idem d = db_idem (server_db s)"
    unfolding update_account_Inr [OF i(3)] using insert_entry_Inr [OF i(1)] insert_entry_Inr [OF i(2)] by simp_all
  have "has_user (server_db s) u"
    using account_of_wf(1,2) [OF wf assms(11)] wf by (auto simp: db_wf_def account_at_def find_Some_iff)
  then have "has_user d u" using rows by (simp add: has_user_def)
  then have "process_topup cd dr u key f body hs s = json_reply hs b (with_db (d\<lparr>db_idem := db_idem d @
      [\<lparr>ik_user = u, ik_key = key, ik_fingerprint = f, ik_code = StatusOK, ik_body = b,
        ik_created_at = w_now (os_world (sv_orders (with_db d s)))\<rparr>]\<rparr>) s)" for f
    using process_topup_booked [OF assms(8) t] store_and_reply_first [of "with_db d s" u key f b hs] assms(5,7,14) rows
    by simp
  then show ?thesis
    using keyed_request_fresh [OF assms(1-5,7)] bal assms(5)
    by (auto simp: topupHandler_def)
qed

end
