(* ===== verification/Schema.thy ===== *)
theory Schema
  imports Database "HOL-Library.Sublist"
begin

text \<open>
  What the statements of \<open>internal/database\<close> can and cannot do to the tables of the schema. There is no
  \<open>DELETE\<close>, and the only two \<open>UPDATE\<close>s set the balances of an account and the fill and status of an
  order: every table grows at its end, and the rest of a row is never changed.
\<close>

section \<open>Growing tables\<close>

text \<open>The columns no statement updates.\<close>

definition acc_ident :: "account \<Rightarrow> uuid \<times> uuid \<times> currency" where
  "acc_ident a = (acc_id a, acc_user a, acc_currency a)"

definition ord_ident :: "order \<Rightarrow> order" where
  "ord_ident r = r\<lparr>ord_filled := 0, ord_status := OrderStatusNew\<rparr>"

definition grows :: "db \<Rightarrow> db \<Rightarrow> bool" where
  "grows d d' \<longleftrightarrow>
     prefix (db_users d) (db_users d') \<and> prefix (db_entries d) (db_entries d') \<and>
     prefix (db_idem d) (db_idem d') \<and>
     prefix (map acc_ident (db_accounts d)) (map acc_ident (db_accounts d')) \<and>
     prefix (map ord_ident (db_orders d)) (map ord_ident (db_orders d'))"

lemma grows_refl [simp]: "grows d d"
  by (simp add: grows_def)

lemma grows_trans [trans]: "grows d d' \<Longrightarrow> grows d' d'' \<Longrightarrow> grows d d''"
  unfolding grows_def by (blast intro: prefix_order.trans)

lemma ident_updates [simp]:
  "acc_ident (if b then set_balances x y a else a) = acc_ident a"
  "ord_ident (if b then r\<lparr>ord_filled := f, ord_status := s\<rparr> else r) = ord_ident r"
  by (simp_all add: acc_ident_def ord_ident_def set_balances_def)

lemma db_apply_grows: "db_apply now wr d = Inr d' \<Longrightarrow> grows d d'"
  by (cases wr)
     (auto simp: grows_def insert_user_def insert_entry_def update_account_def insert_order_def
        update_order_def insert_idem_def o_def split: sum.splits if_split_asm)

lemma db_writes_grows: "db_writes d d' \<Longrightarrow> grows d d'"
  by (induction rule: db_writes.induct) (auto intro: grows_trans db_apply_grows)

lemma db_writes_wf: "db_writes d d' \<Longrightarrow> db_wf d \<Longrightarrow> db_wf d'"
  by (rule db_writes_keep [where P = db_wf]) (auto intro: db_apply_wf)

text \<open>What growing means for a row.\<close>

lemma prefix_map_ex:
  assumes "prefix (map f xs) (map f ys)" "x \<in> set xs"
  shows "\<exists>y \<in> set ys. f y = f x"
proof -
  have "f x \<in> f ` set ys" using set_mono_prefix [OF assms(1)] assms(2) by auto
  then show ?thesis by auto
qed

lemma grows_account:
  "grows d d' \<Longrightarrow> a \<in> set (db_accounts d) \<Longrightarrow> \<exists>a' \<in> set (db_accounts d'). acc_ident a' = acc_ident a"
  by (rule prefix_map_ex) (simp_all add: grows_def)

lemma grows_order:
  "grows d d' \<Longrightarrow> r \<in> set (db_orders d) \<Longrightarrow> \<exists>r' \<in> set (db_orders d'). ord_ident r' = ord_ident r"
  by (rule prefix_map_ex) (simp_all add: grows_def)

lemma grows_has_account: "grows d d' \<Longrightarrow> has_account d i \<Longrightarrow> has_account d' i"
  by (auto simp: has_account_def acc_ident_def dest!: grows_account intro: rev_image_eqI)

lemma grows_entries: "grows d d' \<Longrightarrow> \<exists>es. db_entries d' = db_entries d @ es"
  by (auto simp: grows_def prefix_def)

end
