(* ===== verification/System.thy ===== *)
theory System
  imports Server Schema
begin

text \<open>
  The whole server as a state machine: what one request does to the tables and the books, through
  every handler and the middleware, and the states a database made by the migrations can reach.
\<close>

section \<open>Top-ups, sign-ups and stored keys are trading steps\<close>

lemma topup_trading: "io_steps trading (TopUpUser jid u k)"
proof (rule trading.steps_atomic [OF TopUpUser_atomic])
  fix w x w' assume t: "TopUpUser jid u k w = (Inr x, w')"
  show "trading w w'" unfolding trading_def
  proof
    assume ok: "ledger_ok (w_db w)"
    then have wf: "db_wf (w_db w)" by (simp add: ledger_ok_def)
    obtain a d1 d2 where a: "account_of (w_db w) u CurrencyUSD = Some a"
      and i1: "insert_entry (w_now w) (mk_entry jid (acc_id a) k CurrencyUSD ''TOPUP'' jid) (w_db w) = Inr d1"
      and i2: "insert_entry (w_now w) (mk_entry jid uuid_nil (- k) CurrencyUSD ''TOPUP'' jid) d1 = Inr d2"
      and up: "update_account (acc_id a) (acc_available a + k) (acc_hold a) d2 = Inr (w_db w')"
      using TopUpUser_Inr [OF t] by blast
    have bal: "balances (w_db w) (acc_id a) = Some (acc_available a, acc_hold a)"
      by (rule account_of_wf(4) [OF wf a])
    have "balances d2 = balances (w_db w)" using journal_pair(2) [OF i1] i2 by simp
    then have "holds_kept (w_db w) (w_db w')"
      using holds_kept_update [OF up, of "acc_available a" "acc_hold a"] bal balances_numeric [OF wf bal]
      by (simp add: is_numeric_def holds_kept_def)
    then show "ledger_ok (w_db w') \<and> holds_kept (w_db w) (w_db w')"
      using topup_keeps_ok [OF t ok] by blast
  qed
qed

lemma insert_idem_trading:
  assumes "insert_idem now k (w_db w) = Inr (w_db w')"
  shows "trading w w'"
proof -
  have d: "db_accounts (w_db w') = db_accounts (w_db w)" "db_entries (w_db w') = db_entries (w_db w)"
    using assms by (auto simp: insert_idem_def split: if_splits dest!: sym [of _ "w_db w'"])
  then have "balances (w_db w') = balances (w_db w)" "journal_sum (w_db w') = journal_sum (w_db w)"
    by (auto simp: balances_def account_at_def journal_sum_def fun_eq_iff)
  then show ?thesis using insert_idem_wf [OF assms]
    by (auto simp: trading_def ledger_ok_def nonneg_balances_def journals_balanced_def holds_kept_def)
qed

lemma find_append: "find P (xs @ ys) = (case find P xs of None \<Rightarrow> find P ys | Some x \<Rightarrow> Some x)"
  by (induction xs) auto

lemma insert_user_Inr:
  assumes "insert_user u a1 a2 a3 d = Inr d'"
  shows "db_accounts d' = db_accounts d @ [new_account a1 (usr_id u) CurrencyUSD,
      new_account a2 (usr_id u) CurrencyBTC, new_account a3 (usr_id u) CurrencyETH]"
    and "db_users d' = db_users d @ [u]" and "db_entries d' = db_entries d"
    and "db_orders d' = db_orders d" and "db_idem d' = db_idem d"
  using assms by (auto simp: insert_user_def split: if_splits dest!: sym [of _ d'])

lemma insert_user_trading:
  assumes "insert_user u a1 a2 a3 (w_db w) = Inr (w_db w')"
  shows "trading w w'"
proof -
  have old: "balances (w_db w') i = Some (x, y)" if "balances (w_db w) i = Some (x, y)" for i x y
    using that insert_user_Inr(1) [OF assms]
    by (auto simp: balances_def account_at_def find_append split: option.splits)
  have cases: "balances (w_db w') i = Some (x, y) \<Longrightarrow> balances (w_db w) i = Some (x, y) \<or> x = 0 \<and> y = 0" for i x y
    using insert_user_Inr(1) [OF assms]
    by (auto simp: balances_def account_at_def find_append new_account_def split: option.splits if_splits)
  have "journal_sum (w_db w') = journal_sum (w_db w)"
    using insert_user_Inr(3) [OF assms] by (simp add: journal_sum_def fun_eq_iff)
  moreover have "holds_kept (w_db w) (w_db w')" using old by (fastforce simp: holds_kept_def)
  moreover have "nonneg_balances (w_db w) \<Longrightarrow> nonneg_balances (w_db w')"
    using cases by (fastforce simp: nonneg_balances_def)
  ultimately show ?thesis using insert_user_wf [OF assms]
    by (auto simp: trading_def ledger_ok_def journals_balanced_def)
qed

lemma CreateUser_Inr:
  assumes "CreateUser i a1 a2 a3 email hash w = (Inr u, w')"
  shows "u = \<lparr>usr_id = i, usr_email = email, usr_password_hash = hash, usr_created_at = w_now w\<rparr> \<and>
    insert_user u a1 a2 a3 (w_db w) = Inr (w_db w')"
  using assms unfolding CreateUser_def Let_def by (elim io_wrapE) (auto elim!: io_bindE db_ExecE)

lemma CreateUser_atomic: "io_atomic (CreateUser i a1 a2 a3 email hash)"
proof -
  have "io_atomic (io_bind (db_Exec (InsertUser u a1 a2 a3)) (\<lambda>_. io_return u))" for u
    by (intro io_rules)
  then show ?thesis
    unfolding CreateUser_def by (intro io_rules) (simp add: io_atomic_def Let_def)
qed

lemma CreateUser_trading: "io_steps trading (CreateUser i a1 a2 a3 email hash)"
  using CreateUser_Inr insert_user_trading by (intro trading.steps_atomic CreateUser_atomic) blast

lemma key_commit_Inr: "tx_Commit [InsertIdem k] w = (Inr x, w') \<Longrightarrow> insert_idem (w_now w) k (w_db w) = Inr (w_db w')"
  by (auto elim!: tx_CommitE split: sum.splits)

lemma key_commit_trading: "io_steps trading (tx_Commit [InsertIdem k])"
  using key_commit_Inr insert_idem_trading by (intro trading.steps_atomic io_rules) blast

section \<open>One request\<close>

fun reply_state :: "'s reply \<Rightarrow> 's" where
  "reply_state (Reply resp s) = s"
| "reply_state (Crash p s) = s"
| "reply_state (Hang s) = s"

text \<open>
  A request moves the database by a relation that its operations keep, and keeps the books well formed;
  \<open>str\<close> is the rendering of prices, the same in every request.
\<close>

definition advances :: "(world \<Rightarrow> world \<Rightarrow> bool) \<Rightarrow> (decimal \<Rightarrow> string) \<Rightarrow> server \<Rightarrow> server \<Rightarrow> bool" where
  "advances R str s s' \<longleftrightarrow> R (os_world (sv_orders s)) (os_world (sv_orders s')) \<and>
     (books_wf str (sv_orders s) \<longrightarrow> books_wf str (sv_orders s'))"

text \<open>\<open>gen_random_uuid()\<close> never draws the nil UUID.\<close>

definition drawn :: "(decimal \<Rightarrow> string) \<Rightarrow> draws \<Rightarrow> bool" where
  "drawn str dr \<longleftrightarrow> ev_str (dr_order dr) = str \<and>
     (case dr_accounts dr of (a1, a2, a3) \<Rightarrow> uuid_nil \<notin> {a1, a2, a3})"

locale server_steps = table_relation +
  assumes order_step: "outcome_all (\<lambda>os'. R (os_world os) (os_world os')) (CreateOrder ev u req os)"
    and topup_step: "io_steps R (TopUpUser jid u k)"
    and user_step: "uuid_nil \<notin> {a1, a2, a3} \<Longrightarrow> io_steps R (CreateUser i a1 a2 a3 email hash)"
    and key_step: "io_steps R (tx_Commit [InsertIdem key])"
begin

lemma advances_refl [simp]: "advances R str s s"
  by (simp add: advances_def step_refl)

lemma advances_trans: "advances R str s s' \<Longrightarrow> advances R str s' s'' \<Longrightarrow> advances R str s s''"
  unfolding advances_def using step_trans by blast

lemma advances_world: "on_world m s = (x, s') \<Longrightarrow> io_steps R m \<Longrightarrow> advances R str s s'"
  by (auto simp: on_world_def advances_def dest: io_stepsD split: prod.splits)

lemma advances_read: "on_world m s = (x, s') \<Longrightarrow> io_reads m \<Longrightarrow> advances R str s s'"
  by (rule advances_world [OF _ steps_reads])

lemma reply_http_Error [simp]: "reply_state (http_Error hs msg code s) = s"
  and reply_json [simp]: "reply_state (json_reply hs body s) = s"
  by (simp_all add: http_Error_def json_reply_def)

lemma send_tokens_state [simp]: "reply_state (send_tokens cd cr dr user hs s) = s"
  by (auto simp: send_tokens_def split: sum.split)

lemma store_and_reply_step: "advances R str s (reply_state (store_and_reply u key f body hs s))"
proof -
  have reads: "io_reads db_Begin" "io_reads (StoreIdempotency t u key f StatusOK body)" for t
    unfolding StoreIdempotency_def CreateIdempotencyKey_def by (intro io_rules)+
  have commit: "advances R str s2 s3"
    if b: "on_world db_Begin s = (Inr t, s1)"
      and st: "on_world (StoreIdempotency t u key f StatusOK body) s1 = (Inr t', s2)"
      and c: "on_world (tx_Commit t') s2 = (x, s3)" for t s1 t' s2 x s3
  proof -
    have "t = []" using on_worldD [OF b] by (auto elim: db_BeginE)
    then obtain k where "t' = [InsertIdem k]"
      using on_worldD [OF st] by (auto simp: StoreIdempotency_def CreateIdempotencyKey_def elim!: io_wrapE tx_ExecE)
    then show ?thesis using advances_world [OF c] key_step by blast
  qed
  note beg = advances_read [OF _ reads(1)] and store = advances_read [OF _ reads(2)]
  show ?thesis
    unfolding store_and_reply_def
    by (auto split: prod.split sum.split
        intro: beg advances_trans [OF beg store] advances_trans [OF advances_trans [OF beg store] commit])
qed

lemma keyed_request_step:
  assumes "\<And>u key f body s. advances R str s (reply_state (process u key f body hs s))"
  shows "advances R str s (reply_state (keyed_request cd dr process r hs s))"
proof -
  have "advances R str s (reply_state
      (case on_world (CheckIdempotency (cd_jsonb cd) u key f) s of
         (Inl e, s') \<Rightarrow> http_Error hs msg code s'
       | (Inr (Some k), s') \<Rightarrow> Reply \<lparr>rs_code = ik_code k, rs_header = hs, rs_body = ik_body k\<rparr> s'
       | (Inr None, s') \<Rightarrow> process u key f body hs s'))" for u key f body msg code
  proof -
    obtain x s1 where c: "on_world (CheckIdempotency (cd_jsonb cd) u key f) s = (x, s1)" by (metis prod.exhaust)
    have "advances R str s s1" using advances_read [OF c CheckIdempotency_reads] .
    then show ?thesis using advances_trans [OF _ assms] by (auto simp: c split: sum.split option.split)
  qed
  then show ?thesis by (auto simp: keyed_request_def Let_def split: option.split)
qed

lemma process_topup_step: "advances R str s (reply_state (process_topup cd dr u key f body hs s))"
proof (cases "cd_topup_request cd body")
  case (Some req)
  obtain x s1 where c: "on_world (TopUpUser (dr_journal dr) u (treq_amount req)) s = (x, s1)"
    by (metis prod.exhaust)
  have "advances R str s s1" by (rule advances_world [OF c topup_step])
  then show ?thesis using advances_trans [OF _ store_and_reply_step]
    by (auto simp: process_topup_def Some c split: sum.split option.split)
qed (simp add: process_topup_def)

lemma process_order_step:
  assumes "ev_str (dr_order dr) = str"
  shows "advances R str s (reply_state (process_order cd dr u key f body hs s))"
proof (cases "cd_order_request cd body")
  case (Some req)
  have "outcome_all (\<lambda>os. advances R str s (s\<lparr>sv_orders := os\<rparr>)) (CreateOrder (dr_order dr) u req (sv_orders s))"
    using order_step [of "sv_orders s" "dr_order dr" u req]
      CreateOrder_books [of "dr_order dr" "sv_orders s" u req] assms
    by (cases "CreateOrder (dr_order dr) u req (sv_orders s)") (auto simp: advances_def)
  then show ?thesis using advances_trans [OF _ store_and_reply_step]
    by (cases "CreateOrder (dr_order dr) u req (sv_orders s)")
      (auto simp: process_order_def Some split: sum.split option.split)
qed (simp add: process_order_def)

text \<open>Sign-up, login and the reads.\<close>

lemma signup_step:
  assumes "drawn str dr"
  shows "advances R str s (reply_state (signupHandler cd cr dr r hs s))"
proof -
  obtain a1 a2 a3 where a: "dr_accounts dr = (a1, a2, a3)" by (metis prod.exhaust)
  have "io_steps R (CreateUser i a1 a2 a3 email hash)" for i email hash
    using assms a by (intro user_step) (simp add: drawn_def)
  then show ?thesis
    by (auto simp: signupHandler_def a split: option.split sum.split prod.split intro: advances_world)
qed

lemma login_step: "advances R str s (reply_state (loginHandler cd cr dr r hs s))"
proof -
  have "io_reads (GetUserByEmail email)" for email by (rule io_rules)
  from advances_read [OF _ this] show ?thesis
    by (auto simp: loginHandler_def split: option.split sum.split prod.split bool.split)
qed

lemma read_handler_steps:
  "advances R str s (reply_state (healthHandler r hs s))"
  "advances R str s (reply_state (quotesHandler cd r hs s))"
  "advances R str s (reply_state (getOrderHandler cd i r hs s))"
  "advances R str s (reply_state (portfolioHandler cd r hs s))"
proof -
  have "io_reads (GetOrder j)" "io_reads (GetAccountsByUserID u)" for j u
    unfolding GetOrder_def by (intro io_rules)+
  note reads = this [THEN advances_read [rotated]]
  show "advances R str s (reply_state (getOrderHandler cd i r hs s))"
    "advances R str s (reply_state (portfolioHandler cd r hs s))"
    using reads by (auto simp: getOrderHandler_def portfolioHandler_def split: option.split sum.split prod.split)
qed (auto simp: healthHandler_def quotesHandler_def Let_def split: sum.split)

lemma handler_step:
  assumes "drawn str dr"
  shows "advances R str s (reply_state (handler_of cd cr dr rt r hs s))"
  by (cases rt) (simp_all add: topupHandler_def createOrderHandler_def keyed_request_step process_topup_step
      process_order_step signup_step [OF assms] login_step read_handler_steps assms [unfolded drawn_def])

text \<open>The middleware only touches Redis.\<close>

lemma redis_step: "advances R str s (s\<lparr>sv_redis := rd\<rparr>)"
  by (simp add: advances_def step_refl)

lemma rate_middleware_step:
  assumes "\<And>r hs s. advances R str s (reply_state (h r hs s))"
  shows "advances R str s (reply_state (RateLimitMiddleware ev l h r hs s))"
  using assms advances_trans [OF redis_step assms] redis_step
  by (auto simp: RateLimitMiddleware_def Let_def split: option.split sum.split prod.split)

lemma serve_step:
  assumes "drawn str dr"
  shows "advances R str s (reply_state (serve cd cr parse dr now ev limiter rt r s))"
proof -
  have cors: "advances R str s (reply_state (corsMiddleware (handler_of cd cr dr rt) r hs s))" for r hs s
    by (simp add: corsMiddleware_def Let_def handler_step [OF assms])
  have "advances R str s (reply_state (after_auth ev limiter (handler_of cd cr dr rt) r hs s))" for r hs s
    using cors rate_middleware_step by (simp add: after_auth_def split: option.split)
  then show ?thesis
    by (auto simp: serve_def middleware_def AuthMiddleware_def Let_def split: sum.split)
qed

end

interpretation trading_server: server_steps trading
  by unfold_locales
    (rule trading_order.CreateOrder_step [OF TrueI] topup_trading CreateUser_trading key_commit_trading | assumption)+

interpretation writes_server: server_steps writes
  by unfold_locales
    (rule writes_order.CreateOrder_step [OF TrueI] ledger_writes writes_repo writes_prims)+

section \<open>Restarts\<close>

lemma load_book_wf:
  "load_book str rs (mem, ob) = Inr (mem', ob') \<Longrightarrow> ob_wf str mem ob \<Longrightarrow>
    ob_wf str mem' ob' \<and> (\<exists>xs. mem' = mem @ xs)"
proof (induction rs arbitrary: mem ob)
  case (Cons r rs)
  let ?mem = "mem @ [convertToBookOrder r]"
  obtain ob1 where add: "ob_AddOrder str ?mem (length mem) ob = Inr ob1"
    and rest: "load_book str rs (?mem, ob1) = Inr (mem', ob')"
    using Cons.prems(1) by (auto simp: Let_def split: sum.splits)
  have "ob_wf str ?mem ob1" using ob_add_wf [OF add ob_wf_grow [OF Cons.prems(2)]] by simp
  with Cons.IH [OF rest] show ?case by auto
qed auto

lemma loadOrders_wf:
  "books_wf str s \<Longrightarrow>
    outcome_all (\<lambda>s'. books_wf str s' \<and> w_db (os_world s') = w_db (os_world s)) (loadOrdersIntoBooks str syms s)"
proof (induction syms arbitrary: s)
  case (Cons sy syms)
  obtain x w' where q: "GetActiveOrdersBySymbol sy (os_world s) = (x, w')" by (metis prod.exhaust)
  have w': "w_db w' = w_db (os_world s)"
    using io_reads_repo(11) q unfolding io_reads_def by blast
  show ?case
  proof (cases x)
    case (Inl e)
    then show ?thesis using Cons.IH [of "s\<lparr>os_world := w'\<rparr>"] Cons.prems q w' by simp
  next
    case (Inr rows)
    show ?thesis
    proof (cases "os_books s sy")
      case None
      then show ?thesis using Cons.IH [of "s\<lparr>os_world := w'\<rparr>"] Cons.prems q w' Inr by simp
    next
      case (Some ob)
      show ?thesis
      proof (cases "load_book str rows (os_mem s, ob)")
        case (Inl p)
        then show ?thesis using Cons.prems q w' Inr Some by simp
      next
        case b: (Inr b)
        obtain mem' ob' where b': "b = (mem', ob')" by (metis prod.exhaust)
        have "ob_wf str (os_mem s) ob" using Cons.prems Some by (simp add: books_wf_def)
        then obtain xs where wf: "ob_wf str mem' ob'" "mem' = os_mem s @ xs"
          using load_book_wf b b' by blast
        let ?s = "s\<lparr>os_world := w', os_mem := mem', os_books := (os_books s)(sy \<mapsto> ob')\<rparr>"
        have "books_wf str ?s"
          using Cons.prems wf ob_wf_grow [of str "os_mem s" _ xs] by (auto simp: books_wf_def)
        then show ?thesis using Cons.IH [of ?s] q w' Inr Some b b' by simp
      qed
    qed
  qed
qed simp

lemma NewService_wf:
  "outcome_all (\<lambda>s'. books_wf str s' \<and> w_db (os_world s') = w_db w) (NewService str syms w qs)"
proof -
  have "books_wf str \<lparr>os_world = w, os_books = [SymbolBTCUSD \<mapsto> NewOrderBook SymbolBTCUSD,
      SymbolETHUSD \<mapsto> NewOrderBook SymbolETHUSD], os_mem = [], os_quotes = qs\<rparr>"
    by (auto simp: books_wf_def)
  from loadOrders_wf [OF this] show ?thesis by (simp add: NewService_def)
qed

section \<open>The server as a state machine\<close>

text \<open>
  A request through the middleware (which may be answered, panic, or never return); a change of what
  is outside the program, clock, driver faults, Redis and quotes; and a restart, which rebuilds the
  books. A panic of a handler is recovered by \<open>net/http\<close>. Requests run one after the other here; what
  goes wrong when they overlap is in \<open>Interleaving\<close> and \<open>Requests\<close>.
\<close>

inductive server_step :: "(decimal \<Rightarrow> string) \<Rightarrow> server \<Rightarrow> server \<Rightarrow> bool" for str where
  request: "drawn str dr \<Longrightarrow>
    server_step str s (reply_state (serve cd cr parse dr now ev limiter rt r s))"
| outside: "w_db w' = server_db s \<Longrightarrow>
    server_step str s (s\<lparr>sv_redis := rd, sv_orders := (sv_orders s)\<lparr>os_world := w', os_quotes := qs\<rparr>\<rparr>)"
| restart: "NewService str syms (os_world (sv_orders s)) qs = Returns (Inr ()) os \<Longrightarrow>
    server_step str s (s\<lparr>sv_orders := os\<rparr>)"

lemma books_wf_quotes [simp]: "books_wf str (os\<lparr>os_quotes := qs\<rparr>) = books_wf str os"
  by (simp add: books_wf_def)

context server_steps
begin

lemma server_step_advances: "server_step str s s' \<Longrightarrow> advances R str s s'"
proof (induction rule: server_step.induct)
  case (request dr cd cr parse now ev limiter rt r s)
  then show ?case by (rule serve_step)
next
  case (outside w' s rd qs)
  then show ?case using step_same by (simp add: advances_def)
next
  case (restart syms s qs os)
  then show ?case using NewService_wf [of str "os_world (sv_orders s)" syms qs] step_same
    by (simp add: advances_def)
qed

lemma reachable_advances: "(server_step str)\<^sup>*\<^sup>* s s' \<Longrightarrow> advances R str s s'"
  by (induction rule: rtranclp_induct) (auto intro: advances_trans server_step_advances)

end

text \<open>Accepted statements never remove a user or a stored key.\<close>

definition rows_kept :: "db \<Rightarrow> db \<Rightarrow> bool" where
  "rows_kept d d' \<longleftrightarrow> set (db_users d) \<subseteq> set (db_users d') \<and> set (db_idem d) \<subseteq> set (db_idem d')"

lemma db_writes_rows: "db_writes d d' \<Longrightarrow> rows_kept d d'"
  using db_writes_grows [of d d'] by (auto simp: rows_kept_def grows_def dest: set_mono_prefix)

lemma reachable_db:
  assumes "(server_step str)\<^sup>*\<^sup>* s s'" and "ledger_ok (server_db s)"
  shows "ledger_ok (server_db s') \<and> holds_kept (server_db s) (server_db s') \<and>
    rows_kept (server_db s) (server_db s')"
  using trading_server.reachable_advances [OF assms(1)] writes_server.reachable_advances [OF assms(1)]
    assms(2) db_writes_rows
  by (auto simp: advances_def trading_def writes_def)

text \<open>
  C1: in every state the server can reach, by any requests one after the other, panics, hanging calls,
  driver faults and restarts, the schema holds, no balance is negative, every journal sums to zero and
  every book is well formed; and on the way no hold has shrunk and no user or stored key is lost: money
  put on hold is never available again.
\<close>

theorem reachable_states_keep_books:
  assumes "(server_step str)\<^sup>*\<^sup>* s s'" and "ledger_ok (server_db s)" and "books_wf str (sv_orders s)"
  shows "ledger_ok (server_db s') \<and> books_wf str (sv_orders s') \<and>
    holds_kept (server_db s) (server_db s') \<and> rows_kept (server_db s) (server_db s')"
  using reachable_db [OF assms(1,2)] trading_server.reachable_advances [OF assms(1)] assms(3)
  by (simp add: advances_def)

lemma replay_forever:
  assumes "rt \<in> {TopUp, PlaceOrder}"
    and "handler_of cd cr dr rt r hs s = Reply resp s'" and "rs_code resp = 200"
    and "drawn str dr" and "ledger_ok (server_db s)" and "(server_step str)\<^sup>*\<^sup>* s' s2" and "w_faults (os_world (sv_orders s2)) = []"
    and "\<And>body. fingerprint_of (dr_visit dr2) r body = fingerprint_of (dr_visit dr) r body"
    and "jsonb_documented (cd_jsonb cd)"
  shows "handler_of cd cr dr2 rt r hs2 s2 =
    Reply \<lparr>rs_code = 200, rs_header = hs2, rs_body = cd_jsonb cd (rs_body resp)\<rparr> s2"
proof -
  have "ledger_ok (server_db s')"
    using trading_server.handler_step [OF assms(4), of s cd cr rt r hs] assms(2,5)
    by (simp add: advances_def trading_def)
  then have "ledger_ok (server_db s2)" "rows_kept (server_db s') (server_db s2)"
    using reachable_db [OF assms(6)] by blast+
  then have "set (db_idem (server_db s')) \<subseteq> set (db_idem (server_db s2))" "db_wf (server_db s2)"
    by (simp_all add: rows_kept_def ledger_ok_def)
  from repeated_post_replays [OF assms(1-3,8) this assms(7,9)] show ?thesis .
qed

text \<open>
  C32: a top-up or an order answered with 200 is answered alike for ever: in every state reachable from
  then on, the same request with the same fingerprint gets status 200 and the same body, as PostgreSQL
  renders its JSON, when the driver does not fail, and changes nothing.
\<close>

theorem replies_replay_forever:
  assumes "rt \<in> {TopUp, PlaceOrder}"
    and "handler_of cd cr dr rt r hs s = Reply resp s'" and "rs_code resp = 200"
    and "drawn str dr" and "ledger_ok (server_db s)" and "(server_step str)\<^sup>*\<^sup>* s' s2" and "w_faults (os_world (sv_orders s2)) = []"
    and "\<And>body. fingerprint_of (dr_visit dr2) r body = fingerprint_of (dr_visit dr) r body"
    and "jsonb_documented (cd_jsonb cd)"
  shows "handler_of cd cr dr2 rt r hs2 s2 =
    Reply \<lparr>rs_code = 200, rs_header = hs2, rs_body = cd_jsonb cd (rs_body resp)\<rparr> s2"
  by (rule replay_forever [OF assms])


section \<open>Signing up and logging in\<close>

lemma send_tokens_ok:
  assumes "\<And>c. \<exists>t. cr_sign cr c JWTSecret = Inr t"
  shows "\<exists>access refresh. GenerateTokens (cr_sign cr) (dr_clock dr) (usr_id u) (usr_email u) = Inr (access, refresh) \<and>
    send_tokens cd cr dr u hs s =
      json_reply hs (cd_auth_response cd \<lparr>ares_token = access, ares_refresh_token = refresh, ares_user = u\<rparr>) s"
proof -
  obtain a b where "cr_sign cr (access_claims (dr_clock dr) (usr_id u) (usr_email u)) JWTSecret = Inr a"
    "cr_sign cr (refresh_claims (dr_clock dr) (usr_id u) (usr_email u)) JWTSecret = Inr b" using assms by metis
  then have "GenerateTokens (cr_sign cr) (dr_clock dr) (usr_id u) (usr_email u) = Inr (a, b)"
    by (simp add: GenerateTokens_def)
  then show ?thesis by (simp add: send_tokens_def)
qed

lemma signup_creates:
  assumes "signupHandler cd cr dr r hs s = Reply resp s'" and "rs_code resp = 200"
    and "Option.bind (rq_body r) (cd_auth_request cd) = Some req"
  shows "\<exists>u hash. HashPassword (cr_idkey cr) (cr_version cr) (dr_random dr) (areq_password req) = Inr (Inr hash) \<and>
    usr_id u = dr_user dr \<and> usr_email u = areq_email req \<and> usr_password_hash u = hash \<and>
    u \<in> set (db_users (server_db s'))"
proof -
  obtain a1 a2 a3 where a: "dr_accounts dr = (a1, a2, a3)" by (metis prod.exhaust)
  obtain hash where h: "HashPassword (cr_idkey cr) (cr_version cr) (dr_random dr) (areq_password req) = Inr (Inr hash)"
    using assms by (auto simp: signupHandler_def status_defs split: sum.splits)
  obtain u s1 where c: "on_world (CreateUser (dr_user dr) a1 a2 a3 (areq_email req) hash) s = (Inr u, s1)"
    and t: "send_tokens cd cr dr u hs s1 = Reply resp s'"
    using assms a h by (auto simp: signupHandler_def status_defs split: sum.splits prod.splits)
  have s1: "s' = s1" using t trading_server.send_tokens_state [of cd cr dr u hs s1] by simp
  note u = CreateUser_Inr [OF on_worldD [OF c]]
  then have "u \<in> set (db_users (server_db s'))" using insert_user_Inr(2) [OF conjunct2 [OF u]] s1 by simp
  then show ?thesis using u h by (intro exI [of _ u] exI [of _ hash]) (metis user.select_convs(1-3))
qed

lemma user_by_email:
  assumes "ledger_ok (server_db s)" "u \<in> set (db_users (server_db s))" "w_faults (os_world (sv_orders s)) = []"
  shows "on_world (GetUserByEmail (usr_email u)) s = (Inr u, s)"
proof -
  have "distinct (map usr_email (db_users (server_db s)))"
    using assms(1) by (simp add: ledger_ok_def db_wf_def)
  then have "find (\<lambda>v. usr_email v = usr_email u) (db_users (server_db s)) = Some u"
    using assms(2) by (intro find_unique_Some) (auto simp: distinct_map inj_on_def)
  then show ?thesis using assms(3)
    by (simp add: on_world_def GetUserByEmail_def io_not_found_def)
qed

text \<open>
  C33: after a successful sign-up, in every state reachable from then on and when the driver does not
  fail, a login with that email succeeds exactly for the passwords that derive the same key from the
  stored salt, the password of the sign-up in particular; it answers with fresh tokens of the new user,
  and any other password with 401. (The key derivation and the signatures are taken to succeed.)
\<close>

theorem signup_then_login:
  assumes "signupHandler cd cr dr r hs s = Reply resp s'" and "rs_code resp = 200"
    and "Option.bind (rq_body r) (cd_auth_request cd) = Some req"
    and "Option.bind (rq_body r2) (cd_auth_request cd) = Some req2" and "areq_email req2 = areq_email req"
    and "drawn str dr" and "ledger_ok (server_db s)" and "(server_step str)\<^sup>*\<^sup>* s' s2" and "w_faults (os_world (sv_orders s2)) = []"
    and "cr_version cr < 2 ^ 63" and "\<And>c. \<exists>t. cr_sign cr c JWTSecret = Inr t"
    and "\<And>q salt. \<exists>h. cr_idkey cr q salt 3 65536 2 32 = Some h \<and> length h = KeyLength"
  shows "\<exists>u salt access refresh. usr_id u = dr_user dr \<and> usr_email u = areq_email req \<and>
    dr_random dr SaltLength = Some salt \<and>
    GenerateTokens (cr_sign cr) (dr_clock dr2) (usr_id u) (usr_email u) = Inr (access, refresh) \<and>
    loginHandler cd cr dr2 r2 hs2 s2 =
      (if cr_idkey cr (areq_password req2) salt 3 65536 2 32 = cr_idkey cr (areq_password req) salt 3 65536 2 32
       then json_reply hs2 (cd_auth_response cd \<lparr>ares_token = access, ares_refresh_token = refresh, ares_user = u\<rparr>) s2
       else http_Error hs2 ''Invalid credentials'' 401 s2)"
proof -
  obtain u hash where u: "HashPassword (cr_idkey cr) (cr_version cr) (dr_random dr) (areq_password req) = Inr (Inr hash)"
    "usr_id u = dr_user dr" "usr_email u = areq_email req" "usr_password_hash u = hash"
    "u \<in> set (db_users (server_db s'))"
    using signup_creates [OF assms(1-3)] by blast
  have "ledger_ok (server_db s')"
    using trading_server.signup_step [OF assms(6), of s cd cr r hs] assms(1,7) by (simp add: advances_def trading_def)
  then have s2: "ledger_ok (server_db s2)" "u \<in> set (db_users (server_db s2))"
    using reachable_db [OF assms(8)] u(5) by (auto simp: rows_kept_def)
  obtain salt where salt: "dr_random dr SaltLength = Some salt"
    "VerifyPassword (cr_idkey cr) (cr_version cr) (areq_password req2) hash =
      Inr (Inr (cr_idkey cr (areq_password req2) salt 3 65536 2 32 = cr_idkey cr (areq_password req) salt 3 65536 2 32))"
    using hash_verifies [OF assms(10) u(1) assms(12)] by blast
  obtain access refresh where t: "GenerateTokens (cr_sign cr) (dr_clock dr2) (usr_id u) (usr_email u) = Inr (access, refresh)"
    "send_tokens cd cr dr2 u hs2 s2 =
      json_reply hs2 (cd_auth_response cd \<lparr>ares_token = access, ares_refresh_token = refresh, ares_user = u\<rparr>) s2"
    using send_tokens_ok [OF assms(11)] by blast
  have "loginHandler cd cr dr2 r2 hs2 s2 =
      (if cr_idkey cr (areq_password req2) salt 3 65536 2 32 = cr_idkey cr (areq_password req) salt 3 65536 2 32
       then json_reply hs2 (cd_auth_response cd \<lparr>ares_token = access, ares_refresh_token = refresh, ares_user = u\<rparr>) s2
       else http_Error hs2 ''Invalid credentials'' 401 s2)"
    using user_by_email [OF s2 assms(9)] u(3,4) assms(4,5) salt(2) t(2)
    by (simp add: loginHandler_def StatusUnauthorized_def)
  then show ?thesis using u(2,3) salt(1) t(1) by blast
qed

section \<open>From the migrations' database\<close>

text \<open>No account has money, and none is the system account; nothing was booked or ordered.\<close>

definition penniless :: "db \<Rightarrow> bool" where
  "penniless d \<longleftrightarrow> db_entries d = [] \<and> db_orders d = [] \<and>
     (\<forall>a \<in> set (db_accounts d). acc_available a = 0 \<and> acc_hold a = 0 \<and> acc_id a \<noteq> uuid_nil)"

definition keeps_penniless :: "world \<Rightarrow> world \<Rightarrow> bool" where
  "keeps_penniless w w' \<longleftrightarrow> (penniless (w_db w) \<longrightarrow> penniless (w_db w'))"

interpretation penniless: table_relation keeps_penniless
  by unfold_locales (auto simp: keeps_penniless_def)

lemma penniless_account: "penniless d \<Longrightarrow> account_of d u c = Some a \<Longrightarrow> acc_available a = 0"
  by (auto simp: penniless_def account_of_def dest!: find_SomeD)

lemma penniless_hold_fails:
  assumes "penniless (w_db w)" and "holdFunds u req k w = (x, w')"
  shows "\<exists>e. x = Inl e"
proof (cases x)
  case (Inr y)
  have "HoldFunds u c k w = (Inr y', w') \<Longrightarrow> False" for c and y' :: unit
    using HoldFunds_Inr [of u c k w y' w'] penniless_account [OF assms(1)] by fastforce
  then show ?thesis using assms(2) Inr
    by (auto simp: holdFunds_def split: if_splits)
qed simp

lemma penniless_topup_fails:
  assumes "penniless (w_db w)" and "TopUpUser jid u k w = (x, w')"
  shows "\<exists>e. x = Inl e"
proof (cases x)
  case (Inr y)
  obtain a :: account and d1 d2
    where i1: "insert_entry (w_now w) (mk_entry jid (acc_id a) k CurrencyUSD ''TOPUP'' jid) (w_db w) = Inr d1"
      and i2: "insert_entry (w_now w) (mk_entry jid uuid_nil (- k) CurrencyUSD ''TOPUP'' jid) d1 = Inr d2"
    using TopUpUser_Inr [of jid u k w y w'] assms(2) Inr by blast
  have "has_account (w_db w) uuid_nil"
    using insert_entry_Inr(1) [OF i2] insert_entry_Inr(3) [OF i1] by (simp add: has_account_def mk_entry_def)
  then show ?thesis using assms(1) by (auto simp: has_account_def penniless_def)
qed simp

lemma penniless_order:
  "outcome_all (\<lambda>os'. keeps_penniless (os_world os) (os_world os')) (CreateOrder ev u req os)"
proof (cases "penniless (w_db (os_world os))")
  case False
  then show ?thesis by (cases "CreateOrder ev u req os") (simp_all add: keeps_penniless_def)
next
  case True
  have failed: "\<exists>e. x = Inl e \<and> penniless (w_db w')" if h: "holdFunds u req k (os_world os) = (x, w')" for k x w'
  proof -
    have "io_atomic (holdFunds u req k)"
      unfolding holdFunds_def by (auto intro: HoldFunds_atomic io_rules)
    then show ?thesis using penniless_hold_fails [OF True h] h True by (auto simp: io_atomic_def)
  qed
  show ?thesis unfolding CreateOrder_def Let_def keeps_penniless_def using True failed
    by (auto split: option.split sum.split prod.split)
qed

lemma penniless_atomicI:
  assumes "io_atomic m" and "\<And>w x w'. m w = (Inr x, w') \<Longrightarrow> penniless (w_db w) \<Longrightarrow> penniless (w_db w')"
  shows "io_steps keeps_penniless m"
  using penniless.steps_atomic [OF assms(1)] assms(2) by (simp add: keeps_penniless_def)

lemma penniless_topup: "io_steps keeps_penniless (TopUpUser jid u k)"
  using penniless_topup_fails by (intro penniless_atomicI TopUpUser_atomic) blast

lemma penniless_user:
  assumes "uuid_nil \<notin> {a1, a2, a3}"
  shows "io_steps keeps_penniless (CreateUser i a1 a2 a3 email hash)"
proof (rule penniless_atomicI [OF CreateUser_atomic])
  fix w u w' assume "CreateUser i a1 a2 a3 email hash w = (Inr u, w')" and p: "penniless (w_db w)"
  note d = insert_user_Inr [OF conjunct2 [OF CreateUser_Inr [OF this(1)]]]
  show "penniless (w_db w')" using p d assms by (auto simp: penniless_def new_account_def)
qed

lemma penniless_key: "io_steps keeps_penniless (tx_Commit [InsertIdem k])"
proof (rule penniless_atomicI)
  show "io_atomic (tx_Commit [InsertIdem k])" by (rule io_rules)
  fix w x w' assume "tx_Commit [InsertIdem k] w = (Inr x, w')" "penniless (w_db w)"
  then show "penniless (w_db w')"
    by (auto simp: insert_idem_def penniless_def split: if_splits dest!: key_commit_Inr sym [of _ "w_db w'"])
qed

interpretation penniless_server: server_steps keeps_penniless
  by unfold_locales
    (rule penniless_order penniless_topup penniless_user penniless_key | assumption)+

text \<open>
  C34: from the empty database of the migrations no sequence of requests, faults and restarts ever
  credits an account, books an entry or stores an order: the system account the top-ups debit does not
  exist, and nothing else brings in money.
\<close>

theorem no_money_from_migrations:
  assumes "server_db s = db_empty" and "(server_step str)\<^sup>*\<^sup>* s s'"
  shows "db_entries (server_db s') = [] \<and> db_orders (server_db s') = [] \<and>
    (\<forall>a \<in> set (db_accounts (server_db s')). acc_available a = 0 \<and> acc_hold a = 0)"
proof -
  have "penniless (server_db s)" using assms(1) by (simp add: penniless_def db_empty_def)
  then have "penniless (server_db s')"
    using penniless_server.reachable_advances [OF assms(2)] by (simp add: advances_def keeps_penniless_def)
  then show ?thesis by (simp add: penniless_def)
qed

section \<open>An example server\<close>

definition sample_codec :: codec where
  "sample_codec = \<lparr>cd_error_text = (\<lambda>_. ''error''),
     cd_auth_request = (\<lambda>b. Some \<lparr>areq_email = ''d'', areq_password = b\<rparr>), cd_auth_response = ares_token,
     cd_topup_request = (\<lambda>b. Some \<lparr>treq_amount = 50\<rparr>), cd_topup_response = (\<lambda>r. Some ''ok''),
     cd_order_request = (\<lambda>b. Some low_bid), cd_order_response = (\<lambda>r. Some ''placed''),
     cd_order = (\<lambda>_. ''order''), cd_quote = (\<lambda>_. ''quote''), cd_portfolio = (\<lambda>_. ''portfolio''),
     cd_parse_uuid = (\<lambda>_. Some 600),
     cd_jsonb = filter (\<lambda>c. c \<noteq> CHR '' '')\<rparr>"

definition sample_crypto :: crypto where
  "sample_crypto = \<lparr>cr_idkey = sample_idkey, cr_version = 19, cr_sign = (\<lambda>c key. Inr (cl_email c))\<rparr>"

definition sample_draws :: draws where
  "sample_draws = \<lparr>dr_visit = (\<lambda>kvs. kvs), dr_journal = 99, dr_order = sample_env, dr_user = 4,
     dr_accounts = (41, 42, 43), dr_random = (\<lambda>n. Some (replicate n CHR ''s'')), dr_clock = (\<lambda>_. 0)\<rparr>"

definition sample_post :: http_request where
  "sample_post = sample_request ''POST'' ''/api/fund/topup'' [(''Idempotency-Key'', [''k''])] ''pw''
     \<lparr>rq_ctx := [UserIDKey \<mapsto> 1]\<rparr>"

lemma sample_jsonb: "jsonb_documented (cd_jsonb sample_codec)"
  by (simp add: jsonb_documented_def sample_codec_def)

lemma sample_drawn: "drawn sample_str sample_draws"
  by (simp add: drawn_def sample_draws_def uuid_nil_def)

lemma sample_server_db: "server_db sample_server = sample_db"
  by (simp add: sample_server_def)

lemma sample_post_hyps:
  "GetUserIDFromContext (rq_ctx sample_post) = Some 1" "rq_body sample_post = Some ''pw''"
  "first_value (rq_header sample_post) ''Idempotency-Key'' = ''k''" "''k'' \<noteq> ''''"
  "w_faults (os_world (sv_orders sample_server)) = []" "ledger_ok (server_db sample_server)"
  "\<forall>k \<in> set (db_idem (server_db sample_server)). (ik_user k, ik_key k) \<noteq> (1, ''k'')"
  "cd_topup_request sample_codec ''pw'' = Some \<lparr>treq_amount = 50\<rparr>"
  "stored (treq_amount \<lparr>treq_amount = 50\<rparr>)" "0 < treq_amount \<lparr>treq_amount = 50\<rparr>"
  "account_of (server_db sample_server) 1 CurrencyUSD = Some (sample_account 11 1 CurrencyUSD 1000 0)"
  "has_account (server_db sample_server) uuid_nil"
  "acc_available (sample_account 11 1 CurrencyUSD 1000 0) + treq_amount \<lparr>treq_amount = 50\<rparr> < 10 ^ 20"
  "cd_topup_response sample_codec
     \<lparr>tres_balance = acc_available (sample_account 11 1 CurrencyUSD 1000 0) + treq_amount \<lparr>treq_amount = 50\<rparr>\<rparr> =
     Some ''ok''"
  using sample_db_ok sample_account_of
  by (simp_all add: sample_server_db sample_post_def sample_codec_def sample_request_def first_value_def
      GetUserIDFromContext_def)
    (simp_all add: sample_server_def sample_db_def has_account_def sample_account_def uuid_nil_def)

lemma sample_topup:
  "\<exists>s'. topupHandler sample_codec sample_draws sample_post (\<lambda>_. None) sample_server =
     json_reply (\<lambda>_. None) ''ok'' s' \<and> w_faults (os_world (sv_orders s')) = [] \<and>
     balances (server_db s') = (balances sample_db)(11 \<mapsto> (1050, 0))"
  using topup_runs [OF sample_post_hyps, of sample_draws "\<lambda>_. None"] by (simp add: sample_server_db)



theorem replies_replay_forever_witness:
  "\<exists>s'. handler_of sample_codec sample_crypto sample_draws TopUp sample_post (\<lambda>_. None) sample_server =
      json_reply (\<lambda>_. None) ''ok'' s' \<and>
    handler_of sample_codec sample_crypto sample_draws TopUp sample_post (\<lambda>_. None) s' =
      Reply \<lparr>rs_code = 200, rs_header = (\<lambda>_. None), rs_body = ''ok''\<rparr> s'"
proof -
  obtain s' where s': "topupHandler sample_codec sample_draws sample_post (\<lambda>_. None) sample_server =
      json_reply (\<lambda>_. None) ''ok'' s'" "w_faults (os_world (sv_orders s')) = []" using sample_topup by blast
  then show ?thesis
    using replies_replay_forever [of TopUp sample_codec sample_crypto sample_draws sample_post "\<lambda>_. None"
        sample_server _ s' sample_str s' sample_draws "\<lambda>_. None"] sample_drawn sample_post_hyps(6) sample_jsonb
    by (simp add: json_reply_def StatusOK_def) (simp add: sample_codec_def)
qed

lemma sample_step:
  "(server_step sample_str)\<^sup>*\<^sup>* s (reply_state (serve sample_codec sample_crypto sample_parse sample_draws
     (10 ^ 9) sample_rate_env None rt r s))"
  by (rule r_into_rtranclp) (rule request [OF sample_drawn])

theorem reachable_states_keep_books_witness:
  "let s' = reply_state (serve sample_codec sample_crypto sample_parse sample_draws (10 ^ 9) sample_rate_env None
      TopUp (sample_request ''POST'' ''/api/fund/topup'' [(''Authorization'', [''Bearer access''])] ''pw'')
      sample_server)
   in ledger_ok (server_db s') \<and> books_wf sample_str (sv_orders s') \<and> rows_kept sample_db (server_db s')"
  using reachable_states_keep_books [OF sample_step [of sample_server]] sample_db_ok
    sample_state_wf
  by (simp add: Let_def sample_server_def)

theorem no_money_from_migrations_witness:
  "db_entries (server_db (reply_state (serve sample_codec sample_crypto sample_parse sample_draws (10 ^ 9)
      sample_rate_env None Signup (sample_request ''POST'' ''/auth/signup'' [] ''pw'')
      (sample_server\<lparr>sv_orders := sample_state\<lparr>os_world := sample_world\<lparr>w_db := db_empty\<rparr>\<rparr>\<rparr>)))) = []"
  using no_money_from_migrations [OF _ sample_step [of
      "sample_server\<lparr>sv_orders := sample_state\<lparr>os_world := sample_world\<lparr>w_db := db_empty\<rparr>\<rparr>\<rparr>"]]
  by simp

lemma sample_signup:
  "\<exists>s' b. signupHandler sample_codec sample_crypto sample_draws sample_post (\<lambda>_. None) sample_server =
     json_reply (\<lambda>_. None) b s' \<and> w_faults (os_world (sv_orders s')) = []"
proof -
  obtain h where h: "HashPassword sample_idkey 19 (\<lambda>n. Some (replicate n CHR ''s'')) ''pw'' = Inr (Inr h)"
    by (simp add: HashPassword_def generateRandomBytes_def sample_idkey_def)
  let ?u = "\<lparr>usr_id = 4, usr_email = ''d'', usr_password_hash = h, usr_created_at = w_now sample_world\<rparr>"
  obtain d where "insert_user ?u 41 42 43 sample_db = Inr d"
    by (simp add: insert_user_def sample_db_def sample_user_def sample_account_def has_user_def has_account_def)
  then have u: "CreateUser 4 41 42 43 ''d'' h sample_world = (Inr ?u, sample_world\<lparr>w_db := d\<rparr>)"
    by (simp add: CreateUser_def Let_def io_wrap_def io_bind_def io_return_def)
  show ?thesis
    using h u
    by (simp add: signupHandler_def sample_crypto_def sample_draws_def sample_codec_def sample_post_def
        sample_request_def on_world_def sample_server_def send_tokens_def GenerateTokens_def)
      (intro exI conjI, rule refl, simp)
qed

theorem signup_then_login_witness:
  "\<exists>s' b t. signupHandler sample_codec sample_crypto sample_draws sample_post (\<lambda>_. None) sample_server =
      json_reply (\<lambda>_. None) b s' \<and>
    loginHandler sample_codec sample_crypto sample_draws sample_post (\<lambda>_. None) s' = json_reply (\<lambda>_. None) t s'"
proof -
  obtain s' b where s': "signupHandler sample_codec sample_crypto sample_draws sample_post (\<lambda>_. None) sample_server =
     json_reply (\<lambda>_. None) b s'" "w_faults (os_world (sv_orders s')) = []" using sample_signup by blast
  have req: "Option.bind (rq_body sample_post) (cd_auth_request sample_codec) =
      Some \<lparr>areq_email = ''d'', areq_password = ''pw''\<rparr>"
    by (simp add: sample_post_def sample_request_def sample_codec_def)
  have kdf: "\<exists>h. cr_idkey sample_crypto q salt 3 65536 2 32 = Some h \<and> length h = KeyLength" for q salt
    by (simp add: sample_idkey_def KeyLength_def sample_crypto_def)
  have sign: "\<exists>t. cr_sign sample_crypto c JWTSecret = Inr t" and "cr_version sample_crypto < 2 ^ 63" for c
    by (simp_all add: sample_crypto_def)
  then have "\<exists>t. loginHandler sample_codec sample_crypto sample_draws sample_post (\<lambda>_. None) s' =
      json_reply (\<lambda>_. None) t s'"
    using signup_then_login [OF s'(1) [unfolded json_reply_def] _ req req refl sample_drawn sample_post_hyps(6)
        rtranclp.rtrancl_refl s'(2) _ sign kdf, of sample_draws "\<lambda>_. None"]
    by (auto simp: StatusOK_def)
  then show ?thesis using s' by blast
qed

end
