(* ===== verification/Requests.thy ===== *)
theory Requests
  imports System
begin

text \<open>
  What a client can rely on when it repeats requests, and where the idempotency keys do not protect it:
  what a fingerprint depends on, reused keys, two requests in flight at once; and which requests are
  always answered.
\<close>

section \<open>What a fingerprint depends on\<close>

text \<open>The part a header contributes to a fingerprint.\<close>

definition header_part :: "(string \<times> string list) list \<Rightarrow> string \<Rightarrow> string" where
  "header_part hdr k = (case map_of hdr k of Some (v # vs) \<Rightarrow> k @ '':'' @ v | _ \<Rightarrow> '''')"

definition critical :: "string \<Rightarrow> bool" where
  "critical k \<longleftrightarrow> k = ''Authorization'' \<or> k = ''Content-Type''"

definition render :: "(string \<times> string) list \<Rightarrow> string" where
  "render kvs = concat (map (\<lambda>(k, v). k @ '':'' @ v) kvs)"

lemma GenerateFingerprint_render:
  "GenerateFingerprint body kvs = sha256_hex (body @ render (filter (critical \<circ> fst) kvs))"
proof -
  have "foldl (\<lambda>data (key, value).
      if key = ''Authorization'' \<or> key = ''Content-Type'' then data @ key @ '':'' @ value else data) body kvs =
    body @ render (filter (critical \<circ> fst) kvs)"
    by (induction kvs arbitrary: body) (auto simp: render_def critical_def)
  then show ?thesis by (simp add: GenerateFingerprint_def)
qed

lemma render_two:
  assumes "distinct (map fst kvs)" and "\<forall>kv \<in> set kvs. critical (fst kv)"
    and p: "\<And>k. critical k \<Longrightarrow> p k = (case map_of kvs k of None \<Rightarrow> '''' | Some v \<Rightarrow> k @ '':'' @ v)"
  shows "render kvs = p ''Authorization'' @ p ''Content-Type'' \<or> render kvs = p ''Content-Type'' @ p ''Authorization''"
    and "{render kvs, render (rev kvs)} =
      {p ''Authorization'' @ p ''Content-Type'', p ''Content-Type'' @ p ''Authorization''}"
proof -
  note p = p [of "''Authorization''", unfolded critical_def, simplified]
    p [of "''Content-Type''", unfolded critical_def, simplified]
  consider "kvs = []" | k v where "kvs = [(k, v)]" | k v k' v' where "kvs = [(k, v), (k', v')]"
    | x y z zs where "kvs = x # y # z # zs" by (metis list.exhaust prod.exhaust)
  then have "(render kvs = p ''Authorization'' @ p ''Content-Type'' \<or> render kvs = p ''Content-Type'' @ p ''Authorization'') \<and>
    {render kvs, render (rev kvs)} =
      {p ''Authorization'' @ p ''Content-Type'', p ''Content-Type'' @ p ''Authorization''}"
  proof cases
    case 3
    then have "k = ''Authorization'' \<and> k' = ''Content-Type'' \<or> k = ''Content-Type'' \<and> k' = ''Authorization''"
      using assms(1,2) by (auto simp: critical_def)
    then show ?thesis using 3 p by (elim disjE) (simp_all add: render_def insert_commute)
  next
    case 4
    then show ?thesis using assms(1,2) by (auto simp: critical_def)
  qed (use assms(2) p in \<open>auto simp: render_def critical_def\<close>)
  then show "render kvs = p ''Authorization'' @ p ''Content-Type'' \<or> render kvs = p ''Content-Type'' @ p ''Authorization''"
    and "{render kvs, render (rev kvs)} =
      {p ''Authorization'' @ p ''Content-Type'', p ''Content-Type'' @ p ''Authorization''}" by blast+
qed

text \<open>A header map has each key once, so any order shows the same values.\<close>

lemma map_of_firsts:
  "distinct (map fst hdr) \<Longrightarrow> map_of (map (\<lambda>(k, vs). (k, hd vs)) (filter (\<lambda>(k, vs). vs \<noteq> []) hdr)) k =
    (case map_of hdr k of Some (v # vs) \<Rightarrow> Some v | _ \<Rightarrow> None)"
proof (induction hdr)
  case (Cons kv hdr)
  then show ?case
    using map_of_eq_None_iff [of hdr k] by (cases kv; cases "snd kv"; cases "fst kv = k") auto
qed simp

lemma visit_headers:
  assumes "distinct (map fst (rq_header r))" and "mset kvs = mset (first_headers r)"
  shows "distinct (map fst kvs)"
    and "header_part (rq_header r) k = (case map_of kvs k of None \<Rightarrow> '''' | Some v \<Rightarrow> k @ '':'' @ v)"
proof -
  have fst: "map fst (first_headers r) = map fst (filter (\<lambda>(k, vs). vs \<noteq> []) (rq_header r))"
    by (simp add: first_headers_def case_prod_unfold)
  have d: "distinct (map fst (first_headers r))"
    unfolding fst using assms(1) by (simp add: distinct_map inj_on_def)
  have "mset (map fst kvs) = mset (map fst (first_headers r))" using assms(2) by simp
  then show dk: "distinct (map fst kvs)" using d mset_eq_imp_distinct_iff by blast
  have "map_of kvs = map_of (first_headers r)"
    using dk d mset_eq_setD [OF assms(2)] by (simp add: map_of_inject_set)
  then show "header_part (rq_header r) k = (case map_of kvs k of None \<Rightarrow> '''' | Some v \<Rightarrow> k @ '':'' @ v)"
    using map_of_firsts [OF assms(1), of k] unfolding first_headers_def
    by (auto simp: header_part_def split: option.split list.split)
qed

text \<open>
  C35: whatever order \<open>range\<close> visits the headers in, the fingerprint of a request is one of two digests,
  of the body with the access token and the content type appended in one order or the other; both orders
  happen. So nothing else of a request counts, a request repeated with a fresh access token is another
  request, and one that carries both headers may not be recognised when it is sent again unchanged.
\<close>

theorem fingerprint_has_two_values:
  assumes "distinct (map fst (rq_header r))"
    and "a = header_part (rq_header r) ''Authorization''" and "c = header_part (rq_header r) ''Content-Type''"
  shows "(\<forall>visit. (\<forall>kvs. mset (visit kvs) = mset kvs) \<longrightarrow>
      fingerprint_of visit r body \<in> {sha256_hex (body @ a @ c), sha256_hex (body @ c @ a)}) \<and>
    {fingerprint_of id r body, fingerprint_of rev r body} = {sha256_hex (body @ a @ c), sha256_hex (body @ c @ a)}"
proof -
  let ?F = "\<lambda>kvs. filter (critical \<circ> fst) kvs"
  have hyps: "distinct (map fst (?F kvs))" "\<forall>kv \<in> set (?F kvs). critical (fst kv)"
    "\<And>k. critical k \<Longrightarrow> header_part (rq_header r) k = (case map_of (?F kvs) k of None \<Rightarrow> '''' | Some v \<Rightarrow> k @ '':'' @ v)"
    if "mset kvs = mset (first_headers r)" for kvs
  proof -
    note v = visit_headers [OF assms(1) that]
    show "distinct (map fst (?F kvs))" using v(1) by (simp add: distinct_map_filter)
    show "\<forall>kv \<in> set (?F kvs). critical (fst kv)" by simp
    have "map_of (?F kvs) k = map_of kvs k" if "critical k" for k
      using that by (induction kvs) auto
    then show "critical k \<Longrightarrow> header_part (rq_header r) k =
        (case map_of (?F kvs) k of None \<Rightarrow> '''' | Some v \<Rightarrow> k @ '':'' @ v)" for k using v(2) [of k] by simp
  qed
  have two: "render (?F kvs) = a @ c \<or> render (?F kvs) = c @ a" if "mset kvs = mset (first_headers r)" for kvs
    using render_two(1) [OF hyps [OF that]] assms(2,3) by simp
  have "{render (?F (first_headers r)), render (rev (?F (first_headers r)))} = {a @ c, c @ a}"
    using render_two(2) [OF hyps [OF refl]] assms(2,3) by simp
  then have "{render (?F (first_headers r)), render (?F (rev (first_headers r)))} = {a @ c, c @ a}"
    by (simp add: rev_filter)
  then have "(\<lambda>x. sha256_hex (body @ x)) ` {render (?F (first_headers r)), render (?F (rev (first_headers r)))} =
      (\<lambda>x. sha256_hex (body @ x)) ` {a @ c, c @ a}" by simp
  moreover have fp: "fingerprint_of visit r body = sha256_hex (body @ render (?F (visit (first_headers r))))" for visit
    by (simp add: fingerprint_of_def GenerateFingerprint_render)
  moreover have "fingerprint_of visit r body \<in> {sha256_hex (body @ a @ c), sha256_hex (body @ c @ a)}"
    if "\<forall>kvs. mset (visit kvs) = mset kvs" for visit
    using two [of "visit (first_headers r)"] that by (auto simp: fp)
  ultimately show ?thesis by simp
qed

section \<open>Keys used twice\<close>

lemma check_other:
  assumes "key_stored u key f code body (w_db w)" and "db_wf (w_db w)" and "w_faults w = []" and "f \<noteq> g"
  shows "CheckIdempotency jsonb u key g w = (Inl (Errorf ''idempotency key mismatch''), w)"
proof -
  obtain k where k: "CheckIdempotency jsonb u key f w = (Inr (Some k), w)" using check_stored [OF assms(1-3)] by blast
  then have "GetIdempotencyKey jsonb u key w = (Inr (Some k), w)" "ik_fingerprint k = f"
    by (auto simp: CheckIdempotency_def io_bind_def io_return_def io_error_def
        split: prod.splits sum.splits option.splits if_splits)
  then show ?thesis using assms(4) by (simp add: CheckIdempotency_def io_bind_def io_error_def)
qed

text \<open>
  A top-up or an order under a key that is stored with another fingerprint is refused with 409 and
  changes nothing, when the driver does not fail.
\<close>

theorem reused_key_conflicts:
  assumes "rt \<in> {TopUp, PlaceOrder}" and "GetUserIDFromContext (rq_ctx r) = Some u" and "rq_body r = Some body"
    and "first_value (rq_header r) ''Idempotency-Key'' = key" and "key \<noteq> ''''"
    and "key_stored u key f code b (server_db s)" and "f \<noteq> fingerprint_of (dr_visit dr) r body"
    and "ledger_ok (server_db s)" and "w_faults (os_world (sv_orders s)) = []"
  shows "handler_of cd cr dr rt r hs s = http_Error hs ''Idempotency key mismatch'' 409 s"
proof -
  have wf: "db_wf (server_db s)" using assms(8) by (simp add: ledger_ok_def)
  have "keyed_request cd dr process r hs s = http_Error hs ''Idempotency key mismatch'' 409 s" for process
    using assms(2-5) check_other [OF assms(6) wf assms(9,7)]
    by (simp add: keyed_request_def Let_def on_world_def StatusConflict_def)
  then show ?thesis using assms(1) by (auto simp: topupHandler_def createOrderHandler_def)
qed

section \<open>Two requests at once\<close>

text \<open>What a top-up leaves for the next one.\<close>

lemma topup_leaves:
  assumes "TopUpUser jid u k w = (Inr x, w')" and "ledger_ok (w_db w)" and "stored k"
    and "account_of (w_db w) u CurrencyUSD = Some a" and "has_account (w_db w) uuid_nil"
  shows "account_of (w_db w') u CurrencyUSD = Some (a\<lparr>acc_available := acc_available a + k\<rparr>)"
    and "has_account (w_db w') uuid_nil" and "db_idem (w_db w') = db_idem (w_db w)"
    and "db_users (w_db w') = db_users (w_db w)"
proof -
  have wf: "db_wf (w_db w)" using assms(2) by (simp add: ledger_ok_def)
  obtain d1 d2 e1 e2 where i: "insert_entry (w_now w) e1 (w_db w) = Inr d1"
      "insert_entry (w_now w) e2 d1 = Inr d2"
      and up: "update_account (acc_id a) (acc_available a + k) (acc_hold a) d2 = Inr (w_db w')"
    using TopUpUser_Inr [OF assms(1)] assms(4) by auto
  have wf2: "db_wf d2" using insert_entry_wf [OF i(2)] insert_entry_wf [OF i(1)] wf by blast
  have acc2: "db_accounts d2 = db_accounts (w_db w)"
    using insert_entry_frame(4) [OF i(1)] insert_entry_frame(4) [OF i(2)] by simp
  then have a2: "account_of d2 u CurrencyUSD = Some a" using assms(4) by (simp add: account_of_def)
  have "is_numeric (acc_available a)" "is_numeric (acc_hold a)" "is_numeric k"
    using account_stored [OF wf account_of_wf(1) [OF wf assms(4)]] assms(3) by (auto simp: stored_numeric)
  then have "numeric_round (acc_available a + k) = acc_available a + k" "numeric_round (acc_hold a) = acc_hold a"
    using is_numeric_add [of "acc_available a" k] by (simp_all add: is_numeric_def)
  then show "account_of (w_db w') u CurrencyUSD = Some (a\<lparr>acc_available := acc_available a + k\<rparr>)"
    using account_of_update [OF wf2 a2 up] by (simp add: set_balances_def)
  show "db_idem (w_db w') = db_idem (w_db w)" "db_users (w_db w') = db_users (w_db w)"
    unfolding update_account_Inr [OF up] using insert_entry_Inr [OF i(1)] insert_entry_Inr [OF i(2)] by simp_all
  have "map acc_id (db_accounts (w_db w')) = map acc_id (db_accounts (w_db w))"
    unfolding update_account_Inr [OF up] using acc2 by (simp add: o_def)
  then have "acc_id ` set (db_accounts (w_db w')) = acc_id ` set (db_accounts (w_db w))"
    by (metis set_map)
  then show "has_account (w_db w') uuid_nil"
    using assms(5) by (simp add: has_account_def)
qed

lemma store_again_fails:
  assumes "w_faults (os_world (sv_orders s)) = []" and "has_user (server_db s) u"
    and "k \<in> set (db_idem (server_db s))" and "ik_user k = u" and "ik_key k = key"
  shows "store_and_reply u key f body hs s =
    http_Error hs ''Failed to store idempotency key'' StatusInternalServerError s"
proof -
  have "(u, key) \<in> (\<lambda>k. (ik_user k, ik_key k)) ` set (db_idem (server_db s))" using assms(3-5) by force
  then show ?thesis using assms(1,2)
    by (simp add: store_and_reply_def on_world_def StoreIdempotency_def CreateIdempotencyKey_def io_wrap_def
        insert_idem_def)
qed

text \<open>
  C36: the check of a key and its storing are separate transactions around the top-up. Two requests with
  the same new key that both pass the check before either is processed both credit the account: the
  first is answered with 200, the second with 500 although its money is booked too.
\<close>

theorem concurrent_topups_credit_twice:
  assumes "w_faults (os_world (sv_orders s)) = []" and "ledger_ok (server_db s)"
    and "\<forall>k \<in> set (db_idem (server_db s)). (ik_user k, ik_key k) \<noteq> (u, key)"
    and "cd_topup_request cd body = Some req" and "stored (treq_amount req)" and "0 < treq_amount req"
    and "account_of (server_db s) u CurrencyUSD = Some a" and "has_account (server_db s) uuid_nil"
    and "acc_available a + 2 * treq_amount req < 10 ^ 20"
    and "\<And>x. \<exists>b. cd_topup_response cd x = Some b"
  shows "\<exists>b s1 s2. on_world (CheckIdempotency (cd_jsonb cd) u key f) s = (Inr None, s) \<and>
    process_topup cd dr u key f body hs s = json_reply hs b s1 \<and>
    process_topup cd dr2 u key f body hs2 s1 = http_Error hs2 ''Failed to store idempotency key'' 500 s2 \<and>
    balances (server_db s2) =
      (balances (server_db s))(acc_id a \<mapsto> (acc_available a + 2 * treq_amount req, acc_hold a))"
proof -
  let ?w = "os_world (sv_orders s)" and ?k = "treq_amount req"
  let ?a = "a\<lparr>acc_available := acc_available a + ?k\<rparr>"
  have wf: "db_wf (server_db s)" using assms(2) by (simp add: ledger_ok_def)
  have check: "on_world (CheckIdempotency (cd_jsonb cd) u key f) s = (Inr None, s)"
    using check_fresh [OF assms(1,3)] by (simp add: on_world_def)
  have fits: "acc_available a + ?k < 10 ^ 20" using assms(6,9) by simp
  obtain d where t: "TopUpUser (dr_journal dr) u ?k ?w = (Inr ?a, ?w\<lparr>w_db := d\<rparr>)"
    using TopUpUser_works [OF assms(1,2,7,8,5,6) fits] by blast
  note left = topup_leaves [OF t assms(2,5,7,8), simplified]
  have ok: "ledger_ok d" using topup_keeps_ok [OF t assms(2)] by simp
  obtain b where b: "cd_topup_response cd \<lparr>tres_balance = acc_available a + ?k\<rparr> = Some b" using assms(10) by blast
  have user: "has_user d u"
    using account_of_wf(1,2) [OF wf assms(7)] wf left(4)
    by (auto simp: db_wf_def account_at_def find_Some_iff has_user_def)
  let ?key = "\<lparr>ik_user = u, ik_key = key, ik_fingerprint = f, ik_code = StatusOK, ik_body = b,
    ik_created_at = w_now (os_world (sv_orders (with_db d s)))\<rparr>"
  let ?d1 = "d\<lparr>db_idem := db_idem d @ [?key]\<rparr>"
  let ?s1 = "with_db ?d1 s"
  have first: "process_topup cd dr u key f body hs s = json_reply hs b ?s1"
    using process_topup_booked [OF assms(4) t] b store_and_reply_first [of "with_db d s" u key f b hs] assms(1,3)
      left(3) user by simp
  have ok1: "ledger_ok ?d1"
    using trading_server.process_topup_step [of "(\<lambda>_. ''''):: decimal \<Rightarrow> string" s cd dr u key f body hs] assms(2) first
    by (simp add: advances_def trading_def)
  have w1: "w_faults (os_world (sv_orders ?s1)) = []" using assms(1) by simp
  have a1: "account_of (server_db ?s1) u CurrencyUSD = Some ?a" "has_account (server_db ?s1) uuid_nil"
    using left(1,2) by simp_all
  have fits2: "acc_available ?a + ?k < 10 ^ 20" using assms(9) by simp
  obtain d2 where t2: "TopUpUser (dr_journal dr2) u ?k (os_world (sv_orders ?s1)) =
      (Inr (?a\<lparr>acc_available := acc_available ?a + ?k\<rparr>), (os_world (sv_orders ?s1))\<lparr>w_db := d2\<rparr>)"
    using TopUpUser_works [OF w1 _ a1 assms(5,6) fits2] ok1 by auto
  have ok1': "ledger_ok (server_db ?s1)" using ok1 by simp
  note left2 = topup_leaves [OF t2 ok1' assms(5) a1, simplified]
  obtain b2 where b2: "cd_topup_response cd \<lparr>tres_balance = acc_available a + ?k + ?k\<rparr> = Some b2" using assms(10) by blast
  have user2: "has_user d2 u" using user left2(4) by (simp add: has_user_def)
  have "process_topup cd dr2 u key f body hs2 ?s1 = store_and_reply u key f b2 hs2 (with_db d2 ?s1)"
    using process_topup_booked [OF assms(4) t2] b2 by simp
  also have "\<dots> = http_Error hs2 ''Failed to store idempotency key'' 500 (with_db d2 ?s1)"
    using store_again_fails [of "with_db d2 ?s1" u ?key key f b2 hs2] assms(1) user2 left2(3)
    by (simp add: StatusInternalServerError_def)
  finally have second: "process_topup cd dr2 u key f body hs2 ?s1 =
      http_Error hs2 ''Failed to store idempotency key'' 500 (with_db d2 ?s1)" .
  have "balances d = (balances (server_db s))(acc_id a \<mapsto> (acc_available a + ?k, acc_hold a))"
    using topup_balances [OF t wf] assms(5,7) by (auto simp: stored_numeric)
  moreover have "balances d2 = (balances d)(acc_id a \<mapsto> (acc_available a + ?k + ?k, acc_hold a))"
    using topup_balances [OF t2] ok1' a1(1) assms(5) by (auto simp: stored_numeric ledger_ok_def)
  ultimately have "balances (server_db (with_db d2 ?s1)) =
      (balances (server_db s))(acc_id a \<mapsto> (acc_available a + 2 * ?k, acc_hold a))" by (simp add: algebra_simps)
  then show ?thesis using check first second by blast
qed


section \<open>The unused wrapper\<close>

text \<open>
  \<open>IdempotentHandler\<close> looks the user up under the plain string \<open>user_id\<close>, while \<open>AuthMiddleware\<close> stores it
  under a key of type \<open>contextKey\<close>: behind the middleware it refuses every request, whatever it wraps.
\<close>

lemma idempotent_handler_never_runs:
  assumes "rq_ctx r (PlainKey ''user_id'') = None"
  shows "AuthMiddleware parse now (IdempotentHandler jsonb visit h) r hs s =
    AuthMiddleware parse now (\<lambda>r hs. http_Error hs ''User not authenticated'' 401) r hs s"
  using assms by (simp add: AuthMiddleware_def IdempotentHandler_def UserIDKey_def StatusUnauthorized_def
      Let_def split: sum.split)

section \<open>Requests that are always answered\<close>

definition answered :: "server reply \<Rightarrow> bool" where
  "answered rep \<longleftrightarrow> (\<exists>resp s. rep = Reply resp s)"

lemma answered_simps [simp]:
  "answered (Reply resp s)" "answered (http_Error hs msg code s)" "answered (json_reply hs b s)"
  "\<not> answered (Crash p s)" "\<not> answered (Hang s)"
  by (simp_all add: answered_def http_Error_def json_reply_def)

lemma store_and_reply_answered [simp]: "answered (store_and_reply u key f body hs s)"
  by (auto simp: store_and_reply_def split: prod.split sum.split)

lemma topup_answered: "answered (topupHandler cd dr r hs s)"
  by (auto simp: topupHandler_def keyed_request_def process_topup_def Let_def
      split: option.split prod.split sum.split)

lemma reads_answered:
  "answered (healthHandler r hs s)" "answered (quotesHandler cd r hs s)"
  "answered (getOrderHandler cd i r hs s)" "answered (portfolioHandler cd r hs s)"
  by (auto simp: healthHandler_def quotesHandler_def getOrderHandler_def portfolioHandler_def Let_def
      split: option.split prod.split sum.split)

lemma send_tokens_answered [simp]: "answered (send_tokens cd cr dr u hs s)"
  by (auto simp: send_tokens_def split: sum.split)

lemma signup_answered:
  assumes "\<And>q salt. \<exists>h. cr_idkey cr q salt 3 65536 2 32 = Some h \<and> length h = KeyLength"
  shows "answered (signupHandler cd cr dr r hs s)"
proof -
  have "HashPassword (cr_idkey cr) (cr_version cr) (dr_random dr) p \<noteq> Inl x" for p x
  proof -
    have kdf: "cr_idkey cr p salt 3 65536 2 32 \<noteq> None" for salt using assms [of p salt] by auto
    show ?thesis
    proof (cases "generateRandomBytes (dr_random dr) SaltLength")
      case (Inr salt)
      then show ?thesis using kdf [of salt]
        by (auto simp: HashPassword_def Iterations_def Memory_def Parallelism_def KeyLength_def split: option.split)
    qed (simp add: HashPassword_def)
  qed
  then show ?thesis by (auto simp: signupHandler_def split: option.split sum.split prod.split)
qed

lemma login_answered:
  assumes "\<And>q salt. \<exists>h. cr_idkey cr q salt 3 65536 2 32 = Some h \<and> length h = KeyLength"
    and "cr_version cr < 2 ^ 63"
    and "\<forall>u \<in> set (db_users (server_db s)). \<exists>rand p.
      HashPassword (cr_idkey cr) (cr_version cr) rand p = Inr (Inr (usr_password_hash u))"
  shows "answered (loginHandler cd cr dr r hs s)"
proof -
  have "VerifyPassword (cr_idkey cr) (cr_version cr) p (usr_password_hash u) \<noteq> Inl x"
    if "on_world (GetUserByEmail e) s = (Inr u, s')" for e u s' p x
  proof -
    have "find (\<lambda>u. usr_email u = e) (db_users (server_db s)) = Some u"
      using on_worldD [OF that] by (auto simp: GetUserByEmail_def io_not_found_def elim!: db_QueryRowE split: prod.splits sum.splits)
    then have "u \<in> set (db_users (server_db s))" by (auto simp: find_Some_iff)
    then obtain rand p' where
      hp: "HashPassword (cr_idkey cr) (cr_version cr) rand p' = Inr (Inr (usr_password_hash u))"
      using assms(3) by blast
    show ?thesis using hash_verifies [OF assms(2) hp, of p] assms(1) by fastforce
  qed
  then show ?thesis by (fastforce simp: loginHandler_def split: option.split sum.split prod.split bool.split)
qed

text \<open>
  An order that trades with nothing: it is invalid, or it has a price that the best level of the other
  side of its book does not meet.
\<close>

definition quiet_order :: "env \<Rightarrow> uuid \<Rightarrow> create_order_request \<Rightarrow> ostate \<Rightarrow> bool" where
  "quiet_order ev u req s \<longleftrightarrow> validateOrderRequest req \<noteq> None \<or>
     req_price req \<noteq> None \<and>
     (\<exists>ob. os_books s (req_symbol req) = Some ob \<and>
        (\<forall>l. \<not> crosses (convertToBookOrder (new_order ev u req)) ob l))"

lemma quiet_fill_returns:
  assumes "books_wf (ev_str ev) s" and "os_books s (ord_symbol r) = Some ob" and "ord_price r \<noteq> None"
    and "\<forall>l. \<not> crosses (convertToBookOrder r) ob l"
  shows "\<exists>x s'. fill_order ev r s = Returns x s'"
proof -
  let ?mem = "os_mem s @ [final_status (convertToBookOrder r)]"
  have match: "MatchOrder (ev_trade_id ev) (ev_trade_now ev) (os_mem s) (convertToBookOrder r) ob =
      Some \<lparr>mr_panic = None, mr_trades = [], mr_order = final_status (convertToBookOrder r),
            mr_mem = os_mem s, mr_book = ob\<rparr>"
    by (rule MatchOrder_no_cross) (use assms(4) in simp)
  obtain p where "bo_price (?mem ! length (os_mem s)) = Some p"
    using assms(3) by (auto simp: final_status_def convertToBookOrder_def)
  moreover have "ob_wf (ev_str ev) ?mem ob" using assms(1,2) by (intro ob_wf_grow) (simp add: books_wf_def)
  ultimately obtain ob' where add: "ob_AddOrder (ev_str ev) ?mem (length (os_mem s)) ob = Inr ob'"
    using book_add_appends [of "ev_str ev" ?mem ob "length (os_mem s)" p] by auto
  show ?thesis
    using assms(2) match add by (auto simp: fill_order_def Let_def split: prod.split sum.split)
qed

lemma quiet_order_returns:
  assumes "books_wf (ev_str ev) s" and "quiet_order ev u req s"
  shows "\<exists>x s'. CreateOrder ev u req s = Returns x s'"
proof (cases "validateOrderRequest req")
  case None
  then obtain ob p where ob: "os_books s (req_symbol req) = Some ob" "req_price req = Some p"
    "\<forall>l. \<not> crosses (convertToBookOrder (new_order ev u req)) ob l"
    using assms(2) by (auto simp: quiet_order_def)
  have "calculateRequiredAmount req fp \<noteq> Inl e" for fp e
    using ob(2) by (simp add: calculateRequiredAmount_def Let_def split: option.split)
  moreover have "\<exists>x s'. fill_order ev (new_order ev u req) (s\<lparr>os_world := w\<rparr>) = Returns x s'" for w
    by (rule quiet_fill_returns [of _ _ _ ob]) (use assms(1) ob in \<open>simp_all add: books_wf_def new_order_def\<close>)
  ultimately show ?thesis
    by (auto simp: CreateOrder_def None Let_def split: sum.split prod.split)
qed (simp add: CreateOrder_def)

lemma order_answered:
  assumes "books_wf (ev_str (dr_order dr)) (sv_orders s)"
    and "\<And>u body req. cd_order_request cd body = Some req \<Longrightarrow> quiet_order (dr_order dr) u req (sv_orders s)"
  shows "answered (createOrderHandler cd dr r hs s)"
proof -
  have "answered (process_order cd dr u key f body hs s')"
    if "on_world (CheckIdempotency jsonb u key f) s = (x, s')" for jsonb u key f body x s'
  proof (cases "cd_order_request cd body")
    case (Some req)
    have same: "os_books (sv_orders s') = os_books (sv_orders s)" "os_mem (sv_orders s') = os_mem (sv_orders s)"
      using that by (auto simp: on_world_def split: prod.splits)
    have "books_wf (ev_str (dr_order dr)) (sv_orders s')" "quiet_order (dr_order dr) u req (sv_orders s')"
      using assms(1) assms(2) [OF Some, of u] same by (simp_all add: books_wf_def quiet_order_def)
    then obtain y os where "CreateOrder (dr_order dr) u req (sv_orders s') = Returns y os"
      using quiet_order_returns by blast
    then show ?thesis by (auto simp: process_order_def Some split: sum.split option.split)
  qed (simp add: process_order_def)
  then show ?thesis
    by (auto simp: createOrderHandler_def keyed_request_def Let_def split: option.split prod.split sum.split)
qed

lemma middleware_answered:
  assumes "\<And>r hs s'. sv_orders s' = sv_orders s \<Longrightarrow> answered (h r hs s')"
  shows "answered (middleware parse now ev limiter h r hs s)"
  using assms
  by (auto simp: middleware_def AuthMiddleware_def after_auth_def RateLimitMiddleware_def corsMiddleware_def Let_def
      split: sum.split option.split prod.split)


section \<open>Examples\<close>

theorem fingerprint_has_two_values_witness:
  "let r = sample_request ''POST'' ''/api/orders''
        [(''Authorization'', [''Bearer access'']), (''Content-Type'', [''application/json''])] ''{}''
   in {fingerprint_of id r ''{}'', fingerprint_of rev r ''{}''} =
     {sha256_hex ''{}Authorization:Bearer accessContent-Type:application/json'',
      sha256_hex ''{}Content-Type:application/jsonAuthorization:Bearer access''}"
  using fingerprint_has_two_values [OF _ refl refl, of "sample_request ''POST'' ''/api/orders''
      [(''Authorization'', [''Bearer access'']), (''Content-Type'', [''application/json''])] ''{}''" "''{}''"]
  by (simp add: sample_request_def header_part_def Let_def)

definition sample_key :: idem_key where
  "sample_key = \<lparr>ik_user = 1, ik_key = ''k'', ik_fingerprint = ''f'', ik_code = 200, ik_body = ''ok'',
     ik_created_at = 7\<rparr>"

definition keyed_server :: server where
  "keyed_server = with_db (sample_db\<lparr>db_idem := [sample_key]\<rparr>) sample_server"

lemma keyed_server_ok: "ledger_ok (server_db keyed_server)"
proof -
  have "db_wf (sample_db\<lparr>db_idem := [sample_key]\<rparr>)"
  proof (rule insert_idem_wf [OF _ sample_db_wf])
    show "insert_idem 7 sample_key sample_db = Inr (sample_db\<lparr>db_idem := [sample_key]\<rparr>)"
      by (simp add: insert_idem_def sample_key_def sample_db_def has_user_def sample_user_def)
  qed
  moreover have "journal_sum (sample_db\<lparr>db_idem := [sample_key]\<rparr>) = journal_sum sample_db"
    by (simp add: journal_sum_def fun_eq_iff)
  ultimately show ?thesis using sample_db_ok
    by (simp add: keyed_server_def ledger_ok_def nonneg_balances_def journals_balanced_def)
qed

lemma length_f: "length ''f'' \<noteq> 64"
  by simp

theorem reused_key_conflicts_witness:
  "handler_of sample_codec sample_crypto sample_draws PlaceOrder sample_post (\<lambda>_. None) keyed_server =
    http_Error (\<lambda>_. None) ''Idempotency key mismatch'' 409 keyed_server"
proof -
  have "length (fingerprint_of (dr_visit sample_draws) sample_post ''pw'') = 64"
    by (simp add: fingerprint_of_def GenerateFingerprint_def)
  then have "''f'' \<noteq> fingerprint_of (dr_visit sample_draws) sample_post ''pw''" by (metis length_f)
  moreover have "key_stored 1 ''k'' ''f'' 200 ''ok'' (server_db keyed_server)"
    by (simp add: key_stored_def keyed_server_def sample_key_def)
  moreover have "w_faults (os_world (sv_orders keyed_server)) = []"
    using sample_post_hyps(5) by (simp add: keyed_server_def)
  ultimately show ?thesis
    using reused_key_conflicts [OF _ sample_post_hyps(1-4)] keyed_server_ok by blast
qed

theorem concurrent_topups_credit_twice_witness:
  "\<exists>b s1 s2. process_topup sample_codec sample_draws 1 ''k'' ''f'' ''pw'' (\<lambda>_. None) sample_server =
      json_reply (\<lambda>_. None) b s1 \<and>
    process_topup sample_codec sample_draws 1 ''k'' ''f'' ''pw'' (\<lambda>_. None) s1 =
      http_Error (\<lambda>_. None) ''Failed to store idempotency key'' 500 s2 \<and>
    balances (server_db s2) = (balances sample_db)(11 \<mapsto> (1100, 0))"
proof -
  have total: "\<exists>b. cd_topup_response sample_codec x = Some b" for x by (simp add: sample_codec_def)
  have fits: "acc_available (sample_account 11 1 CurrencyUSD 1000 0) +
      2 * treq_amount \<lparr>treq_amount = 50\<rparr> < 10 ^ 20" by simp
  show ?thesis
    using concurrent_topups_credit_twice [OF sample_post_hyps(5-12) fits total, of "''f''" sample_draws "\<lambda>_. None"
        sample_draws "\<lambda>_. None"]
    by (auto simp: sample_server_db)
qed

lemma sample_quiet: "quiet_order (dr_order sample_draws) u low_bid (sv_orders sample_server)"
proof -
  have "convertToBookOrder (new_order sample_env u low_bid) = (convertToBookOrder (new_order sample_env 1 low_bid))\<lparr>bo_user := u\<rparr>"
    by (simp add: convertToBookOrder_def new_order_def)
  then have "crosses (convertToBookOrder (new_order sample_env u low_bid)) sample_book l =
      crosses (convertToBookOrder (new_order sample_env 1 low_bid)) sample_book l" for l
    by (simp add: crosses_def opposite_def price_blocks_def)
  then show ?thesis using low_bid_crosses_none low_bid_hyps(4,8)
    by (simp add: quiet_order_def sample_draws_def sample_server_def)
qed


end
