(* ===== verification/WebSocket.thy ===== *)
theory WebSocket
  imports Quotes "HOL-Library.Sublist"
begin

text \<open>
  \<open>websocketQuotesHandler\<close> of \<open>cmd/monolith/main.go\<close>: connections that subscribe to both symbols
  and write every quote they receive, beside the quotes service that publishes to them.

  The goroutines interleave as a list of events: a connection opens, a quote is published, or one
  connection takes a turn of its \<open>select\<close> loop. A turn names the channel that \<open>select\<close> picked, and
  whether the write succeeded; it does not happen while the channel has nothing to receive. One event
  is atomic; what the two unlocked steps of \<open>updateQuote\<close> allow besides is in \<open>Quotes\<close>.
\<close>

section \<open>Connections\<close>

text \<open>\<open>ws_sent\<close> are the values written, where a receive on a closed channel yields \<open>nil\<close>.\<close>

record ws_conn =
  ws_btc :: cref
  ws_eth :: cref
  ws_sent :: "quote option list"
  ws_live :: bool

definition ws_open :: "quotes_service \<Rightarrow> ws_conn \<times> quotes_service" where
  "ws_open s =
     (case Subscribe SymbolBTCUSD s of (btcCh, s1) \<Rightarrow>
      case Subscribe SymbolETHUSD s1 of (ethCh, s2) \<Rightarrow>
        (\<lparr>ws_btc = btcCh, ws_eth = ethCh, ws_sent = [], ws_live = True\<rparr>, s2))"

text \<open>The deferred calls, the last one first.\<close>

definition ws_close :: "ws_conn \<Rightarrow> quotes_service \<Rightarrow> panic + quotes_service" where
  "ws_close c s =
     (case Unsubscribe SymbolETHUSD (ws_eth c) s of
        Inl p \<Rightarrow> Inl p
      | Inr s1 \<Rightarrow> Unsubscribe SymbolBTCUSD (ws_btc c) s1)"

definition select_recv :: "cref \<Rightarrow> quotes_service \<Rightarrow> (quote option \<times> quotes_service) option" where
  "select_recv c s =
     (case chan_recv c s of
        (Some q, s') \<Rightarrow> Some (Some q, s')
      | (None, s') \<Rightarrow> if ch_closed (qs_chans s ! c) then Some (None, s') else None)"

record hub =
  hb_service :: quotes_service
  hb_conns :: "ws_conn list"

datatype hub_event =
    Connect
  | Publish quote
  | Turn nat bool bool

definition ws_turn :: "nat \<Rightarrow> bool \<Rightarrow> bool \<Rightarrow> hub \<Rightarrow> panic + hub" where
  "ws_turn i btc ok h =
     (let c = hb_conns h ! i in
      if \<not> (i < length (hb_conns h) \<and> ws_live c) then Inr h
      else (case select_recv (if btc then ws_btc c else ws_eth c) (hb_service h) of
              None \<Rightarrow> Inr h
            | Some (m, s) \<Rightarrow>
                if ok
                then Inr (h\<lparr>hb_service := s, hb_conns := (hb_conns h)[i := c\<lparr>ws_sent := ws_sent c @ [m]\<rparr>]\<rparr>)
                else map_sum id (\<lambda>s'. h\<lparr>hb_service := s', hb_conns := (hb_conns h)[i := c\<lparr>ws_live := False\<rparr>]\<rparr>)
                       (ws_close c s)))"

fun hub_step :: "hub_event \<Rightarrow> hub \<Rightarrow> panic + hub" where
  "hub_step Connect h =
     (case ws_open (hb_service h) of (c, s) \<Rightarrow> Inr (h\<lparr>hb_service := s, hb_conns := hb_conns h @ [c]\<rparr>))"
| "hub_step (Publish q) h = map_sum id (\<lambda>s. h\<lparr>hb_service := s\<rparr>) (updateQuote q (hb_service h))"
| "hub_step (Turn i btc ok) h = ws_turn i btc ok h"

definition hub_start :: hub where
  "hub_start = \<lparr>hb_service = NewQuotesService, hb_conns = []\<rparr>"

definition hub_run :: "hub_event list \<Rightarrow> hub \<Rightarrow> panic + hub" where
  "hub_run evs h = fold_result hub_step evs h"

section \<open>Invariant\<close>

text \<open>The channel of a connection for a symbol, and the quotes of the symbol it has written.\<close>

definition ws_chan :: "symbol \<Rightarrow> ws_conn \<Rightarrow> cref" where
  "ws_chan sy c = (if sy = SymbolBTCUSD then ws_btc c else ws_eth c)"

definition written :: "symbol \<Rightarrow> ws_conn \<Rightarrow> quote list" where
  "written sy c = filter (\<lambda>q. q_symbol q = sy) (map the (ws_sent c))"

fun published :: "symbol \<Rightarrow> hub_event list \<Rightarrow> quote list" where
  "published sy [] = []"
| "published sy (Publish q # evs) = (if q_symbol q = sy then q # published sy evs else published sy evs)"
| "published sy (ev # evs) = published sy evs"

lemma published_append [simp]: "published sy (evs @ evs') = published sy evs @ published sy evs'"
  by (induction sy evs rule: published.induct) auto

definition waiting :: "symbol \<Rightarrow> ws_conn \<Rightarrow> quotes_service \<Rightarrow> quote list" where
  "waiting sy c s = (if ws_live c then ch_buf (qs_chans s ! ws_chan sy c) else [])"

text \<open>
  The subscribers of a symbol are the channels of the live connections, in the order they came; what a
  connection wrote and what waits for it are published quotes of the symbol, in their order.
\<close>

definition feeds :: "symbol set" where
  "feeds = {SymbolBTCUSD, SymbolETHUSD}"

definition fed :: "symbol \<Rightarrow> hub_event list \<Rightarrow> quotes_service \<Rightarrow> ws_conn \<Rightarrow> bool" where
  "fed sy evs s c \<longleftrightarrow> None \<notin> set (ws_sent c) \<and> (\<forall>q \<in> set (waiting sy c s). q_symbol q = sy) \<and>
     subseq (written sy c @ waiting sy c s) (published sy evs)"

definition hub_ok :: "hub_event list \<Rightarrow> hub \<Rightarrow> bool" where
  "hub_ok evs h \<longleftrightarrow> qs_wf (hb_service h) \<and>
     (\<forall>sy \<in> feeds. qs_subs (hb_service h) sy = map (ws_chan sy) (filter ws_live (hb_conns h)) \<and>
        (\<forall>c \<in> set (hb_conns h). fed sy evs (hb_service h) c))"

lemma hub_okD:
  assumes "hub_ok evs h"
  shows "qs_wf (hb_service h)"
    and "sy \<in> feeds \<Longrightarrow> qs_subs (hb_service h) sy = map (ws_chan sy) (filter ws_live (hb_conns h))"
    and "sy \<in> feeds \<Longrightarrow> c \<in> set (hb_conns h) \<Longrightarrow> fed sy evs (hb_service h) c"
  using assms by (auto simp: hub_ok_def)

lemma hub_start_ok: "hub_ok [] hub_start"
  using NewQuotesService_wf by (simp add: hub_ok_def hub_start_def NewQuotesService_def)

text \<open>The channels of live connections are open, and no two are the same.\<close>

lemma live_chan:
  assumes "hub_ok evs h" and "c \<in> set (hb_conns h)" and "ws_live c" and "sy \<in> feeds"
  shows "ws_chan sy c \<in> set (qs_subs (hb_service h) sy)"
    and "ws_chan sy c < length (qs_chans (hb_service h))"
    and "\<not> ch_closed (qs_chans (hb_service h) ! ws_chan sy c)"
proof -
  show m: "ws_chan sy c \<in> set (qs_subs (hb_service h) sy)"
    using assms(2,3) by (simp add: hub_okD(2) [OF assms(1,4)])
  show "ws_chan sy c < length (qs_chans (hb_service h))" "\<not> ch_closed (qs_chans (hb_service h) ! ws_chan sy c)"
    using hub_okD(1) [OF assms(1)] m by (auto simp: qs_wf_def)
qed

lemma foreign_chan:
  assumes "hub_ok evs h" and "c \<in> set (hb_conns h)" and "ws_live c" and "sy \<in> feeds" and "sy \<noteq> sy'"
  shows "ws_chan sy c \<notin> set (qs_subs (hb_service h) sy')"
  using live_chan(1) [OF assms(1-4)] hub_okD(1) [OF assms(1)] assms(5) unfolding qs_wf_def by blast

lemma other_chan:
  assumes "hub_ok evs h" and "hb_conns h = us @ c # vs" and "ws_live c" and "sy \<in> feeds"
    and "d \<in> set us \<union> set vs" and "ws_live d" and "sy' \<in> feeds"
  shows "ws_chan sy' d \<noteq> ws_chan sy c"
proof (cases "sy' = sy")
  case True
  have "distinct (qs_subs (hb_service h) sy)" using hub_okD(1) [OF assms(1)] by (simp add: qs_wf_def)
  then have "distinct (map (ws_chan sy) (filter ws_live us @ c # filter ws_live vs))"
    using assms(3) by (simp add: hub_okD(2) [OF assms(1,4)] assms(2))
  then show ?thesis using assms(5,6) True by (auto simp: image_iff)
next
  case False
  have "ws_chan sy c \<notin> set (qs_subs (hb_service h) sy')"
    using foreign_chan [OF assms(1) _ assms(3,4)] assms(2) False by simp
  moreover have "ws_chan sy' d \<in> set (qs_subs (hb_service h) sy')"
    using live_chan(1) [OF assms(1) _ assms(6,7)] assms(2,5) by auto
  ultimately show ?thesis by auto
qed

section \<open>Every event keeps the invariant\<close>

lemma subseq_snoc: "subseq xs ys \<Longrightarrow> subseq xs (ys @ [y])"
  using list_emb_append2 [of "(=)" xs ys "[y]"] by (simp add: subseq_rev_drop_many)

lemma connect_ok:
  assumes "hub_ok evs h"
  shows "\<exists>h'. hub_step Connect h = Inr h' \<and> hub_ok (evs @ [Connect]) h'"
proof -
  let ?s = "hb_service h" and ?n = "length (qs_chans (hb_service h))"
  let ?c = "\<lparr>ws_btc = ?n, ws_eth = Suc ?n, ws_sent = [], ws_live = True\<rparr>"
  let ?s1 = "snd (Subscribe SymbolBTCUSD ?s)"
  let ?s2 = "snd (Subscribe SymbolETHUSD ?s1)"
  have op: "ws_open ?s = (?c, ?s2)"
    by (simp add: ws_open_def Subscribe_def Let_def)
  have chans: "qs_chans ?s2 = qs_chans ?s @ [\<lparr>ch_buf = [], ch_closed = False\<rparr>, \<lparr>ch_buf = [], ch_closed = False\<rparr>]"
    by (simp add: Subscribe_def Let_def)
  have subs: "qs_subs ?s2 sy = qs_subs ?s sy @ [ws_chan sy ?c]" if "sy \<in> feeds" for sy
    using that by (auto simp: Subscribe_def Let_def ws_chan_def feeds_def)
  have old: "fed sy (evs @ [Connect]) ?s2 d" if "d \<in> set (hb_conns h)" "sy \<in> feeds" for d sy
  proof -
    have "waiting sy d ?s2 = waiting sy d ?s"
      using live_chan(2) [OF assms that(1) _ that(2)] unfolding waiting_def chans by (simp add: nth_append)
    then show ?thesis using hub_okD(3) [OF assms that(2,1)] by (simp add: fed_def)
  qed
  have "fed sy (evs @ [Connect]) ?s2 ?c" for sy
    unfolding fed_def waiting_def written_def chans by (simp add: nth_append ws_chan_def)
  moreover have "qs_wf ?s2" by (intro Subscribe_wf hub_okD(1) [OF assms])
  ultimately have "hub_ok (evs @ [Connect]) (h\<lparr>hb_service := ?s2, hb_conns := hb_conns h @ [?c]\<rparr>)"
    using old subs hub_okD(2) [OF assms] by (simp add: hub_ok_def)
  then show ?thesis by (simp add: op)
qed

lemma publish_ok:
  assumes "hub_ok evs h"
  shows "\<exists>h'. hub_step (Publish q) h = Inr h' \<and> hub_ok (evs @ [Publish q]) h'"
proof -
  let ?s = "hb_service h"
  obtain s where s: "updateQuote q ?s = Inr s" "qs_wf s" "qs_subs s = qs_subs ?s"
    "\<forall>c < length (qs_chans ?s). qs_chans s ! c =
       (if c \<in> set (qs_subs ?s (q_symbol q)) then chan_push q (qs_chans ?s ! c) else qs_chans ?s ! c)"
    using updateQuote_wf [OF hub_okD(1) [OF assms], of q] by blast
  have fed: "fed sy (evs @ [Publish q]) s c" if c: "c \<in> set (hb_conns h)" and sy: "sy \<in> feeds" for c sy
  proof -
    note inv = hub_okD(3) [OF assms sy c, unfolded fed_def]
    note chan = live_chan [OF assms c _ sy]
    have own: "ws_live c \<Longrightarrow> ws_chan sy c \<in> set (qs_subs ?s (q_symbol q)) \<longleftrightarrow> q_symbol q = sy"
      using foreign_chan [OF assms c _ sy, of "q_symbol q"] chan(1) by auto
    have app: "subseq (written sy c @ waiting sy c ?s @ [q]) (published sy evs @ [q])"
      using list_emb_append_mono [of "(=)" "written sy c @ waiting sy c ?s" "published sy evs" "[q]" "[q]"] inv
      by simp
    have "waiting sy c s = waiting sy c ?s \<or> q_symbol q = sy \<and> waiting sy c s = waiting sy c ?s @ [q]"
      using s(4) chan own by (auto simp: waiting_def chan_push_def)
    then show ?thesis using inv app subseq_snoc [of _ "published sy evs" q] by (auto simp: fed_def)
  qed
  then have "hub_ok (evs @ [Publish q]) (h\<lparr>hb_service := s\<rparr>)"
    using s(2,3) hub_okD(2) [OF assms] by (simp add: hub_ok_def)
  then show ?thesis by (simp add: s(1))
qed


text \<open>A live connection has something to receive exactly when its buffer is not empty.\<close>

lemma select_live:
  assumes "hub_ok evs h" and "c \<in> set (hb_conns h)" and "ws_live c" and "sy \<in> feeds"
  shows "select_recv (ws_chan sy c) (hb_service h) =
    (case ch_buf (qs_chans (hb_service h) ! ws_chan sy c) of
       [] \<Rightarrow> None
     | q # qs \<Rightarrow> Some (Some q, (hb_service h)\<lparr>qs_chans := (qs_chans (hb_service h))
         [ws_chan sy c := (qs_chans (hb_service h) ! ws_chan sy c)\<lparr>ch_buf := qs\<rparr>]\<rparr>))"
  using live_chan(3) [OF assms] by (simp add: select_recv_def chan_recv_def split: list.split)

lemma recv_wf:
  assumes "qs_wf s" and "c < length (qs_chans s)" and "ch_buf (qs_chans s ! c) = q # qs"
  shows "qs_wf (s\<lparr>qs_chans := (qs_chans s)[c := (qs_chans s ! c)\<lparr>ch_buf := qs\<rparr>]\<rparr>)"
proof -
  let ?chans = "(qs_chans s)[c := (qs_chans s ! c)\<lparr>ch_buf := qs\<rparr>]"
  have "length (ch_buf (qs_chans s ! c)) \<le> chan_cap" using assms(1) nth_mem [OF assms(2)] by (simp add: qs_wf_def)
  then have cap: "length (ch_buf ch) \<le> chan_cap" if "ch \<in> set ?chans" for ch
    using subsetD [OF set_update_subset_insert that] assms(1,3) by (auto simp: qs_wf_def)
  have opn: "x < length ?chans \<and> \<not> ch_closed (?chans ! x)" if "x \<in> set (qs_subs s sy)" for x sy
  proof -
    have "x < length (qs_chans s) \<and> \<not> ch_closed (qs_chans s ! x)" using assms(1) that unfolding qs_wf_def by blast
    then show ?thesis by (cases "x = c") auto
  qed
  show ?thesis using assms(1) cap opn by (simp add: qs_wf_def)
qed

lemma ws_turn_chan: "(if btc then ws_btc c else ws_eth c) = ws_chan (if btc then SymbolBTCUSD else SymbolETHUSD) c"
  by (simp add: ws_chan_def)

lemma ws_chan_sent [simp]: "ws_chan sy (c\<lparr>ws_sent := xs\<rparr>) = ws_chan sy c"
  by (simp add: ws_chan_def)

text \<open>A turn that writes moves the first waiting quote to the end of what was written.\<close>

lemma turn_writes:
  assumes "hub_ok evs h" and "hb_conns h = us @ c # vs" and "ws_live c" and "sy \<in> feeds"
    and "ch_buf (qs_chans (hb_service h) ! ws_chan sy c) = q # qs"
    and "s = (hb_service h)\<lparr>qs_chans := (qs_chans (hb_service h))
           [ws_chan sy c := (qs_chans (hb_service h) ! ws_chan sy c)\<lparr>ch_buf := qs\<rparr>]\<rparr>"
  shows "hub_ok evs (h\<lparr>hb_service := s, hb_conns := us @ c\<lparr>ws_sent := ws_sent c @ [Some q]\<rparr> # vs\<rparr>)"
proof -
  let ?c = "c\<lparr>ws_sent := ws_sent c @ [Some q]\<rparr>"
  have c: "c \<in> set (hb_conns h)" using assms(2) by simp
  note chan = live_chan [OF assms(1) c assms(3,4)]
  have "fed sy' evs s d" if d: "d \<in> set us \<union> set vs" and sy': "sy' \<in> feeds" for d sy'
  proof -
    have "waiting sy' d s = waiting sy' d (hb_service h)"
      using other_chan [OF assms(1-4) d _ sy'] by (auto simp: waiting_def assms(6))
    then show ?thesis using hub_okD(3) [OF assms(1) sy', of d] d assms(2) by (auto simp: fed_def)
  qed
  moreover have "fed sy' evs s ?c" if sy': "sy' \<in> feeds" for sy'
  proof (cases "sy' = sy")
    case True
    have w: "waiting sy c (hb_service h) = q # qs" using assms(3,5) by (simp add: waiting_def)
    then have "q_symbol q = sy" using hub_okD(3) [OF assms(1,4) c] by (simp add: fed_def)
    moreover have "waiting sy ?c s = qs" using assms(3) chan(2) by (simp add: waiting_def assms(6))
    ultimately show ?thesis
      using hub_okD(3) [OF assms(1,4) c] w True by (simp add: fed_def written_def)
  next
    case False
    have "ws_chan sy' c \<noteq> ws_chan sy c"
      using foreign_chan [OF assms(1) c assms(3) sy' False] chan(1) by auto
    then have "waiting sy' ?c s = waiting sy' c (hb_service h)" by (simp add: waiting_def assms(6))
    moreover have "q_symbol q = sy"
      using hub_okD(3) [OF assms(1,4) c] assms(3,5) by (simp add: fed_def waiting_def)
    then have "written sy' ?c = written sy' c" using False by (simp add: written_def)
    ultimately show ?thesis using hub_okD(3) [OF assms(1) sy' c] by (simp add: fed_def)
  qed
  moreover have "qs_wf s" unfolding assms(6) by (rule recv_wf [OF hub_okD(1) [OF assms(1)] chan(2) assms(5)])
  ultimately show ?thesis
    using hub_okD(2) [OF assms(1)] assms(2,3) by (auto simp: hub_ok_def assms(6))
qed


lemma Unsubscribe_bufs: "Unsubscribe sy c s = Inr s' \<Longrightarrow> ch_buf (qs_chans s' ! x) = ch_buf (qs_chans s ! x)"
  by (cases "c < length (qs_chans s)"; cases "x = c")
    (auto simp: Unsubscribe_alt close_chan_def list_update_beyond split: if_splits)

lemma ws_close_sent [simp]: "ws_close (c\<lparr>ws_sent := xs\<rparr>) s = ws_close c s"
  by (auto simp: ws_close_def split: sum.split)

text \<open>A connection that leaves, whatever it wrote last, takes just its own channels out.\<close>

lemma leave_ok:
  assumes "hub_ok evs h" and "hb_conns h = us @ c # vs" and "ws_live c" and "ws_sent c = xs @ ys"
  shows "\<exists>s'. ws_close c (hb_service h) = Inr s' \<and>
    hub_ok evs (h\<lparr>hb_service := s', hb_conns := us @ c\<lparr>ws_live := False, ws_sent := xs\<rparr> # vs\<rparr>)"
proof -
  let ?s = "hb_service h" and ?c = "c\<lparr>ws_live := False, ws_sent := xs\<rparr>"
  have c: "c \<in> set (hb_conns h)" using assms(2) by simp
  have feeds: "SymbolBTCUSD \<in> feeds" "SymbolETHUSD \<in> feeds" by (simp_all add: feeds_def)
  note eth = live_chan(1) [OF assms(1) c assms(3) feeds(2)] and btc = live_chan(1) [OF assms(1) c assms(3) feeds(1)]
  obtain s1 where s1: "Unsubscribe SymbolETHUSD (ws_eth c) ?s = Inr s1" "qs_wf s1"
    "qs_subs s1 = (qs_subs ?s)(SymbolETHUSD := remove1 (ws_eth c) (qs_subs ?s SymbolETHUSD))"
    using Unsubscribe_wf [OF hub_okD(1) [OF assms(1)], of "ws_eth c" SymbolETHUSD] eth by (auto simp: ws_chan_def)
  then obtain s2 where s2: "Unsubscribe SymbolBTCUSD (ws_btc c) s1 = Inr s2" "qs_wf s2"
    "qs_subs s2 = (qs_subs s1)(SymbolBTCUSD := remove1 (ws_btc c) (qs_subs s1 SymbolBTCUSD))"
    using Unsubscribe_wf [of s1 "ws_btc c" SymbolBTCUSD] btc by (auto simp: ws_chan_def)
  have bufs: "ch_buf (qs_chans s2 ! x) = ch_buf (qs_chans ?s ! x)" for x
    using Unsubscribe_bufs [OF s1(1)] Unsubscribe_bufs [OF s2(1)] by simp
  have subs: "qs_subs s2 sy = map (ws_chan sy) (filter ws_live (us @ ?c # vs))" if sy: "sy \<in> feeds" for sy
  proof -
    have "ws_chan sy c \<notin> ws_chan sy ` set (filter ws_live us)"
      using other_chan [OF assms(1-3) sy _ _ sy] by fastforce
    note new = remove1_append [of "ws_chan sy c" "map (ws_chan sy) (filter ws_live us)"] this
    have "qs_subs s2 sy = remove1 (ws_chan sy c) (qs_subs ?s sy)"
      using sy s1(3) s2(3) by (auto simp: feeds_def ws_chan_def)
    also have "\<dots> = remove1 (ws_chan sy c)
        (map (ws_chan sy) (filter ws_live us) @ ws_chan sy c # map (ws_chan sy) (filter ws_live vs))"
      using hub_okD(2) [OF assms(1) sy] assms(2,3) by simp
    also have "\<dots> = map (ws_chan sy) (filter ws_live us) @ map (ws_chan sy) (filter ws_live vs)"
      using new by simp
    finally show ?thesis by simp
  qed
  have "fed sy evs s2 d" if "d \<in> set us \<union> set vs" "sy \<in> feeds" for d sy
    using hub_okD(3) [OF assms(1) that(2), of d] that(1) assms(2) bufs by (auto simp: fed_def waiting_def)
  moreover have "fed sy evs s2 ?c" if sy: "sy \<in> feeds" for sy
  proof -
    have "subseq (written sy ?c) (written sy c @ waiting sy c ?s)"
      unfolding written_def by (simp add: assms(4) list_emb_append2 prefix_imp_subseq)
    then show ?thesis using hub_okD(3) [OF assms(1) sy c] assms(4)
      by (auto simp: fed_def waiting_def intro: subseq_order.trans)
  qed
  ultimately have "hub_ok evs (h\<lparr>hb_service := s2, hb_conns := us @ ?c # vs\<rparr>)"
    using subs s2(2) by (simp add: hub_ok_def)
  then show ?thesis using s1(1) s2(1) by (auto simp: ws_close_def)
qed

lemma published_turn [simp]: "published sy (evs @ [Turn i btc ok]) = published sy evs"
  by simp

lemma turn_ok:
  assumes "hub_ok evs h"
  shows "\<exists>h'. ws_turn i btc ok h = Inr h' \<and> hub_ok evs h'"
proof (cases "i < length (hb_conns h) \<and> ws_live (hb_conns h ! i)")
  case False
  then show ?thesis using assms by (auto simp: ws_turn_def Let_def)
next
  case True
  let ?c = "hb_conns h ! i" and ?sy = "if btc then SymbolBTCUSD else SymbolETHUSD"
  let ?us = "take i (hb_conns h)" and ?vs = "drop (Suc i) (hb_conns h)"
  have conns: "hb_conns h = ?us @ ?c # ?vs" using True by (simp add: id_take_nth_drop)
  have upd: "(hb_conns h)[i := d] = ?us @ d # ?vs" for d using True by (simp add: upd_conv_take_nth_drop)
  have sy: "?sy \<in> feeds" by (simp add: feeds_def)
  have c: "?c \<in> set (hb_conns h)" using True by simp
  have sel: "select_recv (if btc then ws_btc ?c else ws_eth ?c) (hb_service h) =
      (case ch_buf (qs_chans (hb_service h) ! ws_chan ?sy ?c) of
         [] \<Rightarrow> None
       | q # qs \<Rightarrow> Some (Some q, (hb_service h)\<lparr>qs_chans := (qs_chans (hb_service h))
           [ws_chan ?sy ?c := (qs_chans (hb_service h) ! ws_chan ?sy ?c)\<lparr>ch_buf := qs\<rparr>]\<rparr>))"
    unfolding ws_turn_chan by (rule select_live [OF assms c _ sy]) (use True in simp)
  show ?thesis
  proof (cases "ch_buf (qs_chans (hb_service h) ! ws_chan ?sy ?c)")
    case Nil
    then show ?thesis using assms True sel by (simp add: ws_turn_def Let_def del: ws_chan_sent)
  next
    case (Cons q qs)
    let ?s = "(hb_service h)\<lparr>qs_chans := (qs_chans (hb_service h))
        [ws_chan ?sy ?c := (qs_chans (hb_service h) ! ws_chan ?sy ?c)\<lparr>ch_buf := qs\<rparr>]\<rparr>"
    let ?h = "h\<lparr>hb_service := ?s, hb_conns := ?us @ ?c\<lparr>ws_sent := ws_sent ?c @ [Some q]\<rparr> # ?vs\<rparr>"
    have ok: "hub_ok evs ?h" using turn_writes [OF assms conns _ sy Cons refl] True by simp
    have run: "ws_turn i btc ok h = (if ok then Inr ?h
        else map_sum id (\<lambda>s'. h\<lparr>hb_service := s', hb_conns := ?us @ ?c\<lparr>ws_live := False\<rparr> # ?vs\<rparr>) (ws_close ?c ?s))"
      unfolding ws_turn_def Let_def sel Cons using True upd by simp
    obtain s' where "ws_close (?c\<lparr>ws_sent := ws_sent ?c @ [Some q]\<rparr>) ?s = Inr s'"
      "hub_ok evs (?h\<lparr>hb_service := s', hb_conns :=
         ?us @ (?c\<lparr>ws_sent := ws_sent ?c @ [Some q]\<rparr>)\<lparr>ws_live := False, ws_sent := ws_sent ?c\<rparr> # ?vs\<rparr>)"
      using leave_ok [OF ok, of ?us _ ?vs "ws_sent ?c" "[Some q]"] True by auto
    then show ?thesis using run ok by simp
  qed
qed


lemma run_ok: "\<exists>h. hub_run evs hub_start = Inr h \<and> hub_ok evs h"
proof (induction evs rule: rev_induct)
  case Nil
  then show ?case using hub_start_ok by (simp add: hub_run_def)
next
  case (snoc ev evs)
  then obtain h where h: "hub_run evs hub_start = Inr h" "hub_ok evs h" by blast
  have "\<exists>h'. hub_step ev h = Inr h' \<and> hub_ok (evs @ [ev]) h'"
  proof (cases ev)
    case (Turn i btc ok)
    then show ?thesis using turn_ok [OF h(2), of i btc ok] by (simp add: hub_ok_def fed_def)
  qed (use connect_ok [OF h(2)] publish_ok [OF h(2)] in simp_all)
  then show ?case using h(1) by (auto simp: hub_run_def fold_result_append)
qed

section \<open>Properties\<close>



lemma read_all:
  assumes "hub_ok evs h" and "i < length (hb_conns h)" and "ws_live (hb_conns h ! i)"
    and "ch_buf (qs_chans (hb_service h) ! ws_chan (if btc then SymbolBTCUSD else SymbolETHUSD) (hb_conns h ! i)) = qs"
  shows "\<exists>h'. hub_run (replicate (length qs) (Turn i btc True)) h = Inr h' \<and>
    ws_sent (hb_conns h' ! i) = ws_sent (hb_conns h ! i) @ map Some qs"
  using assms
proof (induction qs arbitrary: h)
  case (Cons q qs)
  let ?c = "hb_conns h ! i" and ?sy = "if btc then SymbolBTCUSD else SymbolETHUSD"
  let ?x = "ws_chan ?sy ?c"
  let ?s = "(hb_service h)\<lparr>qs_chans := (qs_chans (hb_service h))[?x := (qs_chans (hb_service h) ! ?x)\<lparr>ch_buf := qs\<rparr>]\<rparr>"
  let ?h = "h\<lparr>hb_service := ?s, hb_conns := (hb_conns h)[i := ?c\<lparr>ws_sent := ws_sent ?c @ [Some q]\<rparr>]\<rparr>"
  have c: "?c \<in> set (hb_conns h)" and sy: "?sy \<in> feeds" using Cons.prems(2) by (simp_all add: feeds_def)
  have x: "?x < length (qs_chans (hb_service h))" by (rule live_chan(2) [OF Cons.prems(1) c Cons.prems(3) sy])
  have run: "ws_turn i btc True h = Inr ?h"
    using Cons.prems unfolding ws_turn_def Let_def select_recv_def chan_recv_def ws_turn_chan by simp
  then have ok: "hub_ok evs ?h" using turn_ok [OF Cons.prems(1), of i btc True] by auto
  have at: "hb_conns ?h ! i = ?c\<lparr>ws_sent := ws_sent ?c @ [Some q]\<rparr>" using Cons.prems(2) by simp
  have "ch_buf (qs_chans (hb_service ?h) ! ws_chan ?sy (hb_conns ?h ! i)) = qs"
    unfolding at ws_chan_sent using x by simp
  moreover have "ws_live (hb_conns ?h ! i)" "i < length (hb_conns ?h)" using Cons.prems(2,3) by simp_all
  ultimately obtain h' where "hub_run (replicate (length qs) (Turn i btc True)) ?h = Inr h'"
    "ws_sent (hb_conns h' ! i) = ws_sent (hb_conns ?h ! i) @ map Some qs"
    using Cons.IH [OF ok] by blast
  then show ?case using run at by (auto simp: hub_run_def)
qed (simp add: hub_run_def)

text \<open>
  C40: a quote that is published while a live connection has room for it is written to that connection
  as soon as the connection has taken one turn more on its channel than it had quotes waiting.
\<close>

theorem published_quote_is_written:
  assumes "hub_run evs hub_start = Inr h" and "i < length (hb_conns h)" and "ws_live (hb_conns h ! i)"
    and "q_symbol q = (if btc then SymbolBTCUSD else SymbolETHUSD)"
    and "qs = ch_buf (qs_chans (hb_service h) ! ws_chan (if btc then SymbolBTCUSD else SymbolETHUSD) (hb_conns h ! i))"
    and "length qs < 10"
  shows "\<exists>h'. hub_run (evs @ Publish q # replicate (Suc (length qs)) (Turn i btc True)) hub_start = Inr h' \<and>
    ws_sent (hb_conns h' ! i) = ws_sent (hb_conns h ! i) @ map Some qs @ [Some q]"
proof -
  let ?c = "hb_conns h ! i" and ?sy = "if btc then SymbolBTCUSD else SymbolETHUSD"
  have ok: "hub_ok evs h" using run_ok [of evs] assms(1) by auto
  have c: "?c \<in> set (hb_conns h)" and sy: "?sy \<in> feeds" using assms(2) by (simp_all add: feeds_def)
  note chan = live_chan [OF ok c assms(3) sy]
  obtain s where s: "updateQuote q (hb_service h) = Inr s"
    "\<forall>c < length (qs_chans (hb_service h)). qs_chans s ! c =
       (if c \<in> set (qs_subs (hb_service h) (q_symbol q)) then chan_push q (qs_chans (hb_service h) ! c)
        else qs_chans (hb_service h) ! c)"
    using updateQuote_wf [OF hub_okD(1) [OF ok], of q] by blast
  have buf: "ch_buf (qs_chans s ! ws_chan ?sy ?c) = qs @ [q]"
    using s(2) chan(1,2) assms(4-6) by (simp add: chan_push_def chan_cap_def)
  let ?h = "h\<lparr>hb_service := s\<rparr>"
  have pub: "hub_step (Publish q) h = Inr ?h" using s(1) by simp
  then have "hub_ok (evs @ [Publish q]) ?h" using publish_ok [OF ok, of q] by auto
  from read_all [OF this, of i btc "qs @ [q]"] obtain h' where
    "hub_run (replicate (length (qs @ [q])) (Turn i btc True)) ?h = Inr h'"
    "ws_sent (hb_conns h' ! i) = ws_sent ?c @ map Some (qs @ [q])"
    using assms(2,3) buf by auto
  then show ?thesis using assms(1) pub by (auto simp: hub_run_def fold_result_append)
qed

theorem published_quote_is_written_witness:
  "\<exists>h'. hub_run [Connect, Publish sample_quote, Turn 0 True True] hub_start = Inr h' \<and>
    ws_sent (hb_conns h' ! 0) = [Some sample_quote]"
proof -
  obtain h where h: "hub_run [Connect] hub_start = Inr h" "hb_conns h = [\<lparr>ws_btc = 0, ws_eth = 1, ws_sent = [], ws_live = True\<rparr>]"
    "ch_buf (qs_chans (hb_service h) ! 0) = []"
    by (simp add: hub_run_def hub_start_def ws_open_def Subscribe_def NewQuotesService_def Let_def)
  show ?thesis
    using published_quote_is_written [OF h(1), of 0 sample_quote True "[]"] h(2,3)
    by (simp add: sample_quote_def mock_quote_def ws_chan_def)
qed



end
