(* ===== verification/Interleaving.thy ===== *)
theory Interleaving
  imports Ledger
begin

text \<open>
  Two ledger operations at once. The four operations of \<open>internal/ledger/service.go\<close> read their accounts
  through \<open>s.db\<close>, outside their transaction and without a lock, and later write balances as numbers;
  another request may run in between. Here each operation is cut at that point.
\<close>

section \<open>The two halves of an operation\<close>

definition hold_read :: "uuid \<Rightarrow> currency \<Rightarrow> decimal \<Rightarrow> (tx \<times> account) io" where
  "hold_read userID c amount =
     (if amount \<le> 0 then io_error (Errorf ''amount must be positive'')
      else
        io_bind (io_wrap ''failed to begin transaction'' db_Begin) (\<lambda>t.
        io_bind (io_wrap ''failed to get account'' (GetAccountByUserIDAndCurrency userID c)) (\<lambda>a.
        if acc_available a < amount
        then io_error (ErrorfDec ''insufficient funds: available=%s, required=%s'' [acc_available a, amount])
        else io_return (t, a))))"

definition hold_write :: "decimal \<Rightarrow> tx \<times> account \<Rightarrow> unit io" where
  "hold_write amount = (\<lambda>(t, a).
     io_bind (io_wrap ''failed to update account balance''
               (UpdateAccountBalance t (acc_id a) (acc_available a - amount) (acc_hold a + amount))) (\<lambda>t.
     io_wrap ''failed to commit transaction'' (tx_Commit t)))"

definition release_read :: "uuid \<Rightarrow> currency \<Rightarrow> decimal \<Rightarrow> (tx \<times> account) io" where
  "release_read userID c amount =
     (if amount \<le> 0 then io_error (Errorf ''amount must be positive'')
      else
        io_bind (io_wrap ''failed to begin transaction'' db_Begin) (\<lambda>t.
        io_bind (io_wrap ''failed to get account'' (GetAccountByUserIDAndCurrency userID c)) (\<lambda>a.
        if acc_hold a < amount
        then io_error (ErrorfDec ''insufficient held funds: held=%s, required=%s'' [acc_hold a, amount])
        else io_return (t, a))))"

definition release_write :: "decimal \<Rightarrow> tx \<times> account \<Rightarrow> unit io" where
  "release_write amount = (\<lambda>(t, a).
     io_bind (io_wrap ''failed to update account balance''
               (UpdateAccountBalance t (acc_id a) (acc_available a + amount) (acc_hold a - amount))) (\<lambda>t.
     io_wrap ''failed to commit transaction'' (tx_Commit t)))"

definition topup_read :: "uuid \<Rightarrow> decimal \<Rightarrow> (tx \<times> account) io" where
  "topup_read userID amount =
     (if amount \<le> 0 then io_error (Errorf ''amount must be positive'')
      else
        io_bind (io_wrap ''failed to begin transaction'' db_Begin) (\<lambda>t.
        io_bind (io_wrap ''failed to get USD account'' (GetAccountByUserIDAndCurrency userID CurrencyUSD)) (\<lambda>a.
        io_return (t, a))))"

definition topup_write :: "uuid \<Rightarrow> decimal \<Rightarrow> tx \<times> account \<Rightarrow> account io" where
  "topup_write jid amount = (\<lambda>(t, a).
     io_bind (io_wrap ''failed to create journal'' (CreateJournal t (topup_entries jid (acc_id a) amount))) (\<lambda>t.
     let newBalance = acc_available a + amount in
     io_bind (io_wrap ''failed to update account balance''
               (UpdateAccountBalance t (acc_id a) newBalance (acc_hold a))) (\<lambda>t.
     io_bind (io_wrap ''failed to commit transaction'' (tx_Commit t)) (\<lambda>_.
     io_return (a\<lparr>acc_available := newBalance\<rparr>)))))"

definition transfer_read :: "uuid \<Rightarrow> uuid \<Rightarrow> decimal \<Rightarrow> (tx \<times> account \<times> account) io" where
  "transfer_read from to amount =
     (if amount \<le> 0 then io_error (Errorf ''amount must be positive'')
      else
        io_bind (io_wrap ''failed to begin transaction'' db_Begin) (\<lambda>t.
        io_bind (io_wrap ''failed to get from account'' (GetAccountByID from)) (\<lambda>fromAccount.
        io_bind (io_wrap ''failed to get to account'' (GetAccountByID to)) (\<lambda>toAccount.
        if acc_available fromAccount < amount
        then io_error (ErrorfDec ''insufficient funds in from account: available=%s, required=%s''
                        [acc_available fromAccount, amount])
        else io_return (t, fromAccount, toAccount)))))"

definition transfer_write ::
  "uuid \<Rightarrow> uuid \<Rightarrow> uuid \<Rightarrow> decimal \<Rightarrow> currency \<Rightarrow> string \<Rightarrow> uuid \<Rightarrow> tx \<times> account \<times> account \<Rightarrow> unit io" where
  "transfer_write jid from to amount c rt ri = (\<lambda>(t, fromAccount, toAccount).
     io_bind (io_wrap ''failed to create journal''
               (CreateJournal t (transfer_entries jid from to amount c rt ri))) (\<lambda>t.
     io_bind (io_wrap ''failed to update from account balance''
               (UpdateAccountBalance t from (acc_available fromAccount - amount) (acc_hold fromAccount))) (\<lambda>t.
     io_bind (io_wrap ''failed to update to account balance''
               (UpdateAccountBalance t to (acc_available toAccount + amount) (acc_hold toAccount))) (\<lambda>t.
     io_wrap ''failed to commit transaction'' (tx_Commit t)))))"

lemma io_bind_assoc: "io_bind (io_bind m f) g = io_bind m (\<lambda>x. io_bind (f x) g)"
  by (auto simp: io_bind_def fun_eq_iff split: prod.split sum.split)

lemma io_bind_return [simp]: "io_bind (io_return x) f = f x"
  by (simp add: io_bind_def io_return_def fun_eq_iff)

lemma io_bind_error [simp]: "io_bind (io_error e) f = io_error e"
  by (simp add: io_bind_def io_error_def fun_eq_iff)

lemma io_bind_if: "io_bind (if b then m else n) f = (if b then io_bind m f else io_bind n f)"
  by simp

lemmas halves = io_bind_assoc io_bind_if io_bind_return io_bind_error prod.case

lemma HoldFunds_halves: "HoldFunds u c k = io_bind (hold_read u c k) (hold_write k)"
  by (simp only: HoldFunds_def hold_read_def hold_write_def halves)

lemma ReleaseHold_halves: "ReleaseHold u c k = io_bind (release_read u c k) (release_write k)"
  by (simp only: ReleaseHold_def release_read_def release_write_def halves)

lemma TopUpUser_halves: "TopUpUser jid u k = io_bind (topup_read u k) (topup_write jid k)"
  by (simp only: TopUpUser_def topup_read_def topup_write_def halves)

lemma TransferFunds_halves:
  "TransferFunds jid from to k c rt ri = io_bind (transfer_read from to k) (transfer_write jid from to k c rt ri)"
  by (simp only: TransferFunds_def transfer_read_def transfer_write_def halves)

section \<open>Stale reads\<close>

text \<open>
  An operation whose first half only reads, and reads nothing but the accounts that \<open>same\<close> compares.
\<close>

locale cut_operation =
  fixes whole :: "'a io" and pre :: "'r io" and post :: "'r \<Rightarrow> 'a io" and same :: "db \<Rightarrow> db \<Rightarrow> bool"
  assumes whole_halves: "whole = io_bind pre post"
    and front_reads: "w_faults w = [] \<Longrightarrow> snd (pre w) = w"
    and front_same: "w_faults w = [] \<Longrightarrow> w_faults w' = [] \<Longrightarrow> same (w_db w) (w_db w') \<Longrightarrow>
      fst (pre w') = fst (pre w)"
begin

text \<open>
  The second half, in any later state in which those accounts are as they were, does what the whole
  operation does there: what ran in between is as if it had run before.
\<close>

lemma overlap:
  assumes "w_faults w = []" "w_faults w' = []" "same (w_db w) (w_db w')" "pre w = (Inr p, w1)"
  shows "w1 = w \<and> post p w' = whole w'"
proof -
  have "pre w' = (Inr p, w')"
    using front_reads [OF assms(2)] front_same [OF assms(1-3)] assms(4) by (simp add: prod_eq_iff)
  then show ?thesis
    using front_reads [OF assms(1)] assms(4) by (simp add: whole_halves io_bind_def)
qed

end

lemma get_account_eq:
  "w_faults w = [] \<Longrightarrow> GetAccountByUserIDAndCurrency u c w = (case account_of (w_db w) u c of
     None \<Rightarrow> (Inl (Errorf ''account not found''), w) | Some a \<Rightarrow> (Inr a, w))"
  by (simp add: GetAccountByUserIDAndCurrency_def account_of_def io_not_found_def split: option.split)

lemma get_account_id_eq:
  "w_faults w = [] \<Longrightarrow> GetAccountByID i w = (case account_at (w_db w) i of
     None \<Rightarrow> (Inl (Errorf ''account not found''), w) | Some a \<Rightarrow> (Inr a, w))"
  by (simp add: GetAccountByID_def account_at_def io_not_found_def split: option.split)

lemmas front_eval = io_bind_def io_wrap_def io_error_def io_return_def get_account_eq get_account_id_eq

interpretation hold_cut: cut_operation "HoldFunds u c k" "hold_read u c k" "hold_write k"
    "\<lambda>d d'. account_of d' u c = account_of d u c" for u c k
  by unfold_locales
     (rule HoldFunds_halves, simp_all add: hold_read_def front_eval split: option.split)

interpretation release_cut: cut_operation "ReleaseHold u c k" "release_read u c k" "release_write k"
    "\<lambda>d d'. account_of d' u c = account_of d u c" for u c k
  by unfold_locales
     (rule ReleaseHold_halves, simp_all add: release_read_def front_eval split: option.split)

interpretation topup_cut: cut_operation "TopUpUser jid u k" "topup_read u k" "topup_write jid k"
    "\<lambda>d d'. account_of d' u CurrencyUSD = account_of d u CurrencyUSD" for jid u k
  by unfold_locales
     (rule TopUpUser_halves, simp_all add: topup_read_def front_eval split: option.split)

interpretation transfer_cut: cut_operation "TransferFunds jid from to k c rt ri" "transfer_read from to k"
    "transfer_write jid from to k c rt ri"
    "\<lambda>d d'. account_at d' from = account_at d from \<and> account_at d' to = account_at d to"
    for jid "from" to k c rt ri
  by unfold_locales
     (rule TransferFunds_halves, simp_all add: transfer_read_def front_eval split: option.split)

lemma hold_read_works:
  assumes "w_faults w = []" and "account_of (w_db w) u c = Some a" and "0 < k" and "k \<le> acc_available a"
  shows "hold_read u c k w = (Inr ([], a), w)"
  using assms by (simp add: hold_read_def front_eval)

lemma hold_write_works:
  assumes "w_faults w = []" and "update_account (acc_id a) (acc_available a - k) (acc_hold a + k) (w_db w) = Inr d"
  shows "hold_write k ([], a) w = (Inr (), w\<lparr>w_db := d\<rparr>)"
  using assms by (simp add: hold_write_def io_bind_def io_wrap_def UpdateAccountBalance_def)


section \<open>A lost hold\<close>

text \<open>
  C37: a hold is a read of the account followed by a write. When two holds on one account, which covers
  each of them, both read before either writes, both succeed, but the account ends as if only the second
  had been placed: the first one's funds are not on hold and can be spent again.
\<close>

theorem concurrent_holds_lose_one:
  assumes "w_faults w = []" and "ledger_ok (w_db w)" and "account_of (w_db w) u c = Some a"
    and "stored k1" and "stored k2" and "0 < k1" and "0 < k2"
    and "k1 \<le> acc_available a" and "k2 \<le> acc_available a"
    and "acc_hold a + k1 < 10 ^ 20" and "acc_hold a + k2 < 10 ^ 20"
  shows "HoldFunds u c k1 = io_bind (hold_read u c k1) (hold_write k1) \<and>
    HoldFunds u c k2 = io_bind (hold_read u c k2) (hold_write k2) \<and>
    (\<exists>p1 p2 w1 w2. hold_read u c k1 w = (Inr p1, w) \<and> hold_read u c k2 w = (Inr p2, w) \<and>
      hold_write k1 p1 w = (Inr (), w1) \<and> hold_write k2 p2 w1 = (Inr (), w2) \<and>
      balances (w_db w2) = (balances (w_db w))(acc_id a \<mapsto> (acc_available a - k2, acc_hold a + k2)))"
proof -
  have wf: "db_wf (w_db w)" and nn: "nonneg_balances (w_db w)" using assms(2) by (auto simp: ledger_ok_def)
  have st: "stored (acc_available a)" "stored (acc_hold a)"
    using account_stored [OF wf account_of_wf(1) [OF wf assms(3)]] by auto
  have nonneg: "0 \<le> acc_hold a" using account_nonneg(2) [OF nn wf assms(3)] by simp
  have fits: "stored (acc_available a - k1)" "stored (acc_hold a + k1)"
      "stored (acc_available a - k2)" "stored (acc_hold a + k2)"
    using stored_between st stored_sum nonneg assms(4-11) by simp_all
  obtain d1 where d1: "update_account (acc_id a) (acc_available a - k1) (acc_hold a + k1) (w_db w) = Inr d1"
    using update_account_ok fits by blast
  obtain d2 where d2: "update_account (acc_id a) (acc_available a - k2) (acc_hold a + k2) d1 = Inr d2"
    using update_account_ok fits by blast
  have bal: "balances (w_db w) (acc_id a) \<noteq> None" using account_of_wf(4) [OF wf assms(3)] by simp
  have b1: "balances d1 = (balances (w_db w))(acc_id a \<mapsto> (acc_available a - k1, acc_hold a + k1))"
    using put_exact [OF d1 bal] fits by (simp add: stored_numeric)
  have b2: "balances d2 = (balances (w_db w))(acc_id a \<mapsto> (acc_available a - k2, acc_hold a + k2))"
    using put_exact [OF d2] fits by (simp add: b1 stored_numeric)
  have "hold_write k1 ([], a) w = (Inr (), w\<lparr>w_db := d1\<rparr>)"
    "hold_write k2 ([], a) (w\<lparr>w_db := d1\<rparr>) = (Inr (), w\<lparr>w_db := d2\<rparr>)"
    using hold_write_works [OF assms(1) d1] hold_write_works [of "w\<lparr>w_db := d1\<rparr>" a k2 d2] assms(1) d2 by simp_all
  then show ?thesis
    using HoldFunds_halves hold_read_works [OF assms(1,3)] assms(6-9) b2 by fastforce
qed

theorem concurrent_holds_lose_one_witness:
  "\<exists>p1 p2 w1 w2. hold_read 1 CurrencyUSD 1000 sample_world = (Inr p1, sample_world) \<and>
     hold_read 1 CurrencyUSD 600 sample_world = (Inr p2, sample_world) \<and>
     hold_write 1000 p1 sample_world = (Inr (), w1) \<and> hold_write 600 p2 w1 = (Inr (), w2) \<and>
     balances (w_db w2) = (balances sample_db)(11 \<mapsto> (400, 600))"
  using concurrent_holds_lose_one [of sample_world 1 CurrencyUSD "sample_account 11 1 CurrencyUSD 1000 0" 1000 600]
    sample_db_ok sample_account_of by simp


end
