(* ===== verification/Feed.thy ===== *)
theory Feed
  imports Quotes "HOL-Library.Sublist"
begin

text \<open>
  How quotes travel: the two goroutines that \<open>Start\<close> of \<open>internal/quotes/quotes.go\<close> launches. The generator
  publishes on the Redis channels \<open>quotes:BTC-USD\<close> and \<open>quotes:ETH-USD\<close>; the subscriber of both feeds the
  quotes service. Redis delivers each message at most once and in order, so what the subscriber receives
  is a subsequence of what was published. The client may be nil; encoding and decoding a quote are the
  parameters \<open>marshal\<close> and \<open>unmarshal\<close>.
\<close>

section \<open>Publishing and subscribing\<close>

record redis_client =
  rc_addr :: string

text \<open>The client \<open>main\<close> creates.\<close>

definition NewClient :: redis_client where
  "NewClient = \<lparr>rc_addr = ''localhost:6379''\<rparr>"

text \<open>A channel and a payload.\<close>

type_synonym message = "string \<times> string"

definition quote_channel :: "symbol \<Rightarrow> string" where
  "quote_channel sy = ''quotes:'' @ sy"

text \<open>
  A quote that does not encode, and a \<open>Publish\<close> that fails (\<open>fault\<close>), are logged. A method of a nil client
  dereferences it.
\<close>

definition publishQuote ::
  "(quote \<Rightarrow> go_error + string) \<Rightarrow> redis_client option \<Rightarrow> bool \<Rightarrow> quote \<Rightarrow> panic + message list" where
  "publishQuote marshal client fault q =
     (let channel = quote_channel (q_symbol q) in
      case marshal q of
        Inl e \<Rightarrow> Inr []
      | Inr data \<Rightarrow>
          (case client of
             None \<Rightarrow> Inl NilDereference
           | Some c \<Rightarrow> Inr (if fault then [] else [(channel, data)])))"

text \<open>The quotes of the generator's ticks, one call after the other.\<close>

fun publish_all ::
  "(quote \<Rightarrow> go_error + string) \<Rightarrow> redis_client option \<Rightarrow> (quote \<Rightarrow> bool) \<Rightarrow> quote list \<Rightarrow> panic + message list" where
  "publish_all marshal client fault [] = Inr []"
| "publish_all marshal client fault (q # qs) =
     (case publishQuote marshal client (fault q) q of
        Inl p \<Rightarrow> Inl p
      | Inr ms \<Rightarrow> map_sum id ((@) ms) (publish_all marshal client fault qs))"

definition subscribed_channels :: "string list" where
  "subscribed_channels = [''quotes:BTC-USD'', ''quotes:ETH-USD'']"

definition subscribeToQuotes ::
  "(string \<Rightarrow> go_error + quote) \<Rightarrow> redis_client option \<Rightarrow> message list \<Rightarrow> quotes_service \<Rightarrow> panic + quotes_service" where
  "subscribeToQuotes unmarshal client msgs s =
     (case client of
        None \<Rightarrow> Inl NilDereference
      | Some c \<Rightarrow>
          fold_result (\<lambda>m. on_message unmarshal (snd m)) (filter (\<lambda>m. fst m \<in> set subscribed_channels) msgs) s)"

text \<open>\<open>Start\<close> launches the goroutines and cannot fail.\<close>

datatype goroutine = SubscribeToQuotes | GenerateMockQuotes

definition Start :: "go_error + goroutine list" where
  "Start = Inr [SubscribeToQuotes, GenerateMockQuotes]"

section \<open>What arrives\<close>

definition codec_documented :: "(quote \<Rightarrow> go_error + string) \<Rightarrow> (string \<Rightarrow> go_error + quote) \<Rightarrow> bool" where
  "codec_documented marshal unmarshal \<longleftrightarrow> (\<forall>q data. marshal q = Inr data \<longrightarrow> unmarshal data = Inr q)"

definition carries :: "(string \<Rightarrow> go_error + quote) \<Rightarrow> message \<Rightarrow> quote \<Rightarrow> bool" where
  "carries unmarshal m q \<longleftrightarrow> fst m = quote_channel (q_symbol q) \<and> unmarshal (snd m) = Inr q"

lemma publish_all_carries:
  assumes "codec_documented marshal unmarshal" "publish_all marshal client fault qs = Inr ms" "m \<in> set ms"
  shows "\<exists>q \<in> set qs. carries unmarshal m q"
  using assms(2,3)
proof (induction qs arbitrary: ms)
  case (Cons q qs)
  obtain ms1 ms2 where ms: "publishQuote marshal client (fault q) q = Inr ms1"
    "publish_all marshal client fault qs = Inr ms2" "ms = ms1 @ ms2"
    using Cons.prems(1) by (cases "publish_all marshal client fault qs") (auto split: sum.splits)
  have "carries unmarshal m q" if "m \<in> set ms1"
    using that ms(1) assms(1)
    by (auto simp: publishQuote_def carries_def codec_documented_def Let_def split: sum.splits option.splits if_splits)
  then show ?case using Cons.IH [OF ms(2)] Cons.prems(2) ms(3) by auto
qed simp

lemma publish_all_client: "\<exists>ms. publish_all marshal (Some c) fault qs = Inr ms"
proof (induction qs)
  case (Cons q qs)
  then obtain ms where "publish_all marshal (Some c) fault qs = Inr ms" by blast
  then show ?case by (auto simp: publishQuote_def Let_def split: sum.split)
qed simp

text \<open>The last message on the channel of a symbol.\<close>

definition latest :: "symbol \<Rightarrow> message list \<Rightarrow> message option" where
  "latest sy msgs =
     (let ms = filter (\<lambda>m. fst m = quote_channel sy) msgs in if ms = [] then None else Some (last ms))"

lemma latest_snoc:
  "latest sy (msgs @ [m]) = (if fst m = quote_channel sy then Some m else latest sy msgs)"
  by (simp add: latest_def)

lemma latest_in: "latest sy msgs = Some m \<Longrightarrow> m \<in> set msgs \<and> fst m = quote_channel sy"
proof (induction msgs rule: rev_induct)
  case (snoc x msgs)
  then show ?case by (auto simp: latest_snoc split: if_splits)
qed (simp add: latest_def)

lemma quote_channel_inj [simp]: "quote_channel sy = quote_channel sy' \<longleftrightarrow> sy = sy'"
  by (simp add: quote_channel_def)

lemma feed:
  assumes wf: "qs_wf s"
    and good: "\<forall>m \<in> set msgs. \<exists>q. carries unmarshal m q \<and> q_symbol q \<in> {SymbolBTCUSD, SymbolETHUSD}"
  shows "\<exists>s'. subscribeToQuotes unmarshal (Some c) msgs s = Inr s' \<and> qs_wf s' \<and> qs_subs s' = qs_subs s \<and>
    (\<forall>sy. GetQuote sy s' = (case latest sy msgs of None \<Rightarrow> GetQuote sy s | Some m \<Rightarrow> unmarshal (snd m)))"
  using good
proof (induction msgs rule: rev_induct)
  case Nil
  then show ?case using wf by (simp add: subscribeToQuotes_def latest_def)
next
  case (snoc m msgs)
  then obtain s1 where s1: "subscribeToQuotes unmarshal (Some c) msgs s = Inr s1" "qs_wf s1" "qs_subs s1 = qs_subs s"
    "\<forall>sy. GetQuote sy s1 = (case latest sy msgs of None \<Rightarrow> GetQuote sy s | Some m \<Rightarrow> unmarshal (snd m))"
    by auto
  obtain q where q: "fst m = quote_channel (q_symbol q)" "unmarshal (snd m) = Inr q"
    "q_symbol q \<in> {SymbolBTCUSD, SymbolETHUSD}"
    using snoc.prems by (auto simp: carries_def)
  obtain s2 where s2: "updateQuote q s1 = Inr s2" "qs_wf s2" "qs_subs s2 = qs_subs s1"
    "qs_quotes s2 = (qs_quotes s1)(q_symbol q \<mapsto> q)"
    using updateQuote_wf [OF s1(2)] by blast
  have "fst m \<in> set subscribed_channels"
    using q(1,3) by (auto simp: subscribed_channels_def quote_channel_def)
  then have "subscribeToQuotes unmarshal (Some c) (msgs @ [m]) s = Inr s2"
    using s1(1) s2(1) q(2) by (simp add: subscribeToQuotes_def fold_result_append on_message_def)
  moreover have "GetQuote sy s2 =
      (case latest sy (msgs @ [m]) of None \<Rightarrow> GetQuote sy s | Some m \<Rightarrow> unmarshal (snd m))" for sy
    using s1(4) s2(4) q(1,2) by (auto simp: latest_snoc GetQuote_def)
  ultimately show ?case using s2(2,3) s1(3) by auto
qed

section \<open>Properties\<close>

text \<open>
  C20: whatever messages of the generator Redis loses, and whichever fail to encode or to be published, as
  long as the client is there nothing panics, the subscribers stay in place, the quote served for a symbol
  is the last one delivered on its channel, and it is one the generator made for that symbol.
\<close>

theorem quotes_reach_readers:
  assumes "qs_wf s" and "codec_documented marshal unmarshal"
    and "publish_all marshal (Some c) fault (generateMockQuotes ticks) = Inr ms" and "subseq msgs ms"
  shows "\<exists>s'. subscribeToQuotes unmarshal (Some c) msgs s = Inr s' \<and> qs_wf s' \<and> qs_subs s' = qs_subs s \<and>
    (\<forall>sy. case latest sy msgs of
       None \<Rightarrow> GetQuote sy s' = GetQuote sy s
     | Some m \<Rightarrow> \<exists>q \<in> set (generateMockQuotes ticks). q_symbol q = sy \<and> unmarshal (snd m) = Inr q \<and>
         GetQuote sy s' = Inr q)"
proof -
  have carried: "\<exists>q \<in> set (generateMockQuotes ticks). carries unmarshal m q" if m: "m \<in> set msgs" for m
  proof -
    obtain m' where "m' \<in> set ms" "m = m'" using list_emb_set [OF assms(4) m] by blast
    then show ?thesis using publish_all_carries [OF assms(2,3)] by blast
  qed
  have sym: "q_symbol q \<in> {SymbolBTCUSD, SymbolETHUSD}" if "q \<in> set (generateMockQuotes ticks)" for q
    using mock_run_quotes [of ticks "(60000, 3000)"] that
    by (auto simp: generateMockQuotes_def mock_priced_def mock_quote_def)
  obtain s' where s': "subscribeToQuotes unmarshal (Some c) msgs s = Inr s'" "qs_wf s'" "qs_subs s' = qs_subs s"
    "\<forall>sy. GetQuote sy s' = (case latest sy msgs of None \<Rightarrow> GetQuote sy s | Some m \<Rightarrow> unmarshal (snd m))"
    using feed [OF assms(1), of msgs unmarshal c] carried sym by blast
  have "\<exists>q \<in> set (generateMockQuotes ticks). q_symbol q = sy \<and> unmarshal (snd m) = Inr q \<and> GetQuote sy s' = Inr q"
    if m: "latest sy msgs = Some m" for sy m
    using carried latest_in [OF m] s'(4) m by (fastforce simp: carries_def)
  then show ?thesis using s' by (intro exI [of _ s']) (auto split: option.split)
qed

section \<open>The property on a sample service\<close>

text \<open>A codec for one quote, the first one of a tick.\<close>

definition tick_quote :: quote where
  "tick_quote = mock_quote SymbolBTCUSD 3 (60000 - 49 / 1000)"

definition sample_marshal :: "quote \<Rightarrow> go_error + string" where
  "sample_marshal q = (if q = tick_quote then Inr ''q'' else Inl ParseError)"

definition sample_unmarshal :: "string \<Rightarrow> go_error + quote" where
  "sample_unmarshal d = (if d = ''q'' then Inr tick_quote else Inl ParseError)"

lemma sample_feed:
  "publish_all sample_marshal (Some c) (\<lambda>_. False) (generateMockQuotes [(1, 2, 3)]) = Inr [(''quotes:BTC-USD'', ''q'')]"
  by (simp add: generateMockQuotes_def mock_tick_def Let_def next_price_def price_change_def publishQuote_def
      sample_marshal_def tick_quote_def mock_quote_def quote_channel_def)

theorem quotes_reach_readers_witness:
  "\<exists>s'. subscribeToQuotes sample_unmarshal (Some NewClient) [(''quotes:BTC-USD'', ''q'')] sample_quotes = Inr s' \<and>
     GetQuote SymbolBTCUSD s' = Inr tick_quote \<and> GetQuote SymbolETHUSD s' = GetQuote SymbolETHUSD sample_quotes"
proof -
  have "codec_documented sample_marshal sample_unmarshal"
    by (simp add: codec_documented_def sample_marshal_def sample_unmarshal_def)
  then obtain s' where s': "subscribeToQuotes sample_unmarshal (Some NewClient) [(''quotes:BTC-USD'', ''q'')] sample_quotes = Inr s'"
    "\<forall>sy. case latest sy [(''quotes:BTC-USD'', ''q'')] of
       None \<Rightarrow> GetQuote sy s' = GetQuote sy sample_quotes
     | Some m \<Rightarrow> \<exists>q \<in> set (generateMockQuotes [(1, 2, 3)]). q_symbol q = sy \<and> sample_unmarshal (snd m) = Inr q \<and>
         GetQuote sy s' = Inr q"
    using quotes_reach_readers [OF sample_quotes_wf _ sample_feed subseq_order.order_refl, of sample_unmarshal NewClient] by blast
  show ?thesis
    using s'(1) spec [OF s'(2), of SymbolBTCUSD] spec [OF s'(2), of SymbolETHUSD]
    by (auto simp: latest_def quote_channel_def sample_unmarshal_def)
qed


end
