(* ===== verification/Connection.thy ===== *)
theory Connection
  imports Auth
begin

text \<open>
  \<open>internal/database/database.go\<close>: the configuration and opening of the connection pool. The driver's
  answers to \<open>sql.Open\<close>, \<open>Ping\<close> and \<open>Close\<close> are arguments, an error or none.
\<close>

record config =
  cf_host :: string
  cf_port :: int
  cf_user :: string
  cf_password :: string
  cf_dbname :: string
  cf_sslmode :: string

definition DefaultConfig :: config where
  "DefaultConfig =
     \<lparr>cf_host = ''localhost'', cf_port = 5432, cf_user = ''microcoin'', cf_password = ''password'',
      cf_dbname = ''microcoin'', cf_sslmode = ''disable''\<rparr>"

record pool =
  pool_dsn :: string
  pool_max_open :: nat
  pool_max_idle :: nat

definition dsn_of :: "config \<Rightarrow> string" where
  "dsn_of cf =
     ''host='' @ cf_host cf @ '' port='' @ show_int (cf_port cf) @ '' user='' @ cf_user cf @
     '' password='' @ cf_password cf @ '' dbname='' @ cf_dbname cf @ '' sslmode='' @ cf_sslmode cf"

definition Connect ::
  "(string \<Rightarrow> go_error option) \<Rightarrow> (string \<Rightarrow> go_error option) \<Rightarrow> config \<Rightarrow> go_error + pool" where
  "Connect sql_open ping config =
     (let dsn = dsn_of config in
      case sql_open dsn of
        Some e \<Rightarrow> Inl (ErrorfWrap ''failed to open database'' e)
      | None \<Rightarrow>
     (case ping dsn of
        Some e \<Rightarrow> Inl (ErrorfWrap ''failed to ping database'' e)
      | None \<Rightarrow> Inr \<lparr>pool_dsn = dsn, pool_max_open = 25, pool_max_idle = 5\<rparr>))"

text \<open>A nil pool closes without an error.\<close>

definition Close :: "(pool \<Rightarrow> go_error option) \<Rightarrow> pool option \<Rightarrow> go_error option" where
  "Close db_close db = (case db of None \<Rightarrow> None | Some p \<Rightarrow> db_close p)"

end
