(* ===== verification/Startup.thy ===== *)
theory Startup
  imports System Schema Feed Connection
begin

text \<open>
  The body of \<open>main\<close> in \<open>cmd/monolith/main.go\<close>: from the connection to PostgreSQL to the running server,
  and how the process ends.

  What the outside answers is in a record: whether the driver opens and pings, whether Redis pings,
  the order in which the map of books is visited, what the quotes feed brings, and what stops the
  process. A panic outside a handler is recovered by nobody and ends the process.
  The deferred \<open>Close\<close> calls touch nothing that is modelled and are left out of \<open>run_main\<close>.
\<close>

section \<open>The start of main\<close>

record outside =
  out_sql_open :: "string \<Rightarrow> go_error option"
  out_sql_ping :: "string \<Rightarrow> go_error option"
  out_redis_ping :: "go_error option"
  out_str :: "decimal \<Rightarrow> string"
  out_visit :: "symbol list"
  out_redis :: redis
  out_unmarshal :: "string \<Rightarrow> go_error + quote"

datatype exit =
    Fatal string go_error
  | Panicked panic
  | Finished
  | Hung

text \<open>\<open>redisClient\<close> after its test.\<close>

definition redis_client_of :: "outside \<Rightarrow> redis_client option" where
  "redis_client_of out = (case out_redis_ping out of Some e \<Rightarrow> None | None \<Rightarrow> Some NewClient)"

definition rate_limiter_of :: "redis_client option \<Rightarrow> limiter option" where
  "rate_limiter_of client = (case client of None \<Rightarrow> None | Some c \<Rightarrow> Some configured_limiter)"

text \<open>Up to the HTTP server: the services over the tables of \<open>w\<close>, or how the process has ended.\<close>

definition boot :: "outside \<Rightarrow> world \<Rightarrow> exit + server \<times> limiter option \<times> redis_client option" where
  "boot out w =
     (case Connect (out_sql_open out) (out_sql_ping out) DefaultConfig of
        Inl e \<Rightarrow> Inl (Fatal ''Failed to connect to database: %v'' e)
      | Inr db \<Rightarrow>
     (let redisClient = redis_client_of out in
      case NewService (out_str out) (out_visit out) w NewQuotesService of
        Panics p os \<Rightarrow> Inl (Panicked p)
      | Diverges os \<Rightarrow> Inl Hung
      | Returns r os \<Rightarrow>
     (let rateLimiter = rate_limiter_of redisClient in
      case Start of
        Inl e \<Rightarrow> Inl (Fatal ''Failed to start quotes service: %v'' e)
      | Inr gs \<Rightarrow> Inr (\<lparr>sv_orders = os, sv_redis = out_redis out\<rparr>, rateLimiter, redisClient))))"

section \<open>The end of main\<close>

text \<open>
  The listener fails, or a signal arrives and \<open>Shutdown\<close> succeeds or not within its 30 seconds.
\<close>

datatype stop =
    ListenFails go_error
  | Signal "go_error option"

fun stopped :: "stop \<Rightarrow> exit" where
  "stopped (ListenFails e) = Fatal ''Server failed to start: %v'' e"
| "stopped (Signal (Some e)) = Fatal ''Server forced to shutdown: %v'' e"
| "stopped (Signal None) = Finished"

text \<open>
  The process as a whole: the quotes goroutine, which no one recovers, receives \<open>msgs\<close> while the server runs.
\<close>

definition run_main :: "outside \<Rightarrow> message list \<Rightarrow> stop \<Rightarrow> world \<Rightarrow> exit" where
  "run_main out msgs st w =
     (case boot out w of
        Inl x \<Rightarrow> x
      | Inr (s, limiter, client) \<Rightarrow>
     (case subscribeToQuotes (out_unmarshal out) client msgs (os_quotes (sv_orders s)) of
        Inl p \<Rightarrow> Panicked p
      | Inr qs \<Rightarrow> stopped st))"

section \<open>What the start does\<close>

lemma feed_total:
  assumes "qs_wf s"
  shows "\<exists>s'. subscribeToQuotes unmarshal (Some c) msgs s = Inr s' \<and> qs_wf s'"
proof -
  have "\<exists>s'. fold_result (\<lambda>m. on_message unmarshal (snd m)) ms s = Inr s' \<and> qs_wf s'" for ms :: "message list"
    using assms
  proof (induction ms arbitrary: s)
    case (Cons m ms)
    obtain s1 where "on_message unmarshal (snd m) s = Inr s1" "qs_wf s1"
      using updateQuote_wf [OF Cons.prems] Cons.prems by (cases "unmarshal (snd m)") (auto simp: on_message_def)
    then show ?case using Cons.IH by simp
  qed simp
  then show ?thesis by (simp add: subscribeToQuotes_def)
qed

lemma boot_world:
  assumes "boot out w = Inr (s, limiter, client)"
  shows "books_wf (out_str out) (sv_orders s) \<and> server_db s = w_db w"
  using assms NewService_wf [of "out_str out" w "out_visit out" NewQuotesService]
  by (auto simp: boot_def Let_def Start_def split: sum.splits outcome.splits)

section \<open>Properties\<close>


text \<open>
  C6: from the start of the process on, whatever is requested, fails or is restarted, the tables keep
  their types: keys are unique, references resolve, every amount is one its column can hold; and they
  only grow: no user, ledger entry or stored answer is changed or removed, no account changes its owner
  or currency, and of an order only the fill and the status change.
\<close>

theorem running_tables_keep_types:
  assumes "boot out w = Inr (s, limiter, client)" and "db_wf (w_db w)" and "(server_step (out_str out))\<^sup>*\<^sup>* s s'"
  shows "db_wf (server_db s') \<and> grows (w_db w) (server_db s') \<and> books_wf (out_str out) (sv_orders s')"
proof -
  note b = boot_world [OF assms(1)]
  have "db_writes (server_db s) (server_db s')" "books_wf (out_str out) (sv_orders s')"
    using writes_server.reachable_advances [OF assms(3)] b by (auto simp: advances_def writes_def)
  then show ?thesis using db_writes_wf db_writes_grows b assms(2) by auto
qed

section \<open>The properties on the sample database\<close>

definition sample_outside :: "go_error option \<Rightarrow> outside" where
  "sample_outside redis =
     \<lparr>out_sql_open = (\<lambda>_. None), out_sql_ping = (\<lambda>_. None), out_redis_ping = redis, out_str = sample_str,
      out_visit = [SymbolETHUSD, SymbolBTCUSD], out_redis = (\<lambda>_. None), out_unmarshal = sample_unmarshal\<rparr>"

lemma sample_outside_sel [simp]:
  "out_sql_open (sample_outside r) = (\<lambda>_. None)" "out_sql_ping (sample_outside r) = (\<lambda>_. None)"
  "out_redis_ping (sample_outside r) = r" "out_str (sample_outside r) = sample_str"
  "out_visit (sample_outside r) = [SymbolETHUSD, SymbolBTCUSD]"
  by (simp_all add: sample_outside_def)


theorem running_tables_keep_types_witness:
  "\<exists>s limiter client s'. boot (sample_outside None) sample_world = Inr (s, limiter, client) \<and>
     s' = reply_state (serve sample_codec sample_crypto sample_parse sample_draws (10 ^ 9) sample_rate_env None
       Signup (sample_request ''POST'' ''/auth/signup'' [] ''pw'') s) \<and>
     db_wf (server_db s') \<and> grows sample_db (server_db s')"
proof -
  have "all_priced (w_db sample_world)" by (simp add: all_priced_def active_orders_def sample_db_def)
  then obtain os where "NewService sample_str [SymbolETHUSD, SymbolBTCUSD] sample_world NewQuotesService = Returns (Inr ()) os"
    using NewService_starts [of sample_world "[SymbolETHUSD, SymbolBTCUSD]" sample_str NewQuotesService]
    by (auto simp: insert_commute)
  then obtain s limiter client where b: "boot (sample_outside None) sample_world = Inr (s, limiter, client)"
    by (simp add: boot_def Connect_def Let_def Start_def)
  show ?thesis
    using running_tables_keep_types [OF b, of "reply_state (serve sample_codec sample_crypto sample_parse sample_draws
       (10 ^ 9) sample_rate_env None Signup (sample_request ''POST'' ''/auth/signup'' [] ''pw'') s)"]
      b sample_db_wf sample_step by auto
qed


end
