(* ===== verification/Bank.thy ===== *)
theory Bank
  imports Orders Schema
begin

text \<open>
  What the ledger promises: an abstract bank, in which an account is a user and a currency and has an
  available and a held amount, and the four commands the program gives it, a top-up, a hold, a release
  and the settlement of a trade. The commands say when they are refused; nothing else is visible. The
  services of \<open>internal/ledger\<close> and \<open>internal/orders\<close> implement it on the tables.
\<close>

section \<open>The abstract bank\<close>

type_synonym bank = "uuid \<times> currency \<rightharpoonup> decimal \<times> decimal"

datatype command =
    Credit uuid decimal
  | Reserve uuid currency decimal
  | Unreserve uuid currency decimal
  | Settle trade

text \<open>The amounts a column can hold.\<close>

definition fits :: "decimal \<Rightarrow> bool" where
  "fits x \<longleftrightarrow> x < 10 ^ 20"

text \<open>A command answers whether it was carried out.\<close>

type_synonym effect = "bank \<Rightarrow> bool \<times> bank"

definition refuse :: effect where
  "refuse b = (False, b)"

definition move :: "uuid \<times> currency \<Rightarrow> (decimal \<times> decimal \<Rightarrow> (decimal \<times> decimal) option) \<Rightarrow> effect" where
  "move p f b =
     (case b p of None \<Rightarrow> refuse b
      | Some v \<Rightarrow> (case f v of None \<Rightarrow> refuse b | Some v' \<Rightarrow> (True, b(p \<mapsto> v'))))"

definition credit :: "decimal \<Rightarrow> decimal \<times> decimal \<Rightarrow> (decimal \<times> decimal) option" where
  "credit k = (\<lambda>(x, h). if 0 < k \<and> fits (x + k) then Some (x + k, h) else None)"

definition reserve :: "decimal \<Rightarrow> decimal \<times> decimal \<Rightarrow> (decimal \<times> decimal) option" where
  "reserve k = (\<lambda>(x, h). if 0 < k \<and> k \<le> x \<and> fits (h + k) then Some (x - k, h + k) else None)"

definition unreserve :: "decimal \<Rightarrow> decimal \<times> decimal \<Rightarrow> (decimal \<times> decimal) option" where
  "unreserve k = (\<lambda>(x, h). if 0 < k \<and> k \<le> h \<and> fits (x + k) then Some (x + k, h - k) else None)"

text \<open>A payment debits and credits available amounts; both are read before either is written.\<close>

definition pay :: "uuid \<times> currency \<Rightarrow> uuid \<times> currency \<Rightarrow> decimal \<Rightarrow> effect" where
  "pay p q k b =
     (case (b p, b q) of
        (Some (x, h), Some (y, g)) \<Rightarrow>
          if 0 < k \<and> k \<le> x \<and> fits (y + k) then (True, b(p \<mapsto> (x - k, h), q \<mapsto> (y + k, g))) else refuse b
      | _ \<Rightarrow> refuse b)"

text \<open>One effect after the other, up to the first that is refused. What the first did stays.\<close>

definition seq :: "effect \<Rightarrow> effect \<Rightarrow> effect" where
  "seq f g b = (case f b of (True, b') \<Rightarrow> g b' | (False, b') \<Rightarrow> (False, b'))"

fun obey :: "command \<Rightarrow> effect" where
  "obey (Credit u k) b = move (u, CurrencyUSD) (credit k) b"
| "obey (Reserve u c k) b = move (u, c) (reserve k) b"
| "obey (Unreserve u c k) b = move (u, c) (unreserve k) b"
| "obey (Settle t) b =
     (let base = base_currency (tr_symbol t);
          usd = pay (tr_buyer t, CurrencyUSD) (tr_seller t, CurrencyUSD) (tr_value t);
          coin = pay (tr_seller t, base) (tr_buyer t, base) (tr_qty t) in
      if b (tr_buyer t, CurrencyUSD) = None \<or> b (tr_seller t, CurrencyUSD) = None \<or>
         b (tr_buyer t, base) = None \<or> b (tr_seller t, base) = None then refuse b
      else if tr_side t = OrderSideBuy then seq usd coin b else seq coin usd b)"

fun obey_all :: "command list \<Rightarrow> bank \<Rightarrow> bool list \<times> bank" where
  "obey_all [] b = ([], b)"
| "obey_all (c # cs) b =
     (case obey c b of (ok, b') \<Rightarrow> case obey_all cs b' of (oks, b'') \<Rightarrow> (ok # oks, b''))"

section \<open>The tables as a bank\<close>

definition bank_of :: "db \<Rightarrow> bank" where
  "bank_of d = map_of (map (\<lambda>a. (acc_key a, (acc_available a, acc_hold a))) (db_accounts d))"

text \<open>The commands on the tables; \<open>j1\<close> and \<open>j2\<close> are the journal IDs drawn.\<close>

fun perform :: "uuid \<Rightarrow> uuid \<Rightarrow> command \<Rightarrow> unit io" where
  "perform j1 j2 (Credit u k) = io_bind (TopUpUser j1 u k) (\<lambda>_. io_return ())"
| "perform j1 j2 (Reserve u c k) = HoldFunds u c k"
| "perform j1 j2 (Unreserve u c k) = ReleaseHold u c k"
| "perform j1 j2 (Settle t) = processTrade j1 j2 t"

fun perform_all :: "(uuid \<times> uuid \<times> command) list \<Rightarrow> world \<Rightarrow> bool list \<times> world" where
  "perform_all [] w = ([], w)"
| "perform_all ((j1, j2, c) # cs) w =
     (case perform j1 j2 c w of (r, w') \<Rightarrow>
      case perform_all cs w' of (oks, w'') \<Rightarrow> ((\<not> isl r) # oks, w''))"

lemma bank_of_account:
  "bank_of d (u, c) = map_option (\<lambda>a. (acc_available a, acc_hold a)) (account_of d u c)"
proof -
  have "map_of (map (\<lambda>a. (acc_key a, (acc_available a, acc_hold a))) as) (u, c) =
      map_option (\<lambda>a. (acc_available a, acc_hold a)) (find (\<lambda>a. acc_user a = u \<and> acc_currency a = c) as)" for as
    by (induction as) (auto simp: acc_key_def)
  then show ?thesis by (simp add: bank_of_def account_of_def)
qed

lemma bank_of_frame: "db_accounts d' = db_accounts d \<Longrightarrow> bank_of d' = bank_of d"
  by (simp add: bank_of_def)

lemma account_of_same_id:
  assumes "update_account i x y d = Inr d'"
  shows "map_option acc_id (account_of d' u c) = map_option acc_id (account_of d u c)"
  unfolding update_account_Inr [OF assms] account_of_def
  by (cases "find (\<lambda>a. acc_user a = u \<and> acc_currency a = c) (db_accounts d)") (simp_all add: find_map_upd)

lemma bank_update:
  assumes wf: "db_wf d" and a: "account_of d u c = Some a" and up: "update_account (acc_id a) x y d = Inr d'"
    and num: "is_numeric x" "is_numeric y"
  shows "bank_of d' = (bank_of d)((u, c) \<mapsto> (x, y))"
proof
  fix p :: "uuid \<times> currency"
  obtain u' c' where p: "p = (u', c')" by (cases p)
  let ?f = "\<lambda>b. if acc_id b = acc_id a then set_balances (numeric_round x) (numeric_round y) b else b"
  have "account_of d' u' c' = map_option ?f (account_of d u' c')"
    unfolding update_account_Inr [OF up] account_of_def by (simp add: find_map_upd)
  moreover have "acc_id b \<noteq> acc_id a" if "account_of d u' c' = Some b" "(u', c') \<noteq> (u, c)" for b
    using account_of_distinct [OF wf that(1) a] that(2) by auto
  ultimately show "bank_of d' p = ((bank_of d)((u, c) \<mapsto> (x, y))) p"
    using a num by (cases "account_of d u' c'") (auto simp: p bank_of_account is_numeric_def)
qed

section \<open>Implementing an effect\<close>

text \<open>
  Where the refinement holds: the driver works, the books are in order, and the system account that
  top-ups are booked against exists.
\<close>

definition ready :: "world \<Rightarrow> bool" where
  "ready w \<longleftrightarrow> w_faults w = [] \<and> ledger_ok (w_db w) \<and> has_account (w_db w) uuid_nil"

definition implements :: "'a io \<Rightarrow> effect \<Rightarrow> bool" where
  "implements m f \<longleftrightarrow> (\<forall>w r w'. ready w \<longrightarrow> m w = (r, w') \<longrightarrow>
     ready w' \<and> f (bank_of (w_db w)) = (\<not> isl r, bank_of (w_db w')))"

lemma implementsD:
  "implements m f \<Longrightarrow> ready w \<Longrightarrow> m w = (r, w') \<Longrightarrow>
     ready w' \<and> f (bank_of (w_db w)) = (\<not> isl r, bank_of (w_db w'))"
  by (simp add: implements_def)

lemma ready_step:
  assumes "io_steps calm m" "io_steps writes m" "io_keeps ledger_ok m" "ready w" "m w = (r, w')"
  shows "ready w'"
proof -
  have "grows (w_db w) (w_db w')"
    using io_stepsD [OF assms(2,5)] by (simp add: writes_def db_writes_grows)
  then show ?thesis
    using io_stepsD [OF assms(1,5)] assms(3,4,5) grows_has_account
    by (auto simp: ready_def calm_def io_keeps_def)
qed

text \<open>
  An atomic operation implements an effect when every success is one of the effect, and when it
  succeeds wherever the effect does.
\<close>

lemma implementsI:
  assumes "io_steps calm m" "io_steps writes m" "io_keeps ledger_ok m" "io_atomic m"
    and refused: "\<And>b. fst (f b) \<or> f b = refuse b"
    and sound: "\<And>w x w'. ready w \<Longrightarrow> m w = (Inr x, w') \<Longrightarrow> f (bank_of (w_db w)) = (True, bank_of (w_db w'))"
    and complete: "\<And>w. ready w \<Longrightarrow> fst (f (bank_of (w_db w))) \<Longrightarrow> \<exists>x w'. m w = (Inr x, w')"
  shows "implements m f"
  unfolding implements_def
proof (intro allI impI)
  fix w r w' assume w: "ready w" and m: "m w = (r, w')"
  have "ready w'" by (rule ready_step [OF assms(1-3) w m])
  moreover have "f (bank_of (w_db w)) = (\<not> isl r, bank_of (w_db w'))"
  proof (cases r)
    case (Inl e)
    then have "w_db w' = w_db w" using assms(4) m by (auto simp: io_atomic_def)
    moreover have "\<not> fst (f (bank_of (w_db w)))" using complete [OF w] m Inl by auto
    ultimately show ?thesis using refused [of "bank_of (w_db w)"] Inl by (simp add: refuse_def)
  qed (use sound [OF w] m in auto)
  ultimately show "ready w' \<and> f (bank_of (w_db w)) = (\<not> isl r, bank_of (w_db w'))" ..
qed

lemma move_refused: "fst (move p f b) \<or> move p f b = refuse b"
  by (simp add: move_def refuse_def split: option.split)

lemma pay_refused: "fst (pay p q k b) \<or> pay p q k b = refuse b"
  by (simp add: pay_def refuse_def split: option.split)

text \<open>What is known of an account in a state that is ready.\<close>

lemma ready_account:
  assumes "ready w" "account_of (w_db w) u c = Some a"
  shows "db_wf (w_db w)" "stored (acc_available a)" "stored (acc_hold a)"
    "0 \<le> acc_available a" "0 \<le> acc_hold a"
    "bank_of (w_db w) (u, c) = Some (acc_available a, acc_hold a)"
    "is_numeric (acc_available a)" "is_numeric (acc_hold a)"
proof -
  show wf: "db_wf (w_db w)" using assms(1) by (simp add: ready_def ledger_ok_def)
  show st: "stored (acc_available a)" "stored (acc_hold a)"
    using account_stored [OF wf account_of_wf(1) [OF wf assms(2)]] by auto
  then show "is_numeric (acc_available a)" "is_numeric (acc_hold a)" by (auto intro: stored_numeric)
  show "0 \<le> acc_available a" "0 \<le> acc_hold a"
    using account_nonneg(2) [OF _ wf assms(2)] assms(1) by (auto simp: ready_def ledger_ok_def)
  show "bank_of (w_db w) (u, c) = Some (acc_available a, acc_hold a)"
    using assms(2) by (simp add: bank_of_account)
qed

lemma bank_of_Some:
  assumes "bank_of d (u, c) = Some v"
  obtains a where "account_of d u c = Some a" "v = (acc_available a, acc_hold a)"
  using assms by (auto simp: bank_of_account)

lemma update_fits:
  assumes "update_account i x y d = Inr d'" "is_numeric x" "is_numeric y"
  shows "fits x" "fits y"
  using update_account_stored [OF assms(1)] assms(2,3)
  by (auto simp: is_numeric_def stored_iff fits_def)

lemma small_stored: "is_numeric k \<Longrightarrow> 0 < k \<Longrightarrow> k \<le> x \<Longrightarrow> stored x \<Longrightarrow> stored k"
  by (simp add: stored_iff)

section \<open>The ledger implements the bank\<close>

lemma HoldFunds_implements:
  assumes num: "is_numeric k"
  shows "implements (HoldFunds u c k) (move (u, c) (reserve k))"
proof (rule implementsI [OF ledger_calm(1) ledger_writes(2) ledger_keeps(2) HoldFunds_atomic move_refused])
  fix w x w' assume w: "ready w" and run: "HoldFunds u c k w = (Inr x, w')"
  obtain a where a: "account_of (w_db w) u c = Some a" "0 < k" "k \<le> acc_available a"
    and up: "update_account (acc_id a) (acc_available a - k) (acc_hold a + k) (w_db w) = Inr (w_db w')"
    using HoldFunds_Inr [OF run] by blast
  note acc = ready_account [OF w a(1)]
  have n: "is_numeric (acc_available a - k)" "is_numeric (acc_hold a + k)"
    using acc num by (auto intro: is_numeric_add is_numeric_diff)
  show "move (u, c) (reserve k) (bank_of (w_db w)) = (True, bank_of (w_db w'))"
    using acc(6) a update_fits [OF up n] bank_update [OF acc(1) a(1) up n]
    by (simp add: move_def reserve_def)
next
  fix w assume w: "ready w" and ok: "fst (move (u, c) (reserve k) (bank_of (w_db w)))"
  then obtain a where a: "account_of (w_db w) u c = Some a"
    and k: "0 < k" "k \<le> acc_available a" "fits (acc_hold a + k)"
    by (auto simp: move_def reserve_def refuse_def bank_of_account split: option.splits if_splits)
  have "stored k" using small_stored [OF num k(1,2)] ready_account(2) [OF w a] by simp
  then show "\<exists>x w'. HoldFunds u c k w = (Inr x, w')"
    using hold_works [of w u c a k] w a k by (auto simp: ready_def fits_def)
qed

lemma ReleaseHold_implements:
  assumes num: "is_numeric k"
  shows "implements (ReleaseHold u c k) (move (u, c) (unreserve k))"
proof (rule implementsI [OF ledger_calm(3) ledger_writes(3) ledger_keeps(3) ReleaseHold_atomic move_refused])
  fix w x w' assume w: "ready w" and run: "ReleaseHold u c k w = (Inr x, w')"
  obtain a where a: "account_of (w_db w) u c = Some a" "0 < k" "k \<le> acc_hold a"
    and up: "update_account (acc_id a) (acc_available a + k) (acc_hold a - k) (w_db w) = Inr (w_db w')"
    using ReleaseHold_Inr [OF run] by blast
  note acc = ready_account [OF w a(1)]
  have n: "is_numeric (acc_available a + k)" "is_numeric (acc_hold a - k)"
    using acc num by (auto intro: is_numeric_add is_numeric_diff)
  show "move (u, c) (unreserve k) (bank_of (w_db w)) = (True, bank_of (w_db w'))"
    using acc(6) a update_fits [OF up n] bank_update [OF acc(1) a(1) up n]
    by (simp add: move_def unreserve_def)
next
  fix w assume w: "ready w" and ok: "fst (move (u, c) (unreserve k) (bank_of (w_db w)))"
  then obtain a where a: "account_of (w_db w) u c = Some a"
    and k: "0 < k" "k \<le> acc_hold a" "fits (acc_available a + k)"
    by (auto simp: move_def unreserve_def refuse_def bank_of_account split: option.splits if_splits)
  note acc = ready_account [OF w a]
  have "stored k" using small_stored [OF num k(1,2) acc(3)] .
  then have "stored (acc_available a + k)" "stored (acc_hold a - k)"
    using stored_sum [OF acc(2) _ acc(4)] stored_between [OF acc(3)] k by (auto simp: fits_def)
  then obtain d where "update_account (acc_id a) (acc_available a + k) (acc_hold a - k) (w_db w) = Inr d"
    using update_account_ok by blast
  then show "\<exists>x w'. ReleaseHold u c k w = (Inr x, w')"
    using ReleaseHold_works [of w k u c] w a k by (simp add: ready_def)
qed

lemma TopUpUser_implements:
  assumes num: "is_numeric k"
  shows "implements (TopUpUser jid u k) (move (u, CurrencyUSD) (credit k))"
proof (rule implementsI [OF ledger_calm(4) ledger_writes(1) ledger_keeps(1) TopUpUser_atomic move_refused])
  fix w x w' assume w: "ready w" and run: "TopUpUser jid u k w = (Inr x, w')"
  obtain a d1 d2 where a: "account_of (w_db w) u CurrencyUSD = Some a" "0 < k"
    and i1: "insert_entry (w_now w) (mk_entry jid (acc_id a) k CurrencyUSD ''TOPUP'' jid) (w_db w) = Inr d1"
    and i2: "insert_entry (w_now w) (mk_entry jid uuid_nil (- k) CurrencyUSD ''TOPUP'' jid) d1 = Inr d2"
    and up: "update_account (acc_id a) (acc_available a + k) (acc_hold a) d2 = Inr (w_db w')"
    using TopUpUser_Inr [OF run] by blast
  note acc = ready_account [OF w a(1)]
  have same: "db_accounts d2 = db_accounts (w_db w)" by (rule journal_pair(4) [OF i1 i2])
  have d2: "db_wf d2" "account_of d2 u CurrencyUSD = Some a" "bank_of d2 = bank_of (w_db w)"
    using insert_entry_wf [OF i2] insert_entry_wf [OF i1] acc(1) a(1) same
    by (simp_all add: account_of_def bank_of_frame [OF same])
  have n: "is_numeric (acc_available a + k)" using acc num by (auto intro: is_numeric_add)
  show "move (u, CurrencyUSD) (credit k) (bank_of (w_db w)) = (True, bank_of (w_db w'))"
    using acc(6) a(2) update_fits [OF up n acc(8)] bank_update [OF d2(1,2) up n acc(8)] d2(3)
    by (simp add: move_def credit_def)
next
  fix w assume w: "ready w" and ok: "fst (move (u, CurrencyUSD) (credit k) (bank_of (w_db w)))"
  then obtain a where a: "account_of (w_db w) u CurrencyUSD = Some a"
    and k: "0 < k" "fits (acc_available a + k)"
    by (auto simp: move_def credit_def refuse_def bank_of_account split: option.splits if_splits)
  have "stored k" using ready_account(4) [OF w a] k num by (simp add: stored_iff fits_def)
  then show "\<exists>x w'. TopUpUser jid u k w = (Inr x, w')"
    using TopUpUser_works [of w u a k jid] w a k by (auto simp: ready_def fits_def)
qed

text \<open>A transfer names its accounts by ID: it implements the payment between their owners.\<close>

lemma transfer_success:
  assumes w: "ready w" and a: "account_of (w_db w) u c = Some a" and b: "account_of (w_db w) v c' = Some b"
    and num: "is_numeric k" and run: "TransferFunds jid (acc_id a) (acc_id b) k cu rt ri w = (Inr x, w')"
  shows "pay (u, c) (v, c') k (bank_of (w_db w)) = (True, bank_of (w_db w'))"
proof -
  note A = ready_account [OF w a] and B = ready_account [OF w b]
  have at: "account_at (w_db w) (acc_id a) = Some a" "account_at (w_db w) (acc_id b) = Some b"
    using account_of_wf(1) [OF A(1) a] account_of_wf(1) [OF A(1) b] by auto
  obtain d1 d2 d3 where k: "0 < k" "k \<le> acc_available a"
    and i1: "insert_entry (w_now w) (mk_entry jid (acc_id a) (- k) cu rt ri) (w_db w) = Inr d1"
    and i2: "insert_entry (w_now w) (mk_entry jid (acc_id b) k cu rt ri) d1 = Inr d2"
    and u1: "update_account (acc_id a) (acc_available a - k) (acc_hold a) d2 = Inr d3"
    and u2: "update_account (acc_id b) (acc_available b + k) (acc_hold b) d3 = Inr (w_db w')"
    using TransferFunds_Inr [OF run] at by auto
  have same: "db_accounts d2 = db_accounts (w_db w)" using insert_entry_frame(4) [OF i1] insert_entry_frame(4) [OF i2] by simp
  have d2: "db_wf d2" "account_of d2 u c = Some a" "account_of d2 v c' = Some b" "bank_of d2 = bank_of (w_db w)"
    using insert_entry_wf [OF i2] insert_entry_wf [OF i1] A(1) a b same
    by (simp_all add: account_of_def bank_of_frame [OF same])
  have n: "is_numeric (acc_available a - k)" "is_numeric (acc_available b + k)"
    using A(7) B(7) num by (auto intro: is_numeric_add is_numeric_diff)
  have d3: "db_wf d3" "bank_of d3 = (bank_of (w_db w))((u, c) \<mapsto> (acc_available a - k, acc_hold a))"
    using update_account_wf [OF u1 d2(1)] bank_update [OF d2(1,2) u1 n(1) A(8)] d2(4) by simp_all
  obtain b' where b': "account_of d3 v c' = Some b'" "acc_id b' = acc_id b"
    using account_of_same_id [OF u1, of v c'] d2(3) by auto
  have "bank_of (w_db w') = (bank_of d3)((v, c') \<mapsto> (acc_available b + k, acc_hold b))"
    by (rule bank_update [OF d3(1) b'(1) u2 [folded b'(2)] n(2) B(8)])
  then show ?thesis
    using A(6) B(6) k update_fits(1) [OF u2 n(2) B(8)] d3(2) by (simp add: pay_def)
qed

lemma transfer_pays:
  assumes w: "ready w" and a: "account_of (w_db w) u c = Some a" and b: "account_of (w_db w) v c' = Some b"
    and num: "is_numeric k" and run: "TransferFunds jid (acc_id a) (acc_id b) k cu rt ri w = (r, w')"
  shows "ready w' \<and> pay (u, c) (v, c') k (bank_of (w_db w)) = (\<not> isl r, bank_of (w_db w'))"
proof
  show "ready w'"
    by (rule ready_step [OF ledger_calm(2) ledger_writes(4) ledger_keeps(4) w run])
  note A = ready_account [OF w a] and B = ready_account [OF w b]
  show "pay (u, c) (v, c') k (bank_of (w_db w)) = (\<not> isl r, bank_of (w_db w'))"
  proof (cases r)
    case (Inl e)
    have "\<not> fst (pay (u, c) (v, c') k (bank_of (w_db w)))"
    proof
      assume "fst (pay (u, c) (v, c') k (bank_of (w_db w)))"
      then have k: "0 < k" "k \<le> acc_available a" "acc_available b + k < 10 ^ 20"
        using A(6) B(6) by (auto simp: pay_def refuse_def fits_def split: if_splits)
      have "\<exists>w'. TransferFunds jid (acc_id a) (acc_id b) k cu rt ri w = (Inr (), w')"
        using transfer_works [OF _ _ account_of_wf(1) [OF A(1) a] account_of_wf(1) [OF A(1) b]
            small_stored [OF num k(1,2) A(2)] k] w by (simp add: ready_def)
      then show False using run Inl by auto
    qed
    moreover have "w_db w' = w_db w" using TransferFunds_atomic run Inl unfolding io_atomic_def by metis
    ultimately show ?thesis using pay_refused [of "(u, c)" "(v, c')" k "bank_of (w_db w)"] Inl
      by (simp add: refuse_def)
  qed (use transfer_success [OF w a b num] run in auto)
qed


text \<open>The accounts of a user stay the same accounts.\<close>

lemma grows_account_of:
  assumes "grows d d'" "db_wf d'" "account_of d u c = Some a"
  obtains a' where "account_of d' u c = Some a'" "acc_id a' = acc_id a"
proof -
  have a: "a \<in> set (db_accounts d)" "acc_user a = u" "acc_currency a = c"
    using assms(3) by (auto simp: account_of_def find_Some_iff)
  obtain a' where a': "a' \<in> set (db_accounts d')" "acc_ident a' = acc_ident a"
    using grows_account [OF assms(1) a(1)] by blast
  have "inj_on acc_key (set (db_accounts d'))" using assms(2) by (simp add: db_wf_def distinct_map)
  moreover have "acc_key a' = (u, c)" using a a'(2) by (simp add: acc_ident_def acc_key_def)
  ultimately have only: "b = a'" if "b \<in> set (db_accounts d')" "acc_user b = u" "acc_currency b = c" for b
    using that a'(1) by (auto simp: acc_key_def inj_on_def)
  have "acc_user a' = u" "acc_currency a' = c" using a a'(2) by (simp_all add: acc_ident_def)
  then have "account_of d' u c \<noteq> None" using a'(1) by (auto simp: account_of_def find_None_iff)
  then obtain b where b: "account_of d' u c = Some b" by auto
  then have "b = a'" using only by (auto simp: account_of_def find_Some_iff)
  then show thesis using that [OF b] a'(2) by (simp add: acc_ident_def)
qed

lemma processTrade_missing:
  assumes "w_faults w = []"
    and "account_of (w_db w) (tr_taker t) CurrencyUSD = None \<or> account_of (w_db w) (tr_maker t) CurrencyUSD = None \<or>
      account_of (w_db w) (tr_taker t) (base_currency (tr_symbol t)) = None \<or>
      account_of (w_db w) (tr_maker t) (base_currency (tr_symbol t)) = None"
  shows "\<exists>e. processTrade j1 j2 t w = (Inl e, w)"
proof -
  have get: "GetAccountByUserIDAndCurrency u c w = (case account_of (w_db w) u c of
      None \<Rightarrow> (Inl (Errorf ''account not found''), w) | Some a \<Rightarrow> (Inr a, w))" for u c
    using assms(1) by (simp add: GetAccountByUserIDAndCurrency_def account_of_def io_not_found_def split: option.split)
  have bg: "io_wrap m db_Begin w = (Inr [], w)" for m using assms(1) by (simp add: io_wrap_def)
  have bind: "io_bind (io_wrap m (GetAccountByUserIDAndCurrency u c)) f w = (case account_of (w_db w) u c of
      None \<Rightarrow> (Inl (ErrorfWrap m (Errorf ''account not found'')), w) | Some a \<Rightarrow> f a w)" for m u c and f :: "account \<Rightarrow> unit io"
    by (simp add: io_bind_def io_wrap_def get split: option.split)
  show ?thesis
    using assms(2) by (auto simp: processTrade_def Let_def bind_ok bg bind split: option.split)
qed

text \<open>Two legs of a settlement, in either order.\<close>

lemma legs_implement:
  assumes w: "ready w" and num: "is_numeric k" "is_numeric l"
    and a: "account_of (w_db w) u c = Some a" and b: "account_of (w_db w) v c = Some b"
    and a': "account_of (w_db w) v' c' = Some a'" and b': "account_of (w_db w) u' c' = Some b'"
    and run: "io_bind (io_wrap m (TransferFunds j (acc_id a) (acc_id b) k cu rt ri))
      (\<lambda>_. io_wrap m' (TransferFunds j' (acc_id a') (acc_id b') l cu' rt ri)) w = (r, w')"
  shows "ready w' \<and> seq (pay (u, c) (v, c) k) (pay (v', c') (u', c') l) (bank_of (w_db w)) =
    (\<not> isl r, bank_of (w_db w'))"
proof (cases "TransferFunds j (acc_id a) (acc_id b) k cu rt ri w")
  case (Pair r1 w1)
  note one = transfer_pays [OF w a b num(1) Pair]
  show ?thesis
  proof (cases r1)
    case (Inl e)
    then have "isl r" "w' = w1" using run Pair by (auto simp: io_bind_def io_wrap_def)
    then show ?thesis using one Inl by (simp add: seq_def)
  next
    case (Inr x)
    have "grows (w_db w) (w_db w1)"
      using io_stepsD [OF ledger_writes(4) Pair] by (simp add: writes_def db_writes_grows)
    moreover have w1: "ready w1" "db_wf (w_db w1)" using one by (auto simp: ready_def ledger_ok_def)
    ultimately obtain a1 b1 where a1: "account_of (w_db w1) v' c' = Some a1" "acc_id a1 = acc_id a'"
      and b1: "account_of (w_db w1) u' c' = Some b1" "acc_id b1 = acc_id b'"
      using grows_account_of a' b' by metis
    obtain r2 where two: "TransferFunds j' (acc_id a1) (acc_id b1) l cu' rt ri w1 = (r2, w')" "isl r = isl r2"
      using run Pair Inr a1(2) b1(2)
      by (cases "TransferFunds j' (acc_id a') (acc_id b') l cu' rt ri w1")
         (auto simp: io_bind_def io_wrap_def split: sum.splits)
    show ?thesis
      using one transfer_pays [OF w1(1) a1(1) b1(1) num(2) two(1)] Inr two(2) by (simp add: seq_def)
  qed
qed

lemma processTrade_implements:
  assumes num: "is_numeric (tr_value t)" "is_numeric (tr_qty t)"
  shows "implements (processTrade j1 j2 t) (obey (Settle t))"
  unfolding implements_def
proof (intro allI impI)
  fix w r w' assume w: "ready w" and run: "processTrade j1 j2 t w = (r, w')"
  have nf: "w_faults w = []" using w by (simp add: ready_def)
  let ?d = "w_db w" and ?base = "base_currency (tr_symbol t)"
  show "ready w' \<and> obey (Settle t) (bank_of ?d) = (\<not> isl r, bank_of (w_db w'))"
  proof (cases "account_of ?d (tr_buyer t) CurrencyUSD = None \<or> account_of ?d (tr_seller t) CurrencyUSD = None \<or>
      account_of ?d (tr_buyer t) ?base = None \<or> account_of ?d (tr_seller t) ?base = None")
    case True
    then have "obey (Settle t) (bank_of ?d) = refuse (bank_of ?d)" by (auto simp: Let_def bank_of_account)
    moreover obtain e where "processTrade j1 j2 t w = (Inl e, w)"
      using processTrade_missing [OF nf, of t j1 j2] True by (auto simp: tr_buyer_def tr_seller_def split: if_splits)
    ultimately show ?thesis using run w by (simp add: refuse_def)
  next
    case False
    then obtain bu su bb sb where
      bu: "account_of ?d (tr_buyer t) CurrencyUSD = Some bu" and su: "account_of ?d (tr_seller t) CurrencyUSD = Some su"
      and bb: "account_of ?d (tr_buyer t) ?base = Some bb" and sb: "account_of ?d (tr_seller t) ?base = Some sb"
      by auto
    note legs = processTrade_legs [OF nf bu su bb sb, of j1 j2, unfolded run usd_leg_def base_leg_def Let_def]
    have "obey (Settle t) (bank_of ?d) =
      (if tr_side t = OrderSideBuy
       then seq (pay (tr_buyer t, CurrencyUSD) (tr_seller t, CurrencyUSD) (tr_value t))
              (pay (tr_seller t, ?base) (tr_buyer t, ?base) (tr_qty t)) (bank_of ?d)
       else seq (pay (tr_seller t, ?base) (tr_buyer t, ?base) (tr_qty t))
              (pay (tr_buyer t, CurrencyUSD) (tr_seller t, CurrencyUSD) (tr_value t)) (bank_of ?d))"
      using bu su bb sb by (simp add: Let_def bank_of_account)
    moreover have "ready w' \<and> seq (pay (tr_buyer t, CurrencyUSD) (tr_seller t, CurrencyUSD) (tr_value t))
        (pay (tr_seller t, ?base) (tr_buyer t, ?base) (tr_qty t)) (bank_of ?d) = (\<not> isl r, bank_of (w_db w'))"
      if "tr_side t = OrderSideBuy"
      by (rule legs_implement [OF w num bu su sb bb]) (use legs that in \<open>simp add: eq_commute\<close>)
    moreover have "ready w' \<and> seq (pay (tr_seller t, ?base) (tr_buyer t, ?base) (tr_qty t))
        (pay (tr_buyer t, CurrencyUSD) (tr_seller t, CurrencyUSD) (tr_value t)) (bank_of ?d) = (\<not> isl r, bank_of (w_db w'))"
      if "tr_side t \<noteq> OrderSideBuy"
      by (rule legs_implement [OF w num(2,1) sb bb bu su]) (use legs that in \<open>simp add: eq_commute\<close>)
    ultimately show ?thesis by simp
  qed
qed


fun numeric_command :: "command \<Rightarrow> bool" where
  "numeric_command (Credit u k) \<longleftrightarrow> is_numeric k"
| "numeric_command (Reserve u c k) \<longleftrightarrow> is_numeric k"
| "numeric_command (Unreserve u c k) \<longleftrightarrow> is_numeric k"
| "numeric_command (Settle t) \<longleftrightarrow> is_numeric (tr_value t) \<and> is_numeric (tr_qty t)"

lemma implements_forget: "implements m f \<Longrightarrow> implements (io_bind m (\<lambda>_. io_return ())) f"
  unfolding implements_def io_bind_def io_return_def by (fastforce split: prod.splits sum.splits)

lemma perform_implements:
  assumes "numeric_command c"
  shows "implements (perform j1 j2 c) (obey c)"
proof -
  have eta: "obey (Credit u k) = move (u, CurrencyUSD) (credit k)" "obey (Reserve u cu k) = move (u, cu) (reserve k)"
    "obey (Unreserve u cu k) = move (u, cu) (unreserve k)" for u cu k
    by (rule ext, simp)+
  show ?thesis
    using assms
    by (cases c) (simp_all only: perform.simps eta numeric_command.simps implements_forget TopUpUser_implements
        HoldFunds_implements ReleaseHold_implements processTrade_implements)
qed

lemma perform_all_implements:
  assumes "ready w" and "\<forall>(j1, j2, c) \<in> set cs. numeric_command c"
  shows "ready (snd (perform_all cs w)) \<and> obey_all (map (snd \<circ> snd) cs) (bank_of (w_db w)) =
    (fst (perform_all cs w), bank_of (w_db (snd (perform_all cs w))))"
  using assms
proof (induction cs arbitrary: w)
  case (Cons jc cs)
  obtain j1 j2 c where jc: "jc = (j1, j2, c)" by (cases jc)
  obtain r w' where run: "perform j1 j2 c w = (r, w')" by (cases "perform j1 j2 c w")
  have "implements (perform j1 j2 c) (obey c)" using Cons.prems(2) by (simp add: jc perform_implements)
  note step = implementsD [OF this Cons.prems(1) run]
  show ?case
    using Cons.IH [of w'] Cons.prems(2) step run by (cases "perform_all cs w'") (simp add: jc)
qed simp

section \<open>No money is made\<close>

text \<open>All there is of a currency, in available and held amounts.\<close>

definition worth :: "bank \<Rightarrow> currency \<Rightarrow> decimal" where
  "worth b c = (\<Sum>p \<in> dom b. case b p of Some (x, h) \<Rightarrow> if snd p = c then x + h else 0 | None \<Rightarrow> 0)"

definition money :: "db \<Rightarrow> currency \<Rightarrow> decimal" where
  "money d c = sum_list (map (\<lambda>a. if acc_currency a = c then acc_available a + acc_hold a else 0) (db_accounts d))"

lemma bank_of_finite [simp]: "finite (dom (bank_of d))"
  by (simp add: bank_of_def finite_dom_map_of)

lemma money_worth:
  assumes "db_wf d"
  shows "money d c = worth (bank_of d) c"
proof -
  let ?f = "\<lambda>a. if acc_currency a = c then acc_available a + acc_hold a else 0"
  let ?kv = "\<lambda>a. (acc_key a, (acc_available a, acc_hold a))"
  have dist: "distinct (map acc_key (db_accounts d))" using assms by (simp add: db_wf_def)
  have fst_kv: "fst \<circ> ?kv = acc_key" by (simp add: o_def)
  have dom: "dom (bank_of d) = acc_key ` set (db_accounts d)"
    by (force simp: bank_of_def dom_map_of_conv_image_fst)
  have val: "bank_of d (acc_key a) = Some (acc_available a, acc_hold a)" if "a \<in> set (db_accounts d)" for a
    unfolding bank_of_def using that dist by (intro map_of_is_SomeI) (auto simp: fst_kv)
  have "worth (bank_of d) c = (\<Sum>a \<in> set (db_accounts d).
      case bank_of d (acc_key a) of Some (x, h) \<Rightarrow> if snd (acc_key a) = c then x + h else 0 | None \<Rightarrow> 0)"
    unfolding worth_def dom using dist by (subst sum.reindex) (simp_all add: distinct_map)
  also have "\<dots> = (\<Sum>a \<in> set (db_accounts d). ?f a)"
  proof (rule sum.cong [OF refl])
    fix a assume "a \<in> set (db_accounts d)"
    moreover have "snd (acc_key a) = acc_currency a" by (simp add: acc_key_def)
    ultimately show "(case bank_of d (acc_key a) of Some (x, h) \<Rightarrow> if snd (acc_key a) = c then x + h else 0 | None \<Rightarrow> 0)
        = ?f a" by (simp only: val option.case prod.case)
  qed
  also have "\<dots> = money d c"
    using dist unfolding money_def by (simp add: sum.distinct_set_conv_list distinct_map)
  finally show ?thesis ..
qed

lemma worth_update:
  assumes "finite (dom b)" "b p = Some (x, h)"
  shows "worth (b(p \<mapsto> (x', h'))) c = worth b c + (if snd p = c then (x' + h') - (x + h) else 0)"
proof -
  have p: "p \<in> dom b" using assms(2) by auto
  let ?g = "\<lambda>b p. case b p of Some (x, h) \<Rightarrow> if snd p = c then x + h else (0 :: rat) | None \<Rightarrow> 0"
  have "dom (b(p \<mapsto> (x', h'))) = dom b" using p by auto
  then have "worth (b(p \<mapsto> (x', h'))) c = ?g (b(p \<mapsto> (x', h'))) p + (\<Sum>q \<in> dom b - {p}. ?g (b(p \<mapsto> (x', h'))) q)"
    unfolding worth_def by (simp only: sum.remove [OF assms(1) p])
  also have "(\<Sum>q \<in> dom b - {p}. ?g (b(p \<mapsto> (x', h'))) q) = (\<Sum>q \<in> dom b - {p}. ?g b q)"
    by (rule sum.cong) simp_all
  finally have "worth (b(p \<mapsto> (x', h'))) c = (if snd p = c then x' + h' else 0) + (\<Sum>q \<in> dom b - {p}. ?g b q)"
    by (simp only: fun_upd_same option.case prod.case)
  moreover have "worth b c = ?g b p + (\<Sum>q \<in> dom b - {p}. ?g b q)"
    unfolding worth_def by (rule sum.remove [OF assms(1) p])
  ultimately show ?thesis using assms(2) by simp
qed

lemma move_dom: "dom (snd (move p f b)) = dom b" and pay_dom: "dom (snd (pay p q k b)) = dom b"
  by (auto simp: move_def pay_def refuse_def split: option.split)

lemma worth_pay:
  assumes "finite (dom b)" "p \<noteq> q" "snd p = snd q"
  shows "worth (snd (pay p q k b)) c = worth b c"
proof (cases "b p = None \<or> b q = None")
  case False
  then obtain x h y g where v: "b p = Some (x, h)" "b q = Some (y, g)" by auto
  then have "worth (b(p \<mapsto> (x - k, h), q \<mapsto> (y + k, g))) c = worth b c"
    using assms worth_update [of "b(p \<mapsto> (x - k, h))" q y g "y + k" g c] worth_update [OF assms(1) v(1)] by simp
  then show ?thesis using v by (simp add: pay_def refuse_def)
qed (auto simp: pay_def refuse_def split: option.split)

definition credit_of :: "command \<Rightarrow> bool \<Rightarrow> decimal" where
  "credit_of c ok = (case c of Credit u k \<Rightarrow> if ok then k else 0 | _ \<Rightarrow> 0)"

fun between_two :: "command \<Rightarrow> bool" where
  "between_two (Settle t) \<longleftrightarrow> tr_taker t \<noteq> tr_maker t"
| "between_two _ \<longleftrightarrow> True"

lemma worth_move:
  assumes "finite (dom b)" and "\<And>x h v. f (x, h) = Some v \<Longrightarrow> fst v + snd v = x + h + k"
  shows "worth (snd (move p f b)) c = worth b c + (if fst (move p f b) \<and> snd p = c then k else 0)"
proof (cases "b p")
  case (Some v)
  obtain x h where v: "v = (x, h)" by (cases v)
  show ?thesis
  proof (cases "f v")
    case (Some v')
    obtain x' h' where v': "v' = (x', h')" by (cases v')
    show ?thesis
      using worth_update [OF assms(1) \<open>b p = Some v\<close> [unfolded v], of x' h' c] assms(2) [of x h v'] Some \<open>b p = Some v\<close>
      by (simp add: move_def v v')
  qed (simp add: move_def refuse_def \<open>b p = Some v\<close>)
qed (simp add: move_def refuse_def)

lemma worth_obey:
  assumes "finite (dom b)" "between_two cmd" "obey cmd b = (ok, b')"
  shows "worth b' c = worth b c + (if c = CurrencyUSD then credit_of cmd ok else 0)"
proof (cases cmd)
  case (Credit u k)
  have "worth (snd (move (u, CurrencyUSD) (credit k) b)) c =
      worth b c + (if fst (move (u, CurrencyUSD) (credit k) b) \<and> snd (u, CurrencyUSD) = c then k else 0)"
    by (rule worth_move [OF assms(1)]) (auto simp: credit_def split: if_splits)
  then show ?thesis using assms(3) Credit by (simp add: credit_of_def)
next
  case (Reserve u cu k)
  have "worth (snd (move (u, cu) (reserve k) b)) c =
      worth b c + (if fst (move (u, cu) (reserve k) b) \<and> snd (u, cu) = c then 0 else 0)"
    by (rule worth_move [OF assms(1)]) (auto simp: reserve_def split: if_splits)
  then show ?thesis using assms(3) Reserve by (simp add: credit_of_def)
next
  case (Unreserve u cu k)
  have "worth (snd (move (u, cu) (unreserve k) b)) c =
      worth b c + (if fst (move (u, cu) (unreserve k) b) \<and> snd (u, cu) = c then 0 else 0)"
    by (rule worth_move [OF assms(1)]) (auto simp: unreserve_def split: if_splits)
  then show ?thesis using assms(3) Unreserve by (simp add: credit_of_def)
next
  case (Settle t)
  have two: "(tr_buyer t, cu) \<noteq> (tr_seller t, cu)" "(tr_seller t, cu) \<noteq> (tr_buyer t, cu)" for cu :: currency
    using assms(2) Settle buyer_seller [of t] by auto
  have both: "worth (snd (seq (pay p q k) (pay p' q' l) b)) c = worth b c"
    if "p \<noteq> q" "snd p = snd q" "p' \<noteq> q'" "snd p' = snd q'" for p q p' q' k l
    using worth_pay [OF assms(1) that(1,2), of k c] worth_pay [OF _ that(3,4), of "snd (pay p q k b)" l c]
      pay_dom [of p q k b] assms(1)
    by (cases "pay p q k b") (simp add: seq_def split: bool.split)
  have "worth (snd (obey cmd b)) c = worth b c"
    using both [OF two(1) _ two(2)] both [OF two(2) _ two(1)] by (simp add: Settle Let_def refuse_def)
  then show ?thesis using assms(3) Settle by (simp add: credit_of_def)
qed

lemma money_obey_all:
  assumes "ready w" and "\<forall>(j1, j2, cmd) \<in> set cs. numeric_command cmd \<and> between_two cmd"
  shows "money (w_db (snd (perform_all cs w))) c = money (w_db w) c +
    (if c = CurrencyUSD then sum_list (map2 credit_of (map (snd \<circ> snd) cs) (fst (perform_all cs w))) else 0)"
  using assms
proof (induction cs arbitrary: w)
  case (Cons jc cs)
  obtain j1 j2 cmd where jc: "jc = (j1, j2, cmd)" by (cases jc)
  obtain r w' where run: "perform j1 j2 cmd w = (r, w')" by (cases "perform j1 j2 cmd w")
  have "implements (perform j1 j2 cmd) (obey cmd)" using Cons.prems(2) by (simp add: jc perform_implements)
  note step = implementsD [OF this Cons.prems(1) run]
  have wf: "db_wf (w_db w)" "db_wf (w_db w')"
    using step Cons.prems(1) by (auto simp: ready_def ledger_ok_def)
  have "money (w_db w') c = money (w_db w) c + (if c = CurrencyUSD then credit_of cmd (\<not> isl r) else 0)"
    using worth_obey [of "bank_of (w_db w)" cmd "\<not> isl r" "bank_of (w_db w')" c] Cons.prems(2) step
    by (simp add: jc money_worth wf)
  then show ?case
    using Cons.IH [of w'] Cons.prems(2) step run by (cases "perform_all cs w'") (simp add: jc)
qed simp

section \<open>Properties\<close>

text \<open>
  C3: the ledger and the settlement refine the abstract bank: from a state whose books are in order, any
  sequence of top-ups, holds, releases and trades, of amounts with ten decimals, carries out and refuses
  exactly the commands the bank does, and leaves every user's balances as the bank has them.
\<close>

theorem ledger_refines_bank:
  assumes "ready w" and "\<forall>(j1, j2, c) \<in> set cs. numeric_command c"
  shows "obey_all (map (snd \<circ> snd) cs) (bank_of (w_db w)) =
    (fst (perform_all cs w), bank_of (w_db (snd (perform_all cs w))))"
  using perform_all_implements [OF assms] by blast

text \<open>
  C4: no money is made: over any such sequence in which nobody trades with themselves, the total of each
  currency in all accounts changes by exactly the top-ups that were carried out.
\<close>

theorem money_is_conserved:
  assumes "ready w" and "\<forall>(j1, j2, cmd) \<in> set cs. numeric_command cmd \<and> between_two cmd"
  shows "money (w_db (snd (perform_all cs w))) c = money (w_db w) c +
    (if c = CurrencyUSD then sum_list (map2 credit_of (map (snd \<circ> snd) cs) (fst (perform_all cs w))) else 0)"
  using money_obey_all [OF assms] .

section \<open>The properties on the sample database\<close>

lemma sample_ready: "ready sample_world"
  using sample_db_ok by (simp add: ready_def) (simp add: has_account_def sample_db_def uuid_nil_def sample_account_def)

definition sample_commands :: "(uuid \<times> uuid \<times> command) list" where
  "sample_commands = [(51, 52, Credit 1 100), (53, 54, Reserve 1 CurrencyUSD 2000),
     (55, 56, Settle (sample_trade 2 3)), (57, 58, Unreserve 2 CurrencyBTC 2), (59, 60, Settle (sample_trade 2 4))]"

lemma sample_numeric: "\<forall>(j1, j2, c) \<in> set sample_commands. numeric_command c \<and> between_two c"
  by (simp add: sample_commands_def is_numeric_of_int [of "numeral n" for n, simplified])

lemma sample_bank:
  "bank_of sample_db (1, CurrencyUSD) = Some (1000, 0)" "bank_of sample_db (1, CurrencyBTC) = Some (1, 0)"
  "bank_of sample_db (2, CurrencyUSD) = Some (0, 0)" "bank_of sample_db (2, CurrencyBTC) = Some (3, 2)"
  by (simp_all add: bank_of_account sample_account_of)

lemmas bank_eval = move_def credit_def reserve_def unreserve_def pay_def seq_def refuse_def fits_def
  sample_bank Let_def sample_commands_def

lemma sample_run:
  "fst (obey_all (map (snd \<circ> snd) sample_commands) (bank_of sample_db)) = [True, False, True, True, False]"
  "snd (obey_all (map (snd \<circ> snd) sample_commands) (bank_of sample_db)) (2, CurrencyUSD) = Some (700, 0)"
  by (simp_all add: bank_eval)

theorem ledger_refines_bank_witness:
  "fst (perform_all sample_commands sample_world) = [True, False, True, True, False] \<and>
   bank_of (w_db (snd (perform_all sample_commands sample_world))) (2, CurrencyUSD) = Some (700, 0)"
  using ledger_refines_bank [OF sample_ready, of sample_commands] sample_numeric sample_run
  by (simp add: case_prod_unfold)

theorem money_is_conserved_witness:
  "money (w_db (snd (perform_all sample_commands sample_world))) CurrencyBTC = 6 \<and>
   money sample_db CurrencyBTC = 6"
  using money_is_conserved [OF sample_ready sample_numeric, of CurrencyBTC]
  by (simp add: money_def sample_db_def sample_account_def)

end
