(* ===== verification/Portfolio.thy ===== *)
theory Portfolio
  imports Startup Bank
begin

text \<open>
  What a user sees of the ledger: the accounts the trigger of the schema makes at sign-up, and the
  balances \<open>portfolioHandler\<close> of \<open>cmd/monolith/main.go\<close> reads from them later.
\<close>

section \<open>The three accounts of a user\<close>

lemma account_of_in:
  "account_of d u c = Some a \<Longrightarrow> a \<in> set (db_accounts d) \<and> acc_user a = u \<and> acc_currency a = c"
  by (auto simp: account_of_def find_Some_iff)

lemma account_of_unique:
  assumes "db_wf d" "a \<in> set (db_accounts d)"
  shows "account_of d (acc_user a) (acc_currency a) = Some a"
proof -
  have "inj_on acc_key (set (db_accounts d))" using assms(1) by (simp add: db_wf_def distinct_map)
  then show ?thesis unfolding account_of_def
    using assms(2) by (intro find_unique_Some) (auto simp: acc_key_def inj_on_def)
qed

text \<open>\<open>ORDER BY currency\<close> puts them in the order USD, BTC, ETH.\<close>

lemma accounts_in_order:
  assumes wf: "db_wf d" and x: "account_of d u CurrencyUSD = Some x" and y: "account_of d u CurrencyBTC = Some y"
    and z: "account_of d u CurrencyETH = Some z"
  shows "sort_key acc_currency (filter (\<lambda>a. acc_user a = u) (db_accounts d)) = [x, y, z]"
    (is "sort_key ?k ?as = _")
proof -
  have mem: "a \<in> {x, y, z}" if "a \<in> set (db_accounts d)" "acc_user a = u" for a
    using account_of_unique [OF wf that(1)] that(2) x y z by (cases "acc_currency a") auto
  have set_as: "set ?as = {x, y, z}"
    using mem account_of_in [OF x] account_of_in [OF y] account_of_in [OF z] by auto
  have "inj_on ?k (set ?as)"
    using account_of_in [OF x] account_of_in [OF y] account_of_in [OF z] unfolding set_as by (auto simp: inj_on_def)
  moreover have "distinct ?as" using wf by (simp add: db_wf_def distinct_map)
  ultimately have "distinct (map ?k (sort_key ?k ?as))" by (simp add: distinct_map)
  moreover have "sorted (map ?k [x, y, z])" "distinct (map ?k [x, y, z])"
    using account_of_in [OF x] account_of_in [OF y] account_of_in [OF z] by (simp_all add: less_eq_currency_def)
  ultimately show ?thesis
    using \<open>inj_on ?k (set ?as)\<close> set_as
    by (intro map_sorted_distinct_set_unique [where f = ?k]) simp_all
qed

lemma insert_user_accounts:
  assumes "insert_user u a1 a2 a3 d = Inr d'" and "db_wf d"
  shows "account_of d' (usr_id u) CurrencyUSD = Some (new_account a1 (usr_id u) CurrencyUSD)"
    and "account_of d' (usr_id u) CurrencyBTC = Some (new_account a2 (usr_id u) CurrencyBTC)"
    and "account_of d' (usr_id u) CurrencyETH = Some (new_account a3 (usr_id u) CurrencyETH)"
proof -
  have mem: "set [new_account a1 (usr_id u) CurrencyUSD, new_account a2 (usr_id u) CurrencyBTC,
      new_account a3 (usr_id u) CurrencyETH] \<subseteq> set (db_accounts d')"
    using insert_user_Inr(1) [OF assms(1)] by auto
  show "account_of d' (usr_id u) CurrencyUSD = Some (new_account a1 (usr_id u) CurrencyUSD)"
    and "account_of d' (usr_id u) CurrencyBTC = Some (new_account a2 (usr_id u) CurrencyBTC)"
    and "account_of d' (usr_id u) CurrencyETH = Some (new_account a3 (usr_id u) CurrencyETH)"
    using account_of_unique [OF insert_user_wf [OF assms], of "new_account a1 (usr_id u) CurrencyUSD"]
      account_of_unique [OF insert_user_wf [OF assms], of "new_account a2 (usr_id u) CurrencyBTC"]
      account_of_unique [OF insert_user_wf [OF assms], of "new_account a3 (usr_id u) CurrencyETH"] mem
    by (simp_all add: new_account_def)
qed

lemma signup_accounts:
  assumes "signupHandler cd cr dr r hs s = Reply resp s'" and "rs_code resp = 200" and "db_wf (server_db s)"
    and "dr_accounts dr = (a1, a2, a3)"
  shows "account_of (server_db s') (dr_user dr) CurrencyUSD = Some (new_account a1 (dr_user dr) CurrencyUSD)"
    and "account_of (server_db s') (dr_user dr) CurrencyBTC = Some (new_account a2 (dr_user dr) CurrencyBTC)"
    and "account_of (server_db s') (dr_user dr) CurrencyETH = Some (new_account a3 (dr_user dr) CurrencyETH)"
proof -
  obtain email hash u s1 where c: "on_world (CreateUser (dr_user dr) a1 a2 a3 email hash) s = (Inr u, s1)"
    and t: "send_tokens cd cr dr u hs s1 = Reply resp s'"
    using assms by (auto simp: signupHandler_def status_defs split: option.splits sum.splits prod.splits)
  have "s' = s1" using t trading_server.send_tokens_state [of cd cr dr u hs s1] by simp
  moreover have "usr_id u = dr_user dr" "insert_user u a1 a2 a3 (server_db s) = Inr (server_db s1)"
    using CreateUser_Inr [OF on_worldD [OF c]] by auto
  ultimately show "account_of (server_db s') (dr_user dr) CurrencyUSD = Some (new_account a1 (dr_user dr) CurrencyUSD)"
    and "account_of (server_db s') (dr_user dr) CurrencyBTC = Some (new_account a2 (dr_user dr) CurrencyBTC)"
    and "account_of (server_db s') (dr_user dr) CurrencyETH = Some (new_account a3 (dr_user dr) CurrencyETH)"
    using insert_user_accounts [of u a1 a2 a3 "server_db s" "server_db s1"] assms(3) by auto
qed

section \<open>Properties\<close>

text \<open>
  C16: from a successful sign-up on, in every state the server reaches and as long as the driver works,
  the user's portfolio shows the three accounts made at sign-up, USD, BTC and ETH in this order, with
  the balances that are in the tables, never negative, and totals of available and held amounts; its
  positions and profit are always empty and zero.
\<close>

theorem portfolio_shows_accounts:
  assumes "signupHandler cd cr dr r hs s = Reply resp s'" and "rs_code resp = 200" and "ledger_ok (server_db s)"
    and "drawn str dr" and "(server_step str)\<^sup>*\<^sup>* s' s2" and "w_faults (os_world (sv_orders s2)) = []"
    and "GetUserIDFromContext (rq_ctx r2) = Some (dr_user dr)"
  shows "\<exists>(x :: account) y z. (acc_id x, acc_id y, acc_id z) = dr_accounts dr \<and>
    map acc_currency [x, y, z] = [CurrencyUSD, CurrencyBTC, CurrencyETH] \<and>
    (\<forall>a \<in> {x, y, z}. balances (server_db s2) (acc_id a) = Some (acc_available a, acc_hold a) \<and>
       0 \<le> acc_available a \<and> 0 \<le> acc_hold a) \<and>
    portfolioHandler cd r2 hs2 s2 =
      json_reply hs2 (cd_portfolio cd
        \<lparr>pf_balances = map (\<lambda>a. \<lparr>bal_currency = acc_currency a, bal_available = acc_available a,
           bal_hold = acc_hold a, bal_total = acc_available a + acc_hold a\<rparr>) [x, y, z],
         pf_positions = [], pf_pnl = \<lparr>pnl_realized = 0, pnl_unrealized = 0, pnl_total = 0\<rparr>\<rparr>) s2"
proof -
  obtain a1 a2 a3 where ids: "dr_accounts dr = (a1, a2, a3)" by (metis prod.exhaust)
  have ok': "ledger_ok (server_db s')"
    using trading_server.signup_step [OF assms(4), of s cd cr r hs] assms(1,3) by (simp add: advances_def trading_def)
  have ok2: "ledger_ok (server_db s2)" using reachable_db [OF assms(5) ok'] by simp
  then have wf2: "db_wf (server_db s2)" "nonneg_balances (server_db s2)" by (simp_all add: ledger_ok_def)
  have grown: "grows (server_db s') (server_db s2)"
    using writes_server.reachable_advances [OF assms(5)] by (simp add: advances_def writes_def db_writes_grows)
  have "db_wf (server_db s)" using assms(3) by (simp add: ledger_ok_def)
  note acc = signup_accounts [OF assms(1,2) this ids]
  obtain x y z where x: "account_of (server_db s2) (dr_user dr) CurrencyUSD = Some x" "acc_id x = a1"
    and y: "account_of (server_db s2) (dr_user dr) CurrencyBTC = Some y" "acc_id y = a2"
    and z: "account_of (server_db s2) (dr_user dr) CurrencyETH = Some z" "acc_id z = a3"
    using grows_account_of [OF grown wf2(1) acc(1)] grows_account_of [OF grown wf2(1) acc(2)]
      grows_account_of [OF grown wf2(1) acc(3)] by (metis account.select_convs(1) new_account_def)
  have "balances (server_db s2) (acc_id a) = Some (acc_available a, acc_hold a) \<and> 0 \<le> acc_available a \<and> 0 \<le> acc_hold a"
    if "account_of (server_db s2) (dr_user dr) c = Some a" for c a
    using account_of_wf(4) [OF wf2(1) that] account_nonneg(2) [OF wf2(2,1) that] by simp
  then have bal: "\<forall>a \<in> {x, y, z}. balances (server_db s2) (acc_id a) = Some (acc_available a, acc_hold a) \<and>
      0 \<le> acc_available a \<and> 0 \<le> acc_hold a" using x y z by blast
  have "on_world (GetAccountsByUserID (dr_user dr)) s2 = (Inr [x, y, z], s2)"
    using accounts_in_order [OF wf2(1) x(1) y(1) z(1)] assms(6)
    by (simp add: on_world_def GetAccountsByUserID_def io_wrap_def)
  then show ?thesis
    using bal ids x y z account_of_in [OF x(1)] account_of_in [OF y(1)] account_of_in [OF z(1)] assms(7)
    by (intro exI [of _ x] exI [of _ y] exI [of _ z])
       (simp add: portfolioHandler_def portfolio_of_def balance_of_def)
qed

section \<open>The property on the sample server\<close>

text \<open>A codec that writes a portfolio as the initials of its currencies.\<close>

definition initials :: "portfolio \<Rightarrow> string" where
  "initials p = map (\<lambda>b. case bal_currency b of CurrencyUSD \<Rightarrow> CHR ''U'' | CurrencyBTC \<Rightarrow> CHR ''B''
     | CurrencyETH \<Rightarrow> CHR ''E'') (pf_balances p)"

theorem portfolio_shows_accounts_witness:
  "\<exists>s' b. signupHandler (sample_codec\<lparr>cd_portfolio := initials\<rparr>) sample_crypto sample_draws sample_post (\<lambda>_. None)
       sample_server = json_reply (\<lambda>_. None) b s' \<and>
     portfolioHandler (sample_codec\<lparr>cd_portfolio := initials\<rparr>) (sample_post\<lparr>rq_ctx := [UserIDKey \<mapsto> 4]\<rparr>) (\<lambda>_. None) s' =
       json_reply (\<lambda>_. None) ''UBE'' s'"
proof -
  let ?cd = "sample_codec\<lparr>cd_portfolio := initials\<rparr>"
  have "send_tokens ?cd = send_tokens sample_codec" by (intro ext) (simp add: send_tokens_def split: sum.split)
  then have "signupHandler ?cd = signupHandler sample_codec" by (intro ext) (simp add: signupHandler_def split: sum.split option.split prod.split)
  then obtain s' b where s': "signupHandler ?cd sample_crypto sample_draws sample_post (\<lambda>_. None) sample_server =
     json_reply (\<lambda>_. None) b s'" "w_faults (os_world (sv_orders s')) = []" using sample_signup by metis
  have "GetUserIDFromContext (rq_ctx (sample_post\<lparr>rq_ctx := [UserIDKey \<mapsto> 4]\<rparr>)) = Some (dr_user sample_draws)"
    by (simp add: GetUserIDFromContext_def sample_draws_def)
  from portfolio_shows_accounts [OF s'(1) [unfolded json_reply_def] _ sample_post_hyps(6) sample_drawn
      rtranclp.rtrancl_refl s'(2) this, of "\<lambda>_. None"] s'(1)
  show ?thesis by (auto simp: StatusOK_def initials_def)
qed

end
