(* ===== verification/Makers.thy ===== *)
theory Makers
  imports Orders
begin

text \<open>
  The order rows of the makers. \<open>CreateOrder\<close> of \<open>internal/orders/service.go\<close> saves the fill of the order it
  was called for; what the trades filled of the resting orders is recorded in the books only.
\<close>

section \<open>Rows of other orders\<close>

definition others_kept :: "uuid \<Rightarrow> world \<Rightarrow> world \<Rightarrow> bool" where
  "others_kept i w w' \<longleftrightarrow>
     filter (\<lambda>r. ord_id r \<noteq> i) (db_orders (w_db w')) = filter (\<lambda>r. ord_id r \<noteq> i) (db_orders (w_db w))"

interpretation others: table_relation "others_kept i" for i
  by unfold_locales (simp_all add: others_kept_def)

text \<open>The ledger does not touch the order table.\<close>

lemma ledger_orders:
  "HoldFunds u c k w = (Inr x, w') \<Longrightarrow> db_orders (w_db w') = db_orders (w_db w)"
  "TransferFunds jid from to k c rt ri w = (Inr x, w') \<Longrightarrow> db_orders (w_db w') = db_orders (w_db w)"
proof -
  have up: "db_orders d' = db_orders d" if "update_account i y z d = Inr d'" for i y z d d'
    using update_account_Inr [OF that] by simp
  have ins: "db_orders d' = db_orders d" if "insert_entry now e d = Inr d'" for now e d d'
    using insert_entry_Inr(3) [OF that] by simp
  show "HoldFunds u c k w = (Inr x, w') \<Longrightarrow> db_orders (w_db w') = db_orders (w_db w)"
    using HoldFunds_Inr up by blast
  show "TransferFunds jid from to k c rt ri w = (Inr x, w') \<Longrightarrow> db_orders (w_db w') = db_orders (w_db w)"
    using TransferFunds_Inr [of jid "from" to k c rt ri w x w'] up ins by metis
qed

text \<open>The two statements on order rows.\<close>

lemma CreateOrderRow_Inr:
  assumes "CreateOrderRow r w = (Inr x, w')"
  shows "\<exists>p q f. map_option (\<lambda>_. ()) p = map_option (\<lambda>_. ()) (ord_price r) \<and>
    db_orders (w_db w') = db_orders (w_db w) @ [r\<lparr>ord_price := p, ord_qty := q, ord_filled := f\<rparr>]"
proof -
  have "insert_order r (w_db w) = Inr (w_db w')"
    using assms unfolding CreateOrderRow_def by (auto elim!: io_wrapE db_ExecE)
  from insert_order_Inr(3) [OF this] obtain p q f where "to_numeric_opt (ord_price r) = Inr p"
    "w_db w' = (w_db w)\<lparr>db_orders := db_orders (w_db w) @ [r\<lparr>ord_price := p, ord_qty := q, ord_filled := f\<rparr>]\<rparr>"
    by blast
  moreover have "map_option (\<lambda>_. ()) p = map_option (\<lambda>_. ()) (ord_price r)"
    using calculation(1) by (cases "ord_price r"; cases "to_numeric (the (ord_price r))") (auto simp: to_numeric_opt_def)
  ultimately show ?thesis by (intro exI [of _ p] exI [of _ q] exI [of _ f]) simp
qed

lemma save_fill_Inr:
  assumes "save_fill r w = (Inr x, w')"
  shows "\<exists>f. db_orders (w_db w') =
    map (\<lambda>r'. if ord_id r' = ord_id r then r'\<lparr>ord_filled := f, ord_status := ord_status r\<rparr> else r') (db_orders (w_db w))"
proof -
  have "update_order (ord_id r) (ord_filled r) (ord_status r) (w_db w) = Inr (w_db w')"
    using assms by (auto simp: save_fill_def split: sum.split_asm elim!: io_elims)
  then show ?thesis by (auto simp: update_order_def split: sum.splits dest!: sym [of _ "w_db w'"])
qed

lemma save_fill_atomic: "io_atomic (save_fill r)"
  unfolding save_fill_def by (intro io_atomic_bind_reads io_rules)

lemma holdFunds_atomic: "io_atomic (holdFunds u req k)"
  unfolding holdFunds_def by (auto intro: HoldFunds_atomic io_rules)

interpretation others_order: order_steps "others_kept i" "\<lambda>r. ord_id r = i" for i
proof
  show "io_steps (others_kept i) (holdFunds u req k)" for u req k
    by (rule others.steps_atomic [OF holdFunds_atomic])
       (auto simp: others_kept_def holdFunds_def ledger_orders(1) split: if_splits)
  have transfer: "io_steps (others_kept i) (TransferFunds jid from to k c rt ri)" for jid "from" to k c rt ri
    by (rule others.steps_atomic [OF TransferFunds_atomic]) (simp add: others_kept_def ledger_orders(2))
  show "io_steps (others_kept i) (processTrade j1 j2 t)" for j1 j2 t
    unfolding processTrade_def Let_def
    by (intro others.steps_begin others.steps transfer others.steps_reads tx_Commit_empty io_rules)
  show "io_steps (others_kept i) (CreateOrderRow r)" if "ord_id r = i" for r
    using that by (intro others.steps_atomic [OF CreateOrderRow_atomic])
      (auto simp: others_kept_def dest!: CreateOrderRow_Inr)
  show "io_steps (others_kept i) (save_fill (filled_order r q))" if "ord_id r = i" for r q
  proof (rule others.steps_atomic [OF save_fill_atomic])
    fix w x w' assume s: "save_fill (filled_order r q) w = (Inr x, w')"
    have id: "ord_id (filled_order r q) = i" using that by (simp add: filled_order_def Let_def)
    have "filter (\<lambda>r. ord_id r \<noteq> i) (map (\<lambda>r'. if ord_id r' = i then r'\<lparr>ord_filled := f, ord_status := st\<rparr> else r') rs) =
        filter (\<lambda>r. ord_id r \<noteq> i) rs" for f st and rs :: "order list" by (induction rs) auto
    then show "others_kept i w w'" using save_fill_Inr [OF s] id by (auto simp: others_kept_def)
  qed
qed

section \<open>Prices stay\<close>

definition prices_kept :: "world \<Rightarrow> world \<Rightarrow> bool" where
  "prices_kept w w' \<longleftrightarrow> ((\<forall>r \<in> set (db_orders (w_db w)). ord_price r \<noteq> None) \<longrightarrow>
     (\<forall>r \<in> set (db_orders (w_db w')). ord_price r \<noteq> None))"

interpretation prices: table_relation prices_kept
  by unfold_locales (auto simp: prices_kept_def)

interpretation prices_order: order_steps prices_kept "\<lambda>r. ord_price r \<noteq> None"
proof
  show "io_steps prices_kept (holdFunds u req k)" for u req k
    by (rule prices.steps_atomic [OF holdFunds_atomic])
       (auto simp: prices_kept_def holdFunds_def ledger_orders(1) split: if_splits)
  have transfer: "io_steps prices_kept (TransferFunds jid from to k c rt ri)" for jid "from" to k c rt ri
    by (rule prices.steps_atomic [OF TransferFunds_atomic]) (simp add: prices_kept_def ledger_orders(2))
  show "io_steps prices_kept (processTrade j1 j2 t)" for j1 j2 t
    unfolding processTrade_def Let_def
    by (intro prices.steps_begin prices.steps transfer prices.steps_reads tx_Commit_empty io_rules)
  show "io_steps prices_kept (CreateOrderRow r)" if "ord_price r \<noteq> None" for r
    using that by (intro prices.steps_atomic [OF CreateOrderRow_atomic])
      (fastforce simp: prices_kept_def dest!: CreateOrderRow_Inr)
  show "io_steps prices_kept (save_fill (filled_order r q))" for r q
    by (rule prices.steps_atomic [OF save_fill_atomic]) (auto simp: prices_kept_def dest!: save_fill_Inr)
qed

section \<open>Properties\<close>

fun outcome_state :: "'a outcome \<Rightarrow> ostate" where
  "outcome_state (Returns x s) = s"
| "outcome_state (Panics p s) = s"
| "outcome_state (Diverges s) = s"

lemma outcome_all_state: "outcome_all P c \<Longrightarrow> P (outcome_state c)"
  by (cases c) auto

lemma maker_row_stays:
  assumes "ord_id r \<noteq> ev_order_id ev" and "r \<in> set (active_orders (w_db (os_world s)) sy)"
  shows "r \<in> set (active_orders (w_db (os_world (outcome_state (CreateOrder ev u req s)))) sy)"
proof -
  let ?s' = "outcome_state (CreateOrder ev u req s)"
  have "others_kept (ev_order_id ev) (os_world s) (os_world ?s')"
    using outcome_all_state [OF others_order.CreateOrder_step [of ev u req "ev_order_id ev" s]]
    by (simp add: new_order_def)
  then have "r \<in> set (filter (\<lambda>r. ord_id r \<noteq> ev_order_id ev) (db_orders (w_db (os_world ?s')))) \<longleftrightarrow>
      r \<in> set (filter (\<lambda>r. ord_id r \<noteq> ev_order_id ev) (db_orders (w_db (os_world s))))"
    by (simp only: others_kept_def)
  then show ?thesis using assms by (simp add: active_orders_def)
qed



section \<open>The property on the sample book\<close>

text \<open>
  User 1 bids 80 for two coins, first in the queue of the sample book; user 2 sells two at 75 or better.
\<close>

definition maker_row :: order where
  "maker_row = \<lparr>ord_id = 104, ord_user = 1, ord_symbol = SymbolBTCUSD, ord_side = OrderSideBuy,
     ord_type = OrderTypeLimit, ord_price = Some 80, ord_qty = 2, ord_filled = 0, ord_status = OrderStatusNew,
     ord_created_at = 0\<rparr>"

definition sell_two :: create_order_request where
  "sell_two = sample_req SymbolBTCUSD OrderSideSell OrderTypeLimit (Some 75) 2"

definition makers_state :: ostate where
  "makers_state = sample_state\<lparr>os_world := sample_world\<lparr>w_db := sample_db\<lparr>db_orders := [maker_row]\<rparr>\<rparr>\<rparr>"

lemma maker_filled:
  "\<exists>m. MatchOrder (ev_trade_id sample_env) (ev_trade_now sample_env) (os_mem makers_state)
     (convertToBookOrder (new_order sample_env 2 sell_two)) sample_book = Some m \<and> bo_filled (mr_mem m ! 3) = 2"
proof -
  let ?r = "convertToBookOrder (new_order sample_env 2 sell_two)"
  have r: "bo_side ?r = OrderSideSell" "bo_type ?r = OrderTypeLimit" "bo_price ?r = Some 75" "remaining ?r = 2"
    by (simp_all add: convertToBookOrder_def new_order_def sell_two_def remaining_def)
  then have opp: "opposite ?r ob = ob_bids ob" for ob by (simp add: opposite_def)
  have "crosses ?r sample_book 1"
    using r by (simp add: crosses_def opp bs_GetBestLevel_def ph_top_def ph_Len_def price_blocks_def price_at_def
        sample_book_def)
  moreover have "level_orders ?r sample_book 1 = [] @ 3 # [4, 5]" by (simp add: level_orders_def opp sample_book_def)
  ultimately have "\<exists>res t. MatchOrder (ev_trade_id sample_env) (ev_trade_now sample_env) sample_mem ?r sample_book = Some res \<and>
      bo_filled (mr_mem res ! 3) = bo_filled (sample_mem ! 3) + remaining ?r"
    using MatchOrder_covered [of ?r sample_book 1 "[]" 3 "[4, 5]" sample_mem] r(4) sample_open by fastforce
  then show ?thesis by (auto simp: r(4) makers_state_def sample_mem_def)
qed


end
