(* ===== verification/BookSpec.thy ===== *)
theory BookSpec
  imports OrderBook
begin

text \<open>
  The order book of \<open>internal/limitbook/orderbook.go\<close> against a specification without levels, heaps
  or pointers: the resting orders as one list in order of arrival, and the orders ever added. Adding
  appends, removing filters, the queue of a side and price is a filter, and the best price of a side
  is the least price ever added to it. \<open>AddOrder\<close>, \<open>RemoveOrder\<close>, \<open>GetBestBid\<close> and \<open>GetBestAsk\<close>
  simulate it for any sequence of calls.
\<close>

section \<open>The specification\<close>

record spec_book =
  sp_resting :: "oref list"
  sp_placed :: "oref list"

definition empty_spec :: spec_book where
  "empty_spec = \<lparr>sp_resting = [], sp_placed = []\<rparr>"

definition buys :: "omem \<Rightarrow> oref \<Rightarrow> bool" where
  "buys mem r = (bo_side (mem ! r) = OrderSideBuy)"

fun least :: "decimal list \<Rightarrow> decimal option" where
  "least [] = None"
| "least (p # ps) = Some (fold min ps p)"

definition sp_queue :: "(decimal \<Rightarrow> string) \<Rightarrow> omem \<Rightarrow> spec_book \<Rightarrow> bool \<Rightarrow> string \<Rightarrow> oref list" where
  "sp_queue str mem sp bid k =
     filter (\<lambda>r. buys mem r = bid \<and> price_key str mem r = Some k) (sp_resting sp)"

definition sp_best :: "omem \<Rightarrow> spec_book \<Rightarrow> bool \<Rightarrow> decimal option" where
  "sp_best mem sp bid =
     least (map (\<lambda>r. the (bo_price (mem ! r))) (filter (\<lambda>r. buys mem r = bid) (sp_placed sp)))"

section \<open>Calls and replies\<close>

datatype book_op = Add oref | Remove uuid | BestBid | BestAsk

datatype book_reply = Added | Found bool | Best "decimal option"

fun spec_call :: "omem \<Rightarrow> book_op \<Rightarrow> spec_book \<Rightarrow> panic + book_reply \<times> spec_book" where
  "spec_call mem (Add r) sp =
     (if bo_price (mem ! r) = None then Inl NilDereference
      else Inr (Added, \<lparr>sp_resting = sp_resting sp @ [r], sp_placed = sp_placed sp @ [r]\<rparr>))"
| "spec_call mem (Remove oid) sp =
     Inr (Found (\<exists>r \<in> set (sp_resting sp). bo_id (mem ! r) = oid),
          sp\<lparr>sp_resting := filter (\<lambda>r. bo_id (mem ! r) \<noteq> oid) (sp_resting sp)\<rparr>)"
| "spec_call mem BestBid sp = Inr (Best (sp_best mem sp True), sp)"
| "spec_call mem BestAsk sp = Inr (Best (sp_best mem sp False), sp)"

fun book_call :: "(decimal \<Rightarrow> string) \<Rightarrow> omem \<Rightarrow> book_op \<Rightarrow> order_book \<Rightarrow> panic + book_reply \<times> order_book" where
  "book_call str mem (Add r) ob = map_sum id (Pair Added) (ob_AddOrder str mem r ob)"
| "book_call str mem (Remove oid) ob =
     (case ob_RemoveOrder mem oid ob of (found, ob') \<Rightarrow> Inr (Found found, ob'))"
| "book_call str mem BestBid ob = Inr (Best (ob_GetBestBid ob), ob)"
| "book_call str mem BestAsk ob = Inr (Best (ob_GetBestAsk ob), ob)"

fun calls :: "('c \<Rightarrow> 's \<Rightarrow> panic + book_reply \<times> 's) \<Rightarrow> 'c list \<Rightarrow> 's \<Rightarrow> panic + book_reply list \<times> 's" where
  "calls f [] s = Inr ([], s)"
| "calls f (c # cs) s =
     (case f c s of
        Inl e \<Rightarrow> Inl e
      | Inr (a, s1) \<Rightarrow> map_sum id (\<lambda>(as, s2). (a # as, s2)) (calls f cs s1))"

fun added :: "book_op list \<Rightarrow> oref list" where
  "added [] = []"
| "added (Add r # cs) = r # added cs"
| "added (_ # cs) = added cs"

section \<open>One side\<close>

lemma least_Some: "least ps = Some p \<longleftrightarrow> ps \<noteq> [] \<and> p = Min (set ps)"
  by (cases ps) (auto simp: Min.set_eq_fold [symmetric])

lemma least_None [simp]: "least ps = None \<longleftrightarrow> ps = []"
  by (cases ps) auto

definition side_rel :: "(decimal \<Rightarrow> string) \<Rightarrow> omem \<Rightarrow> book_side \<Rightarrow> oref list \<Rightarrow> oref list \<Rightarrow> bool" where
  "side_rel str mem bs rs placed \<longleftrightarrow>
     bs_wf str mem bs \<and> (\<forall>k. bs_view bs k = filter (\<lambda>r. price_key str mem r = Some k) rs) \<and>
     pl_price ` set (bs_store bs) = (\<lambda>r. the (bo_price (mem ! r))) ` set placed"

lemma bs_AddOrder_prices:
  assumes wf: "bs_wf str mem bs" and inj: "inj str" and p: "bo_price (mem ! r) = Some p"
    and add: "bs_AddOrder str mem r bs = Inr bs'"
  shows "pl_price ` set (bs_store bs') = insert p (pl_price ` set (bs_store bs))"
proof (cases "map_of (bs_levels bs) (str p)")
  case None
  then show ?thesis using add p by (auto simp: bs_AddOrder_def Let_def)
next
  case (Some l)
  note L = bs_wf_map_of [OF wf Some]
  have "p = pl_price (bs_store bs ! l)" using L(2) inj by (simp add: price_at_def inj_eq)
  with L(1) have "p \<in> pl_price ` set (bs_store bs)" by auto
  moreover have "map pl_price (bs_store bs') = map pl_price (bs_store bs)"
    using add p Some by (auto simp: bs_AddOrder_def map_update list_update_same_conv L(1))
  then have "pl_price ` set (bs_store bs') = pl_price ` set (bs_store bs)" by (metis set_map)
  ultimately show ?thesis by auto
qed

lemma same_prices:
  assumes "length st' = length st" and "price_at st' = price_at st"
  shows "pl_price ` set st' = pl_price ` set st"
proof -
  have "map pl_price st' = map pl_price st"
    using assms by (intro nth_equalityI) (auto simp: fun_eq_iff price_at_def)
  then show ?thesis by (metis set_map)
qed

lemma side_best:
  assumes R: "side_rel str mem bs rs placed"
  shows "bs_GetBestPrice bs = least (map (\<lambda>r. the (bo_price (mem ! r))) placed)"
proof -
  have wf: "bs_wf str mem bs" and ps: "pl_price ` set (bs_store bs) = (\<lambda>r. the (bo_price (mem ! r))) ` set placed"
    using R by (auto simp: side_rel_def)
  show ?thesis
  proof (cases "ph_top (bs_heap bs)")
    case None
    with ph_top_wf_None [OF wf] ps show ?thesis by (simp add: bs_GetBestPrice_def)
  next
    case (Some l)
    note T = ph_top_wf [OF wf Some]
    have "Min (pl_price ` set (bs_store bs)) = price_at (bs_store bs) l"
    proof (rule Min_eqI)
      show "price_at (bs_store bs) l \<in> pl_price ` set (bs_store bs)" using T(1) by (simp add: price_at_def)
    qed (use T(2) in \<open>auto simp: price_at_def in_set_conv_nth\<close>)
    moreover have "placed \<noteq> []" using T(1) ps by auto
    ultimately have "least (map (\<lambda>r. the (bo_price (mem ! r))) placed) = Some (price_at (bs_store bs) l)"
      by (simp add: least_Some ps)
    with Some show ?thesis by (simp add: bs_GetBestPrice_def)
  qed
qed

lemma side_add:
  assumes R: "side_rel str mem bs rs placed" and inj: "inj str"
    and r: "r < length mem" and p: "bo_price (mem ! r) = Some p"
  shows "\<exists>bs'. bs_AddOrder str mem r bs = Inr bs' \<and> side_rel str mem bs' (rs @ [r]) (placed @ [r])"
proof -
  have k: "price_key str mem r = Some (str p)" using p by (simp add: price_key_def)
  from side.add_ok [OF _ r k, of bs] R obtain bs' where bs': "bs_AddOrder str mem r bs = Inr bs'"
    "bs_wf str mem bs'" "bs_view bs' = (bs_view bs)(str p := bs_view bs (str p) @ [r])"
    by (auto simp: side_rel_def)
  with bs_AddOrder_prices [OF _ inj p bs'(1)] R k p show ?thesis
    by (auto simp: side_rel_def)
qed

lemma side_remove:
  assumes R: "side_rel str mem bs rs placed" and ids: "distinct (map (\<lambda>r. bo_id (mem ! r)) rs)"
    and priced: "\<forall>r \<in> set rs. bo_price (mem ! r) \<noteq> None"
  shows "\<exists>bs'. bs_RemoveOrder mem oid bs = ((\<exists>r \<in> set rs. bo_id (mem ! r) = oid), bs') \<and>
               side_rel str mem bs' (filter (\<lambda>r. bo_id (mem ! r) \<noteq> oid) rs) placed"
proof -
  have wf: "bs_wf str mem bs" and v: "\<And>k. bs_view bs k = filter (\<lambda>r. price_key str mem r = Some k) rs"
    using R by (auto simp: side_rel_def)
  have inj: "inj_on (\<lambda>r. bo_id (mem ! r)) (set rs)" using ids by (simp add: distinct_map)
  have "\<exists>bs'. bs_RemoveOrder mem oid bs = ((\<exists>k. \<exists>r \<in> set (bs_view bs k). bo_id (mem ! r) = oid), bs') \<and>
          bs_wf str mem bs' \<and> bs_view bs' = (\<lambda>k. filter (\<lambda>r. bo_id (mem ! r) \<noteq> oid) (bs_view bs k))"
  proof (rule side.remove_filters [OF wf])
    fix k k' q r
    show "q \<in> set (bs_view bs k) \<Longrightarrow> r \<in> set (bs_view bs k') \<Longrightarrow> bo_id (mem ! q) = bo_id (mem ! r) \<Longrightarrow> k = k'"
      using inj by (auto simp: v dest!: inj_onD)
    show "distinct (map (\<lambda>r. bo_id (mem ! r)) (bs_view bs k))"
      using ids by (simp add: v distinct_map_filter)
  qed
  moreover have "(\<exists>k. \<exists>r \<in> set (bs_view bs k). bo_id (mem ! r) = oid) = (\<exists>r \<in> set rs. bo_id (mem ! r) = oid)"
    using priced by (fastforce simp: v price_key_def)
  moreover have "filter (\<lambda>r. bo_id (mem ! r) \<noteq> oid) (bs_view bs k) =
      filter (\<lambda>r. price_key str mem r = Some k) (filter (\<lambda>r. bo_id (mem ! r) \<noteq> oid) rs)" for k
    by (simp add: v conj_commute)
  moreover have "pl_price ` set (bs_store (snd (bs_RemoveOrder mem oid bs))) = pl_price ` set (bs_store bs)"
    by (rule same_prices) (simp_all add: bs_RemoveOrder_prices bs_RemoveOrder_store_length)
  ultimately show ?thesis using R by (auto simp: side_rel_def)
qed

section \<open>The book\<close>

definition book_rel :: "(decimal \<Rightarrow> string) \<Rightarrow> omem \<Rightarrow> order_book \<Rightarrow> spec_book \<Rightarrow> bool" where
  "book_rel str mem ob sp \<longleftrightarrow>
     side_rel str mem (ob_bids ob) (filter (buys mem) (sp_resting sp)) (filter (buys mem) (sp_placed sp)) \<and>
     side_rel str mem (ob_asks ob) (filter (\<lambda>r. \<not> buys mem r) (sp_resting sp))
       (filter (\<lambda>r. \<not> buys mem r) (sp_placed sp)) \<and>
     distinct (map (\<lambda>r. bo_id (mem ! r)) (sp_resting sp)) \<and>
     set (sp_resting sp) \<subseteq> set (sp_placed sp) \<and>
     (\<forall>r \<in> set (sp_placed sp). r < length mem \<and> bo_price (mem ! r) \<noteq> None)"

lemma side_rel_New: "side_rel str mem (NewBookSide isBid) [] []"
  unfolding side_rel_def by (intro conjI bs_wf_New) (simp_all add: NewBookSide_def bs_view_def)

lemma book_rel_start: "book_rel str mem (NewOrderBook sy) empty_spec"
  by (simp add: book_rel_def NewOrderBook_def empty_spec_def side_rel_New)

lemma book_rel_queue: "book_rel str mem ob sp \<Longrightarrow> ob_view ob = sp_queue str mem sp"
  by (intro ext) (auto simp: book_rel_def side_rel_def ob_view_def sp_queue_def conj_commute)

lemma book_rel_best:
  assumes "book_rel str mem ob sp"
  shows "ob_GetBestBid ob = sp_best mem sp True" and "ob_GetBestAsk ob = sp_best mem sp False"
  using assms side_best unfolding book_rel_def ob_GetBestBid_def ob_GetBestAsk_def sp_best_def
  by (auto simp del: least.simps)

lemma book_rel_add:
  assumes R: "book_rel str mem ob sp" and inj: "inj str"
    and r: "r < length mem" and p: "bo_price (mem ! r) = Some p"
    and new: "\<forall>q \<in> set (sp_resting sp). bo_id (mem ! q) \<noteq> bo_id (mem ! r)"
  shows "\<exists>ob'. ob_AddOrder str mem r ob = Inr ob' \<and>
    book_rel str mem ob' \<lparr>sp_resting = sp_resting sp @ [r], sp_placed = sp_placed sp @ [r]\<rparr>"
proof (cases "buys mem r")
  case True
  with R side_add [OF _ inj r p, of "ob_bids ob"] obtain b where "bs_AddOrder str mem r (ob_bids ob) = Inr b"
    "side_rel str mem b (filter (buys mem) (sp_resting sp) @ [r]) (filter (buys mem) (sp_placed sp) @ [r])"
    unfolding book_rel_def by blast
  with True R r p new show ?thesis by (auto simp: book_rel_def ob_AddOrder_def buys_def)
next
  case False
  with R side_add [OF _ inj r p, of "ob_asks ob"] obtain a where "bs_AddOrder str mem r (ob_asks ob) = Inr a"
    "side_rel str mem a (filter (\<lambda>r. \<not> buys mem r) (sp_resting sp) @ [r])
       (filter (\<lambda>r. \<not> buys mem r) (sp_placed sp) @ [r])"
    unfolding book_rel_def by blast
  with False R r p new show ?thesis by (auto simp: book_rel_def ob_AddOrder_def buys_def)
qed

lemma book_rel_remove:
  assumes R: "book_rel str mem ob sp"
  shows "\<exists>ob'. ob_RemoveOrder mem oid ob = ((\<exists>r \<in> set (sp_resting sp). bo_id (mem ! r) = oid), ob') \<and>
    book_rel str mem ob' (sp\<lparr>sp_resting := filter (\<lambda>r. bo_id (mem ! r) \<noteq> oid) (sp_resting sp)\<rparr>)"
proof -
  let ?id = "\<lambda>r. bo_id (mem ! r)" and ?rs = "sp_resting sp"
  let ?bids = "filter (buys mem) ?rs" and ?asks = "filter (\<lambda>r. \<not> buys mem r) ?rs"
  have ids: "distinct (map ?id ?rs)" and priced: "\<forall>r \<in> set ?rs. bo_price (mem ! r) \<noteq> None"
    using R by (auto simp: book_rel_def)
  then have once: "q = r" if "q \<in> set ?rs" "r \<in> set ?rs" "?id q = ?id r" for q r
    using that by (auto simp: distinct_map dest: inj_onD)
  have sub: "distinct (map ?id (filter P ?rs))" "\<forall>r \<in> set (filter P ?rs). bo_price (mem ! r) \<noteq> None" for P
    using ids priced by (auto intro: distinct_map_filter)
  have Rb: "side_rel str mem (ob_bids ob) ?bids (filter (buys mem) (sp_placed sp))"
    and Ra: "side_rel str mem (ob_asks ob) ?asks (filter (\<lambda>r. \<not> buys mem r) (sp_placed sp))"
    using R by (auto simp: book_rel_def)
  obtain b where b: "bs_RemoveOrder mem oid (ob_bids ob) = ((\<exists>r \<in> set ?bids. ?id r = oid), b)"
      "side_rel str mem b (filter (\<lambda>r. ?id r \<noteq> oid) ?bids) (filter (buys mem) (sp_placed sp))"
    using side_remove [OF Rb sub] by blast
  obtain a where a: "bs_RemoveOrder mem oid (ob_asks ob) = ((\<exists>r \<in> set ?asks. ?id r = oid), a)"
      "side_rel str mem a (filter (\<lambda>r. ?id r \<noteq> oid) ?asks) (filter (\<lambda>r. \<not> buys mem r) (sp_placed sp))"
    using side_remove [OF Ra sub] by blast
  let ?new = "sp\<lparr>sp_resting := filter (\<lambda>r. ?id r \<noteq> oid) ?rs\<rparr>"
  have swap: "filter P (filter Q ?rs) = filter Q (filter P ?rs)" for P Q by (simp add: conj_commute)
  have rel: "book_rel str mem ob' ?new"
    if "ob_bids ob' = b" and "side_rel str mem (ob_asks ob') (filter (\<lambda>r. ?id r \<noteq> oid) ?asks)
          (filter (\<lambda>r. \<not> buys mem r) (sp_placed sp))" for ob'
    using R b(2) that distinct_map_filter [OF ids]
    by (auto simp: book_rel_def swap [of "buys mem"] swap [of "\<lambda>r. \<not> buys mem r"] simp del: filter_filter)
  show ?thesis
  proof (cases "\<exists>r \<in> set ?bids. ?id r = oid")
    case True
    then have "filter (\<lambda>r. ?id r \<noteq> oid) ?asks = ?asks"
      using once by (auto simp: filter_id_conv simp del: filter_filter)
    with Ra rel [of "ob\<lparr>ob_bids := b\<rparr>"] True b(1) show ?thesis by (auto simp: ob_RemoveOrder_def)
  next
    case False
    with b(1) have "bs_RemoveOrder mem oid (ob_bids ob) = (False, b)" by (simp only: simp_thms)
    moreover have "(\<exists>r \<in> set ?asks. ?id r = oid) = (\<exists>r \<in> set ?rs. ?id r = oid)" using False by auto
    ultimately show ?thesis using rel [of "ob\<lparr>ob_bids := b, ob_asks := a\<rparr>"] a
      by (simp only: ob_RemoveOrder_def) simp
  qed
qed

section \<open>Sequences of calls\<close>

lemma book_call_simulates:
  assumes R: "book_rel str mem ob sp" and inj: "inj str" and ids: "distinct (map bo_id mem)"
    and c: "\<forall>r \<in> set (added [c]). r < length mem \<and> r \<notin> set (sp_placed sp)"
  shows "case spec_call mem c sp of
      Inl e \<Rightarrow> book_call str mem c ob = Inl e
    | Inr (a, sp') \<Rightarrow> \<exists>ob'. book_call str mem c ob = Inr (a, ob') \<and> book_rel str mem ob' sp' \<and>
                         set (sp_placed sp') = set (sp_placed sp) \<union> set (added [c])"
proof (cases c)
  case (Add r)
  show ?thesis
  proof (cases "bo_price (mem ! r)")
    case None
    with Add show ?thesis by (simp add: ob_AddOrder_def bs_AddOrder_nil)
  next
    case (Some p)
    have "bo_id (mem ! q) \<noteq> bo_id (mem ! r)" if "q \<in> set (sp_resting sp)" for q
    proof -
      from that R have "q \<in> set (sp_placed sp)" "q < length mem" by (auto simp: book_rel_def)
      with ids c Add show ?thesis by (auto simp: distinct_conv_nth)
    qed
    with book_rel_add [OF R inj _ Some] c Add show ?thesis by (fastforce simp: Some)
  qed
next
  case (Remove oid)
  with book_rel_remove [OF R, of oid] show ?thesis by auto
qed (use book_rel_best [OF R] R in auto)

lemma added_Cons: "set (added (c # cs)) = set (added [c]) \<union> set (added cs)"
  and distinct_added_Cons: "distinct (added (c # cs)) \<longleftrightarrow>
    set (added [c]) \<inter> set (added cs) = {} \<and> distinct (added cs)"
  by (cases c; auto)+

lemma calls_simulate:
  assumes "book_rel str mem ob sp" and "inj str" and "distinct (map bo_id mem)"
    and "distinct (added cs)" and "\<forall>r \<in> set (added cs). r < length mem \<and> r \<notin> set (sp_placed sp)"
  shows "map_sum id (map_prod id ob_view) (calls (book_call str mem) cs ob) =
         map_sum id (map_prod id (sp_queue str mem)) (calls (spec_call mem) cs sp)"
  using assms
proof (induction cs arbitrary: ob sp)
  case Nil
  then show ?case by (simp add: book_rel_queue)
next
  case (Cons c cs)
  note split = added_Cons [of c cs] distinct_added_Cons [of c cs]
  have "\<forall>r \<in> set (added [c]). r < length mem \<and> r \<notin> set (sp_placed sp)"
    using Cons.prems(5) unfolding split by blast
  note step = book_call_simulates [OF Cons.prems(1-3) this]
  show ?case
  proof (cases "spec_call mem c sp")
    case (Inl e)
    with step show ?thesis by simp
  next
    case (Inr x)
    obtain a sp' where x: "x = (a, sp')" by (cases x)
    with Inr step obtain ob' where ob': "book_call str mem c ob = Inr (a, ob')"
      "book_rel str mem ob' sp'" "set (sp_placed sp') = set (sp_placed sp) \<union> set (added [c])"
      by auto
    have "map_sum id (map_prod id ob_view) (calls (book_call str mem) cs ob') =
          map_sum id (map_prod id (sp_queue str mem)) (calls (spec_call mem) cs sp')"
      using Cons.prems(4,5) ob'(3) unfolding split
      by (intro Cons.IH [OF ob'(2) Cons.prems(2,3)]) blast+
    with Inr x ob'(1) show ?thesis
      by (cases "calls (book_call str mem) cs ob'"; cases "calls (spec_call mem) cs sp'") auto
  qed
qed

section \<open>Properties\<close>

text \<open>
  C11: an order book started empty answers any sequence of adds, removes and best-price queries as
  the specification does, panics exactly where it does (an order without a price), and has the
  specification's queues at the end: per side and price, the orders added and not removed, in order
  of arrival. A removed order's price still counts for the best price.
\<close>

theorem book_refines_spec:
  assumes "inj str" and "distinct (map bo_id mem)"
    and "distinct (added cs)" and "\<forall>r \<in> set (added cs). r < length mem"
  shows "map_sum id (map_prod id ob_view) (calls (book_call str mem) cs (NewOrderBook sy)) =
         map_sum id (map_prod id (sp_queue str mem)) (calls (spec_call mem) cs empty_spec)"
  by (rule calls_simulate [OF book_rel_start assms(1-3)])
     (use assms(4) in \<open>simp add: empty_spec_def\<close>)

lemma book_refines_spec_witness:
  "map_sum id (map_prod id ob_view) (calls (book_call sample_str more_mem)
     [Add 0, Add 6, Add 2, Add 3, Remove 101, Remove 104, Remove 104, BestAsk, BestBid]
     (NewOrderBook SymbolBTCUSD)) =
   Inr ([Added, Added, Added, Added, Found True, Found True, Found False, Best (Some 100), Best (Some 80)],
        sp_queue sample_str more_mem \<lparr>sp_resting = [6, 2], sp_placed = [0, 6, 2, 3]\<rparr>)"
proof -
  have mem: "more_mem ! 0 = sample_order 101 1 OrderSideSell 100 5"
    "more_mem ! 2 = sample_order 103 1 OrderSideBuy 90 4"
    "more_mem ! 3 = sample_order 104 1 OrderSideBuy 80 2"
    "more_mem ! 6 = sample_order 107 4 OrderSideSell 100 1" "length more_mem = 7"
    "distinct (map bo_id more_mem)"
    by (simp_all add: more_mem_def sample_mem_def)
  show ?thesis
    by (subst book_refines_spec [OF inj_sample_str mem(6)])
       (simp_all add: mem empty_spec_def sp_best_def buys_def, rule exI [of _ 3], simp add: mem)
qed

end
