(* ===== verification/Spec2Isabelle.thy ===== *)
theory Spec2Isabelle
  imports Requests WebSocket Interleaving Portfolio Makers BookSpec
begin

text \<open>
  A verification development for microCoin, a paper-trading spot exchange written in Go: users sign up,
  top up a USD balance, place limit and market orders on two order books, and watch quotes.

  \<^bold>\<open>The program.\<close> One process, \<open>cmd/monolith/main.go\<close>, serves HTTP. A request passes the middleware
  (token check, rate limit, CORS, logging) and reaches a handler; the handlers for top-ups and orders
  first look their idempotency key up and store their answer under it at the end. Below the handlers
  are the ledger service (double-entry journals and balances, \<open>internal/ledger\<close>), the order service
  (\<open>internal/orders\<close>: hold the funds, match in memory, settle the trades, store the rows), the matching
  books (\<open>internal/limitbook\<close>), the quotes service (\<open>internal/quotes\<close>), authentication
  (\<open>internal/auth\<close>), the rate limiter (\<open>internal/rate\<close>), and the repositories over PostgreSQL
  (\<open>internal/database\<close>, with the schema in \<open>migrations\<close>). State is in three places: the tables, the
  books and quotes in memory, and the token buckets in Redis.

  \<^bold>\<open>The theories\<close>, in the order of their imports:

  \<^item> \<open>Prelude\<close>, \<open>Models\<close>: errors as values, decimals as rationals, UUIDs as words, and the records and
    enumerations of \<open>internal/models\<close>.
  \<^item> \<open>PriceHeap\<close> (\<open>heap.go\<close> with \<open>container/heap\<close>), \<open>OrderBook\<close> and \<open>Matching\<close> (\<open>orderbook.go\<close>): pointers
    are addresses, so a level that is shared by the map and the heap is one object, and the backing
    array that \<open>MatchOrder\<close> deletes from under its own range loop is modelled as such. A panic is a
    value of a sum type, a call that does not return is \<open>None\<close> of a partial function. \<open>BookSpec\<close>: the abstract
    specification of a book, a list of resting orders, and the refinement.
  \<^item> \<open>Quotes\<close>, \<open>Feed\<close> and \<open>WebSocket\<close>: the subscribers' channels, the two unlocked steps of \<open>updateQuote\<close>, the
    mock generator, the two goroutines of \<open>Start\<close> with the messages Redis carries from one to the other, and
    the connections of \<open>websocketQuotesHandler\<close> as interleaved turns.
  \<^item> \<open>Database\<close>: tables, constraints, \<open>NUMERIC(30,10)\<close>, transactions, the repositories, and a schedule
    that makes any call of the driver fail. \<open>Schema\<close>: what the statements can do to the tables. \<open>Connection\<close>:
    \<open>database.go\<close>, the configuration and opening of the pool.
  \<^item> \<open>Ledger\<close> and \<open>Orders\<close>: the two services, one definition per function, every early return, panic and
    partial commit included. \<open>Bank\<close>: the abstract specification of both, a map from users and currencies to
    amounts, and the refinement. \<open>Interleaving\<close>: the ledger operations cut between read and write. \<open>Makers\<close>:
    the rows of the resting orders.
  \<^item> \<open>Doubles\<close> and \<open>RateLimiter\<close>: binary floating point and the Lua scripts of the token bucket.
  \<^item> \<open>Auth\<close>, \<open>Middleware\<close>: password hashes down to their base-64 text, tokens, the chain of middleware.
  \<^item> \<open>Sha256\<close>, \<open>Idempotency\<close>: the digest, the fingerprints, the key store.
  \<^item> \<open>Server\<close>: the handlers and routes. \<open>System\<close>: the server as a state machine over requests, faults and
    restarts. \<open>Requests\<close>: repeated and concurrent requests, and which requests are answered. \<open>Startup\<close>: the body
    of \<open>main\<close>, from the first connection to the end of the process. \<open>Portfolio\<close>: what a user sees of the ledger.

  \<^bold>\<open>Interfaces.\<close> \<open>min_queue\<close> (the heap), \<open>price_time_queue\<close> and \<open>price_time_book\<close> (a side of a book),
  \<open>account_store\<close> (balances under updates), \<open>rounding\<close> (doubles), \<open>cut_operation\<close> (an operation that first
  reads and then writes, with the four ledger operations), and the layers of steps: \<open>step_relation\<close> and
  \<open>table_relation\<close> for database operations, \<open>order_steps\<close> for the order service, \<open>server_steps\<close> for the
  whole server. A relation on worlds that is reflexive, transitive and kept by the few operations that
  write is thereby kept by every order and every request; it is used with five relations: the books stay
  balanced and no hold shrinks (\<open>trading\<close>), only accepted statements change the tables (\<open>writes\<close>), a
  database without money stays without (\<open>keeps_penniless\<close>), the rows of other orders stay (\<open>others_kept\<close>),
  prices stay (\<open>prices_kept\<close>).

  \<^bold>\<open>What the theorems show.\<close> For the whole server: the invariants of every reachable state, top-ups that
  are credited once, replayed answers, sign-up followed by login, protected paths, and that every
  request is answered unless it is an order that would trade; tables that keep their types and only grow;
  how the process ends in every case. For the ledger: the refinement of the abstract bank and the
  conservation of money that follows, zero-sum journals, non-negative balances, exact reconciliation,
  atomicity of each operation, hold and release as inverses, and which overlaps are harmless.
  For orders and matching: what a resting order does, what a trade settles, conservation of fills,
  prices within limits, the books rebuilt on a restart. For the books: the refinement of the abstract
  book by any sequence of calls, price-time queues. For the rate
  limiter: how many requests pass in a time. For quotes: transport, order and delivery.
  Theorems of the kind \<open>error\<close> describe, exactly, where the code does not do what it means to:
  \<open>MatchOrder\<close> does not return or panics once a level is exhausted, best bids are the lowest bids,
  settlement is not atomic, a trade with oneself creates money, held funds are never released, an empty
  deployment can never be funded, idempotency keys do not protect requests in flight, concurrent holds
  overwrite each other, filled orders come back with a restart, a market order that found nothing to trade
  with makes every later start panic, and without Redis the process dies.

  \<^bold>\<open>Bounds.\<close> There is no fuel: loops are structural, have a measure (the heap, base 64, SHA-256 blocks), or
  are the partial function \<open>match_loop\<close>, for which returning and not returning are proved as such.
  Amounts are exact rationals as in the decimal library; the columns round to ten decimals and hold less
  than \<open>10 ^ 20\<close>, and the theorems that need a bound on a balance state it.

  \<^bold>\<open>What is assumed of code that is not in the repository\<close>, always as an argument: the renderings and the
  division of decimals, the JSON codec, \<open>argon2.IDKey\<close>, the JWT library (\<open>jwt_documented\<close> states what
  its documentation says), the rendering of JSONB columns, fresh UUIDs, random bytes and clocks, the
  visiting order of maps, the route that \<open>mux\<close> picks, the encoding of quotes (\<open>codec_documented\<close>: decoding
  inverts encoding), and what PostgreSQL, Redis, the listener and the signals answer to \<open>main\<close>. Redis loses
  messages but delivers the rest in order. Database statements and Redis scripts are atomic,
  and the state machine of \<open>System\<close> runs its requests one after the other.

  \<^bold>\<open>Not modelled\<close>: logs; the constructors that only store a pointer; mutexes, except where two unlocked
  steps can interleave (\<open>updateQuote\<close>, the check and the storing of an idempotency key, the two halves of a
  ledger operation); the deferred \<open>Close\<close> calls of \<open>main\<close>; the transport of a WebSocket; the rollback migration
  and the tests.

  \<^bold>\<open>Left for later\<close>: interleavings of whole requests inside the state machine of \<open>System\<close>, and
  \<open>MatchOrder\<close> as a call of the abstract book.
\<close>

end
